(* ===== verification/Prelude.thy ===== *)
theory Prelude
  imports Main "HOL-Library.Word"
begin

text \<open>
  Shared ground of the development: the machine types of the C code, byte memory with
  \<open>memcpy\<close>, ASCII literals, the decimal rendering that \<open>printf\<close> gives \<open>%u\<close>, \<open>%lu\<close>,
  \<open>%zu\<close> and \<open>%ld\<close>, and the list facts every component uses.

  \<open>size_t\<close> quantities are natural numbers (every one of them is bounded by a buffer size
  far below \<open>2 ^ 64\<close>, and the bounds are proved where they matter); fields the code keeps
  in 8, 32 or 64 bits are words of that width.
\<close>

section \<open>Machine types\<close>

type_synonym u8 = "8 word"
type_synonym u32 = "32 word"
type_synonym u64 = "64 word"

definition INT_MAX :: nat where "INT_MAX = 2147483647"

text \<open>A C array whose bounds the code keeps elsewhere: the byte at each index.\<close>

type_synonym mem = "nat \<Rightarrow> u8"

lemma unat_u8_less [simp]: "unat (x :: u8) < 256"
  using unsigned_less [of x] by simp

lemma unat_u32_less [simp]: "unat (x :: u32) < 4294967296"
  using unsigned_less [of x] by simp

lemma unat_u64_less [simp]: "unat (x :: u64) < 18446744073709551616"
  using unsigned_less [of x] by simp

named_theorems mem_simps \<open>reading back what was copied\<close>
named_theorems text_simps \<open>evaluation of command and reply text\<close>

section \<open>Byte memory\<close>

definition mem_write :: "mem \<Rightarrow> nat \<Rightarrow> u8 list \<Rightarrow> mem" where
  "mem_write m off xs = (\<lambda>i. if off \<le> i \<and> i < off + length xs then xs ! (i - off) else m i)"

definition mem_read :: "mem \<Rightarrow> nat \<Rightarrow> nat \<Rightarrow> u8 list" where
  "mem_read m off n = map m [off..<off + n]"

lemma length_mem_read [simp]: "length (mem_read m off n) = n"
  by (simp add: mem_read_def)

lemma nth_mem_read [mem_simps]: "i < n \<Longrightarrow> mem_read m off n ! i = m (off + i)"
  by (simp add: mem_read_def)

lemma mem_read_0 [simp]: "mem_read m off 0 = []"
  by (simp add: mem_read_def)

lemma mem_write_Nil [simp]: "mem_write m off [] = m"
  by (rule ext) (auto simp: mem_write_def)

lemma mem_write_outside [mem_simps]:
  "i < off \<or> off + length xs \<le> i \<Longrightarrow> mem_write m off xs i = m i"
  by (auto simp: mem_write_def)

lemma mem_write_inside [mem_simps]:
  "off \<le> i \<Longrightarrow> i < off + length xs \<Longrightarrow> mem_write m off xs i = xs ! (i - off)"
  by (auto simp: mem_write_def)

lemma mem_read_write [mem_simps]: "mem_read (mem_write m off xs) off (length xs) = xs"
  by (rule nth_equalityI) (auto simp: mem_simps)

lemma mem_read_add: "mem_read m off (n + k) = mem_read m off n @ mem_read m (off + n) k"
  by (rule nth_equalityI) (auto simp: nth_append nth_mem_read add.assoc)

lemma mem_read_write_before [mem_simps]:
  "off + n \<le> at \<Longrightarrow> mem_read (mem_write m at xs) off n = mem_read m off n"
  by (rule nth_equalityI) (auto simp: mem_simps)

lemma mem_read_take: "k \<le> n \<Longrightarrow> take k (mem_read m off n) = mem_read m off k"
  by (rule nth_equalityI) (auto simp: nth_mem_read)

lemma mem_read_append_write:
  "mem_read (mem_write m (off + n) xs) off (n + length xs) = mem_read m off n @ xs"
  by (simp add: mem_read_add mem_simps)

section \<open>Text\<close>

definition ascii :: "string \<Rightarrow> u8 list" where
  "ascii s = map of_char s"

lemma ascii_Nil [simp]: "ascii [] = []"
  by (simp add: ascii_def)

lemma ascii_Cons [text_simps]: "ascii (c # s) = of_char c # ascii s"
  by (simp add: ascii_def)

lemma length_ascii [simp]: "length (ascii s) = length s"
  by (simp add: ascii_def)

definition is_digit :: "u8 \<Rightarrow> bool" where
  "is_digit c \<longleftrightarrow> 48 \<le> c \<and> c \<le> 57"

text \<open>\<open>%u\<close>, \<open>%lu\<close>, \<open>%zu\<close>: the decimal digits, most significant first.\<close>

fun dec :: "nat \<Rightarrow> u8 list" where
  "dec n = (if n < 10 then [48 + of_nat n] else dec (n div 10) @ [48 + of_nat (n mod 10)])"

declare dec.simps [simp del]

text \<open>\<open>%ld\<close>: a minus sign where the value is negative.\<close>

definition dec_int :: "int \<Rightarrow> u8 list" where
  "dec_int i = (if i < 0 then 45 # dec (nat (- i)) else dec (nat i))"

text \<open>\<open>%lu\<close>, \<open>%u\<close>, \<open>%zu\<close> and \<open>%ld\<close> as the characters of a text.\<close>

definition show_nat :: "nat \<Rightarrow> string" where
  "show_nat n = map (\<lambda>b. char_of (unat b)) (dec n)"

definition show_int :: "int \<Rightarrow> string" where
  "show_int i = map (\<lambda>b. char_of (unat b)) (dec_int i)"

text \<open>The value of a digit, and of a run of digits.\<close>

definition digit_val :: "u8 \<Rightarrow> nat" where
  "digit_val c = unat (c - 48)"

definition dec_value :: "u8 list \<Rightarrow> nat" where
  "dec_value = foldl (\<lambda>v c. v * 10 + digit_val c) 0"

lemma digit_char [simp]:
  assumes "d < 10"
  shows "is_digit (48 + of_nat d)" and "digit_val (48 + of_nat d) = d"
proof -
  have u: "unat (48 + of_nat d :: u8) = 48 + d"
    using assms by (simp add: unat_word_ariths unat_of_nat)
  show "is_digit (48 + of_nat d)"
    using assms by (simp add: is_digit_def word_le_nat_alt u)
  show "digit_val (48 + of_nat d) = d"
    using assms by (simp add: digit_val_def unat_of_nat)
qed

lemma digit_val_less: "is_digit c \<Longrightarrow> digit_val c < 10"
  unfolding is_digit_def digit_val_def by (auto simp: word_le_nat_alt unat_sub)

lemma dec_not_Nil [simp]: "dec n \<noteq> []"
  by (subst dec.simps) simp

lemma dec_digits: "c \<in> set (dec n) \<Longrightarrow> is_digit c"
proof (induction n rule: dec.induct)
  case (1 n)
  then show ?case
    by (subst (asm) dec.simps) (auto split: if_splits)
qed

lemma dec_value_append: "dec_value (xs @ [c]) = dec_value xs * 10 + digit_val c"
  by (simp add: dec_value_def)

lemma dec_value_dec [simp]: "dec_value (dec n) = n"
proof (induction n rule: dec.induct)
  case (1 n)
  show ?case
  proof (cases "n < 10")
    case True
    then show ?thesis by (subst dec.simps) (simp add: dec_value_def)
  next
    case False
    with 1 show ?thesis by (subst dec.simps) (simp add: dec_value_append)
  qed
qed

lemma length_dec_le: "n < 10 ^ k \<Longrightarrow> 0 < k \<Longrightarrow> length (dec n) \<le> k"
proof (induction n arbitrary: k rule: dec.induct)
  case (1 n)
  show ?case
  proof (cases "n < 10")
    case True
    with 1 show ?thesis by (subst dec.simps) simp
  next
    case False
    then obtain j where k: "k = Suc j" and j: "0 < j"
      using 1 by (cases k; cases "k - 1") auto
    then have "n div 10 < 10 ^ j" using 1 by (simp add: div_less_iff_less_mult mult.commute)
    then have "length (dec (n div 10)) \<le> j" using 1 False j by blast
    with False k show ?thesis by (subst dec.simps) simp
  qed
qed

lemma length_dec_u32: "length (dec (unat (x :: u32))) \<le> 10"
  by (rule length_dec_le, rule less_trans [OF unat_u32_less]) simp_all

lemma length_dec_u32': "n < 2 ^ 32 \<Longrightarrow> length (dec n) \<le> 10"
  by (rule length_dec_le) simp_all

section \<open>Lists\<close>

lemma drop_shorter [simp]: "n \<noteq> 0 \<Longrightarrow> xs \<noteq> [] \<Longrightarrow> length (drop n xs) < length xs"
  by (cases xs) auto

lemma takeWhile_append_stop:
  "\<forall>x \<in> set xs. P x \<Longrightarrow> ys = [] \<or> \<not> P (hd ys) \<Longrightarrow> takeWhile P (xs @ ys) = xs"
  by (induction xs) (auto simp: takeWhile_eq_Nil_iff)

end
