(* ===== verification/J2534.thy ===== *)
theory J2534
  imports Prelude
begin

text \<open>
  The public interface (include/j2534/j2534.h): return codes, ids and status bits, the
  message structure; the driver's internal status (src/op_transport.h), its translation to a
  return code (\<open>op_status_to_j2534\<close>, src/op_device.c), and the last-error text
  (src/op_error.c). A return code is the C \<open>long\<close>, an integer here.
\<close>

section \<open>Constants of j2534.h\<close>

definition STATUS_NOERROR :: int where [simp]: "STATUS_NOERROR = 0x00"
definition ERR_NOT_SUPPORTED :: int where [simp]: "ERR_NOT_SUPPORTED = 0x01"
definition ERR_INVALID_CHANNEL_ID :: int where [simp]: "ERR_INVALID_CHANNEL_ID = 0x02"
definition ERR_INVALID_PROTOCOL_ID :: int where [simp]: "ERR_INVALID_PROTOCOL_ID = 0x03"
definition ERR_NULL_PARAMETER :: int where [simp]: "ERR_NULL_PARAMETER = 0x04"
definition ERR_INVALID_IOCTL_VALUE :: int where [simp]: "ERR_INVALID_IOCTL_VALUE = 0x05"
definition ERR_INVALID_FLAGS :: int where [simp]: "ERR_INVALID_FLAGS = 0x06"
definition ERR_FAILED :: int where [simp]: "ERR_FAILED = 0x07"
definition ERR_DEVICE_NOT_CONNECTED :: int where [simp]: "ERR_DEVICE_NOT_CONNECTED = 0x08"
definition ERR_TIMEOUT :: int where [simp]: "ERR_TIMEOUT = 0x09"
definition ERR_INVALID_MSG :: int where [simp]: "ERR_INVALID_MSG = 0x0A"
definition ERR_INVALID_TIME_INTERVAL :: int where [simp]: "ERR_INVALID_TIME_INTERVAL = 0x0B"
definition ERR_EXCEEDED_LIMIT :: int where [simp]: "ERR_EXCEEDED_LIMIT = 0x0C"
definition ERR_INVALID_MSG_ID :: int where [simp]: "ERR_INVALID_MSG_ID = 0x0D"
definition ERR_DEVICE_IN_USE :: int where [simp]: "ERR_DEVICE_IN_USE = 0x0E"
definition ERR_INVALID_IOCTL_ID :: int where [simp]: "ERR_INVALID_IOCTL_ID = 0x0F"
definition ERR_BUFFER_EMPTY :: int where [simp]: "ERR_BUFFER_EMPTY = 0x10"
definition ERR_BUFFER_FULL :: int where [simp]: "ERR_BUFFER_FULL = 0x11"
definition ERR_BUFFER_OVERFLOW :: int where [simp]: "ERR_BUFFER_OVERFLOW = 0x12"
definition ERR_PIN_INVALID :: int where [simp]: "ERR_PIN_INVALID = 0x13"
definition ERR_CHANNEL_IN_USE :: int where [simp]: "ERR_CHANNEL_IN_USE = 0x14"
definition ERR_MSG_PROTOCOL_ID :: int where [simp]: "ERR_MSG_PROTOCOL_ID = 0x15"
definition ERR_INVALID_FILTER_ID :: int where [simp]: "ERR_INVALID_FILTER_ID = 0x16"
definition ERR_NO_FLOW_CONTROL :: int where [simp]: "ERR_NO_FLOW_CONTROL = 0x17"
definition ERR_NOT_UNIQUE :: int where [simp]: "ERR_NOT_UNIQUE = 0x18"
definition ERR_INVALID_BAUDRATE :: int where [simp]: "ERR_INVALID_BAUDRATE = 0x19"
definition ERR_INVALID_DEVICE_ID :: int where [simp]: "ERR_INVALID_DEVICE_ID = 0x1A"
definition ERR_INIT_FAILED :: int where [simp]: "ERR_INIT_FAILED = 0x21"
definition ERR_J2534_HIGHEST :: int where [simp]: "ERR_J2534_HIGHEST = 0x27"
definition ERR_OEM_VOLTAGE_TOO_HIGH :: int where [simp]: "ERR_OEM_VOLTAGE_TOO_HIGH = 0x77"
definition ERR_OEM_VOLTAGE_TOO_LOW :: int where [simp]: "ERR_OEM_VOLTAGE_TOO_LOW = 0x78"

text \<open>Protocol ids, IOCTL ids, flag and status bits (\<open>J_U32\<close>, 64 bits on the platforms the driver runs on).\<close>

definition ISO9141 :: u64 where [simp]: "ISO9141 = 3"
definition ISO14230 :: u64 where [simp]: "ISO14230 = 4"
definition CAN :: u64 where [simp]: "CAN = 5"
definition ISO15765 :: u64 where [simp]: "ISO15765 = 6"
definition GET_CONFIG :: u64 where [simp]: "GET_CONFIG = 0x01"
definition SET_CONFIG :: u64 where [simp]: "SET_CONFIG = 0x02"
definition READ_VBATT :: u64 where [simp]: "READ_VBATT = 0x03"
definition FIVE_BAUD_INIT :: u64 where [simp]: "FIVE_BAUD_INIT = 0x04"
definition FAST_INIT :: u64 where [simp]: "FAST_INIT = 0x05"
definition CLEAR_TX_BUFFER :: u64 where [simp]: "CLEAR_TX_BUFFER = 0x07"
definition CLEAR_RX_BUFFER :: u64 where [simp]: "CLEAR_RX_BUFFER = 0x08"
definition CLEAR_PERIODIC_MSGS :: u64 where [simp]: "CLEAR_PERIODIC_MSGS = 0x09"
definition CLEAR_MSG_FILTERS :: u64 where [simp]: "CLEAR_MSG_FILTERS = 0x0A"
definition CLEAR_FUNCT_MSG_LOOKUP_TABLE :: u64 where [simp]: "CLEAR_FUNCT_MSG_LOOKUP_TABLE = 0x0B"
definition ADD_TO_FUNCT_MSG_LOOKUP_TABLE :: u64 where [simp]: "ADD_TO_FUNCT_MSG_LOOKUP_TABLE = 0x0C"
definition DELETE_FROM_FUNCT_MSG_LOOKUP_TABLE :: u64 where [simp]: "DELETE_FROM_FUNCT_MSG_LOOKUP_TABLE = 0x0D"
definition READ_PROG_VOLTAGE :: u64 where [simp]: "READ_PROG_VOLTAGE = 0x0E"
definition CAN_29BIT_ID :: u64 where [simp]: "CAN_29BIT_ID = 0x00000100"
definition TX_MSG_TYPE :: u64 where [simp]: "TX_MSG_TYPE = 0x00000001"
definition ISO15765_FIRST_FRAME :: u64 where [simp]: "ISO15765_FIRST_FRAME = 0x00000002"
definition TX_DONE :: u64 where [simp]: "TX_DONE = 0x00000008"
definition ISO15765_ADDR_TYPE :: u64 where [simp]: "ISO15765_ADDR_TYPE = 0x00000080"
definition CAN_CH1 :: u64 where [simp]: "CAN_CH1 = 0x00009000"
definition ISO9141_CH1 :: u64 where [simp]: "ISO9141_CH1 = 0x00009240"
definition ISO9141_CH2 :: u64 where [simp]: "ISO9141_CH2 = 0x00009241"
definition ISO9141_CH3 :: u64 where [simp]: "ISO9141_CH3 = 0x00009242"
definition ISO14230_CH1 :: u64 where [simp]: "ISO14230_CH1 = 0x00009320"
definition ISO14230_CH2 :: u64 where [simp]: "ISO14230_CH2 = 0x00009321"
definition ISO15765_CH1 :: u64 where [simp]: "ISO15765_CH1 = 0x00009400"
definition VOLTAGE_OFF :: u64 where [simp]: "VOLTAGE_OFF = 0xFFFFFFFF"
definition SHORT_TO_GROUND :: u64 where [simp]: "SHORT_TO_GROUND = 0xFFFFFFFE"

definition J2534_MSG_DATA_MAX :: nat where [simp]: "J2534_MSG_DATA_MAX = 4128"

section \<open>The message structure\<close>

text \<open>
  \<open>Data\<close> is the 4128-byte array; \<open>DataSize\<close> says how much of it is the message.
\<close>

record PASSTHRU_MSG =
  ProtocolID :: u64
  RxStatus :: u64
  TxFlags :: u64
  Timestamp :: u64
  DataSize :: u64
  ExtraDataIndex :: u64
  Data :: mem

text \<open>\<open>memset(&m, 0, sizeof m)\<close>.\<close>

definition msg0 :: PASSTHRU_MSG where
  "msg0 = \<lparr>ProtocolID = 0, RxStatus = 0, TxFlags = 0, Timestamp = 0, DataSize = 0,
           ExtraDataIndex = 0, Data = (\<lambda>_. 0)\<rparr>"

lemma msg0_sel [simp]:
  "ProtocolID msg0 = 0" "RxStatus msg0 = 0" "TxFlags msg0 = 0" "Timestamp msg0 = 0"
  "DataSize msg0 = 0" "ExtraDataIndex msg0 = 0" "Data msg0 = (\<lambda>_. 0)"
  by (simp_all add: msg0_def)

definition msg_size :: "PASSTHRU_MSG \<Rightarrow> nat" where
  "msg_size m = unat (DataSize m)"

definition msg_bytes :: "PASSTHRU_MSG \<Rightarrow> u8 list" where
  "msg_bytes m = mem_read (Data m) 0 (msg_size m)"

lemma length_msg_bytes [simp]: "length (msg_bytes m) = msg_size m"
  by (simp add: msg_bytes_def)

section \<open>Driver status\<close>

datatype op_status =
    OP_OK
  | OP_ERR_TIMEOUT
  | OP_ERR_IO
  | OP_ERR_NO_DEVICE
  | OP_ERR_ACCESS
  | OP_ERR_MASS_STORAGE
  | OP_ERR_PARAM
  | OP_ERR_OVERFLOW
  | OP_ERR_PROTOCOL
  | OP_ERR_STALLED

fun op_status_to_j2534 :: "op_status \<Rightarrow> int" where
  "op_status_to_j2534 OP_OK = STATUS_NOERROR"
| "op_status_to_j2534 OP_ERR_TIMEOUT = ERR_TIMEOUT"
| "op_status_to_j2534 OP_ERR_NO_DEVICE = ERR_DEVICE_NOT_CONNECTED"
| "op_status_to_j2534 OP_ERR_MASS_STORAGE = ERR_DEVICE_NOT_CONNECTED"
| "op_status_to_j2534 OP_ERR_ACCESS = ERR_DEVICE_IN_USE"
| "op_status_to_j2534 OP_ERR_PARAM = ERR_NULL_PARAMETER"
| "op_status_to_j2534 OP_ERR_OVERFLOW = ERR_BUFFER_OVERFLOW"
| "op_status_to_j2534 OP_ERR_IO = ERR_FAILED"
| "op_status_to_j2534 OP_ERR_PROTOCOL = ERR_FAILED"
| "op_status_to_j2534 OP_ERR_STALLED = ERR_DEVICE_NOT_CONNECTED"

lemma op_status_to_j2534_0 [simp]: "op_status_to_j2534 st = 0 \<longleftrightarrow> st = OP_OK"
  by (cases st) simp_all

section \<open>Last-error text\<close>

text \<open>
  \<open>g_text\<close> is a thread's own buffer of 80 bytes; the text kept is what \<open>vsnprintf\<close> leaves
  in it, at most 79 characters.
\<close>

definition OP_ERR_TEXT_MAX :: nat where [simp]: "OP_ERR_TEXT_MAX = 80"

definition op_err_clear :: string where
  "op_err_clear = []"

definition op_err_is_set :: "string \<Rightarrow> bool" where
  "op_err_is_set g_text \<longleftrightarrow> g_text \<noteq> []"

definition op_err_set :: "string \<Rightarrow> string" where
  "op_err_set s = take (OP_ERR_TEXT_MAX - 1) s"

definition op_err_get :: "string \<Rightarrow> string" where
  "op_err_get g_text = (if g_text \<noteq> [] then g_text else ''No error'')"

definition op_err_name :: "int \<Rightarrow> string" where
  "op_err_name code =
  (if code = STATUS_NOERROR then ''STATUS_NOERROR''
   else if code = ERR_NOT_SUPPORTED then ''ERR_NOT_SUPPORTED''
   else if code = ERR_INVALID_CHANNEL_ID then ''ERR_INVALID_CHANNEL_ID''
   else if code = ERR_INVALID_PROTOCOL_ID then ''ERR_INVALID_PROTOCOL_ID''
   else if code = ERR_NULL_PARAMETER then ''ERR_NULL_PARAMETER''
   else if code = ERR_INVALID_IOCTL_VALUE then ''ERR_INVALID_IOCTL_VALUE''
   else if code = ERR_INVALID_FLAGS then ''ERR_INVALID_FLAGS''
   else if code = ERR_FAILED then ''ERR_FAILED''
   else if code = ERR_DEVICE_NOT_CONNECTED then ''ERR_DEVICE_NOT_CONNECTED''
   else if code = ERR_TIMEOUT then ''ERR_TIMEOUT''
   else if code = ERR_INVALID_MSG then ''ERR_INVALID_MSG''
   else if code = ERR_INVALID_TIME_INTERVAL then ''ERR_INVALID_TIME_INTERVAL''
   else if code = ERR_EXCEEDED_LIMIT then ''ERR_EXCEEDED_LIMIT''
   else if code = ERR_INVALID_MSG_ID then ''ERR_INVALID_MSG_ID''
   else if code = ERR_DEVICE_IN_USE then ''ERR_DEVICE_IN_USE''
   else if code = ERR_INVALID_IOCTL_ID then ''ERR_INVALID_IOCTL_ID''
   else if code = ERR_BUFFER_EMPTY then ''ERR_BUFFER_EMPTY''
   else if code = ERR_BUFFER_FULL then ''ERR_BUFFER_FULL''
   else if code = ERR_BUFFER_OVERFLOW then ''ERR_BUFFER_OVERFLOW''
   else if code = ERR_PIN_INVALID then ''ERR_PIN_INVALID''
   else if code = ERR_CHANNEL_IN_USE then ''ERR_CHANNEL_IN_USE''
   else if code = ERR_MSG_PROTOCOL_ID then ''ERR_MSG_PROTOCOL_ID''
   else if code = ERR_INVALID_FILTER_ID then ''ERR_INVALID_FILTER_ID''
   else if code = ERR_NO_FLOW_CONTROL then ''ERR_NO_FLOW_CONTROL''
   else if code = ERR_NOT_UNIQUE then ''ERR_NOT_UNIQUE''
   else if code = ERR_INVALID_BAUDRATE then ''ERR_INVALID_BAUDRATE''
   else if code = ERR_INVALID_DEVICE_ID then ''ERR_INVALID_DEVICE_ID''
   else if code = ERR_INIT_FAILED then ''ERR_INIT_FAILED''
   else if code = ERR_OEM_VOLTAGE_TOO_HIGH then ''ERR_OEM_VOLTAGE_TOO_HIGH''
   else if code = ERR_OEM_VOLTAGE_TOO_LOW then ''ERR_OEM_VOLTAGE_TOO_LOW''
   else ''ERR_UNKNOWN'')"

end
