(* ===== verification/Proto_Parse.thy ===== *)
theory Proto_Parse
  imports Prelude
begin

text \<open>
  The reply half of the wire codec (src/op_proto.c): number and tail scanning, the ASCII reply
  grammar, binary frames, \<open>op_parse\<close>, resynchronisation and the version text.

  A buffer \<open>[buf, buf + len)\<close> is the list of its \<open>len\<close> bytes, so a read past \<open>buf + len\<close>
  has no model; a pointer into the buffer that the code stores in an \<open>op_reply\<close> together with
  a length is the list of bytes it designates, \<open>None\<close> for \<open>NULL\<close>.
\<close>

unbundle bit_operations_syntax

section \<open>Replies\<close>

datatype op_reply_kind =
    OP_REPLY_INCOMPLETE
  | OP_REPLY_OK
  | OP_REPLY_ERROR
  | OP_REPLY_INFO
  | OP_REPLY_PIN
  | OP_REPLY_FILTER
  | OP_REPLY_CONFIG
  | OP_REPLY_FRAME
  | OP_REPLY_INIT
  | OP_REPLY_PERIODIC
  | OP_REPLY_JUNK

text \<open>\<open>ntail\<close> is the length of \<open>r_tail\<close>, \<open>text_len\<close> and \<open>data_len\<close> those of the bytes.\<close>

record op_reply =
  r_kind :: op_reply_kind
  r_error_code :: u32
  r_has_detail :: bool
  r_detail :: u32
  r_a :: u32
  r_b :: u32
  r_tail :: "u32 list"
  r_text :: "u8 list option"
  r_channel :: u32
  r_status :: u8
  r_timestamp_us :: u32
  r_data :: "u8 list option"

definition r_ntail :: "op_reply \<Rightarrow> nat" where
  "r_ntail r = length (r_tail r)"

definition r_data_len :: "op_reply \<Rightarrow> nat" where
  "r_data_len r = (case r_data r of None \<Rightarrow> 0 | Some d \<Rightarrow> length d)"

text \<open>\<open>memset(out, 0, sizeof *out)\<close> followed by the assignment of the kind.\<close>

definition reply0 :: "op_reply_kind \<Rightarrow> op_reply" where
  "reply0 k = \<lparr>r_kind = k, r_error_code = 0, r_has_detail = False, r_detail = 0, r_a = 0,
     r_b = 0, r_tail = [], r_text = None, r_channel = 0, r_status = 0, r_timestamp_us = 0,
     r_data = None\<rparr>"

lemma reply0_sel [simp]:
  "r_kind (reply0 k) = k" "r_tail (reply0 k) = []" "r_text (reply0 k) = None"
  "r_data (reply0 k) = None" "r_channel (reply0 k) = 0" "r_a (reply0 k) = 0"
  "r_b (reply0 k) = 0" "r_error_code (reply0 k) = 0"
  by (simp_all add: reply0_def)

section \<open>Numbers and spaces\<close>

definition op_rd_be32 :: "u8 list \<Rightarrow> u32" where
  "op_rd_be32 p = push_bit 24 (ucast (p ! 0)) OR push_bit 16 (ucast (p ! 1)) OR
                  push_bit 8 (ucast (p ! 2)) OR ucast (p ! 3)"

text \<open>The loop of \<open>parse_u32\<close>: the index \<open>i\<close> and the saturating 64-bit accumulator.\<close>

fun parse_u32_loop :: "u8 list \<Rightarrow> nat \<Rightarrow> u64 \<Rightarrow> nat \<times> u64" where
  "parse_u32_loop [] i v = (i, v)"
| "parse_u32_loop (c # cs) i v =
     (if is_digit c then
        let v' = v * 10 + ucast (c - 48)
        in parse_u32_loop cs (Suc i) (if v' > 0xFFFFFFFF then 0xFFFFFFFF else v')
      else (i, v))"

text \<open>\<open>None\<close> is a return of 0, which leaves \<open>*out\<close> alone.\<close>

definition parse_u32 :: "u8 list \<Rightarrow> (nat \<times> u32) option" where
  "parse_u32 s = (case parse_u32_loop s 0 0 of (i, v) \<Rightarrow> if i = 0 then None else Some (i, ucast v))"

fun skip_spaces :: "u8 list \<Rightarrow> nat" where
  "skip_spaces [] = 0"
| "skip_spaces (c # cs) = (if c = 32 then Suc (skip_spaces cs) else 0)"

lemma parse_u32_loop_ge: "i \<le> fst (parse_u32_loop s i v)"
  by (induction s i v rule: parse_u32_loop.induct) (auto simp: Let_def)

lemma parse_u32_loop_le: "fst (parse_u32_loop s i v) \<le> i + length s"
  by (induction s i v rule: parse_u32_loop.induct) (auto simp: Let_def)

lemma parse_u32_got:
  "parse_u32 s = Some (got, v) \<Longrightarrow> 0 < got \<and> got \<le> length s"
  using parse_u32_loop_le [of s 0 0] by (auto simp: parse_u32_def split: prod.splits if_splits)

lemma skip_spaces_le: "skip_spaces s \<le> length s"
  by (induction s) auto

section \<open>Reply tails and ASCII replies\<close>

text \<open>
  \<open>parse_tail\<close>: from index \<open>i\<close>, here the list that starts there. At most eight tokens are
  stored; the scan goes on past them.
\<close>

function parse_tail_loop :: "u8 list \<Rightarrow> u32 list \<Rightarrow> u32 list" where
  "parse_tail_loop s acc =
     (let s' = drop (skip_spaces s) s in
      if s' = [] then acc
      else (case parse_u32 s' of
              None \<Rightarrow> acc
            | Some (got, v) \<Rightarrow>
                parse_tail_loop (drop got s') (if length acc < 8 then acc @ [v] else acc)))"
  by pat_completeness auto
termination
proof (relation "measure (\<lambda>(s, acc). length s)", goal_cases)
  case (2 s acc s' x got v)
  then show ?case
    using parse_u32_got [of s' got v] by auto
qed simp

declare parse_tail_loop.simps [simp del]

definition parse_tail :: "u8 list \<Rightarrow> u32 list" where
  "parse_tail s = parse_tail_loop s []"

text \<open>
  The pattern every numeric reply repeats: a number at the current index, and the index moved
  past it; \<open>None\<close> where the code returns early and leaves the reply as junk.
\<close>

definition take_u32 :: "u8 list \<Rightarrow> (u32 \<times> u8 list) option" where
  "take_u32 s = (case parse_u32 s of None \<Rightarrow> None | Some (got, v) \<Rightarrow> Some (v, drop got s))"

definition after_spaces :: "u8 list \<Rightarrow> u8 list" where
  "after_spaces s = drop (skip_spaces s) s"

definition parse_ascii :: "u8 list \<Rightarrow> op_reply" where
  "parse_ascii body =
    (case body of
       [] \<Rightarrow> reply0 OP_REPLY_JUNK
     | verb # s \<Rightarrow>
       if verb = of_char CHR ''o'' then
         (reply0 OP_REPLY_OK)\<lparr>r_tail := parse_tail s\<rparr>
       else if verb = of_char CHR ''e'' then
         (case take_u32 (after_spaces s) of
            None \<Rightarrow> reply0 OP_REPLY_JUNK
          | Some (code, s) \<Rightarrow>
              let tl = parse_tail s; has = (1 \<le> length tl)
              in (reply0 OP_REPLY_ERROR)\<lparr>r_error_code := code, r_tail := tl,
                   r_has_detail := has, r_detail := (if has then tl ! 0 else 0)\<rparr>)
       else if verb = of_char CHR ''i'' then
         (reply0 OP_REPLY_INFO)\<lparr>r_text := Some (after_spaces s)\<rparr>
       else if verb = of_char CHR ''r'' then
         (case take_u32 (after_spaces s) of
            None \<Rightarrow> reply0 OP_REPLY_JUNK
          | Some (pin, s) \<Rightarrow>
             (case take_u32 (after_spaces s) of
                None \<Rightarrow> reply0 OP_REPLY_JUNK
              | Some (mv, s) \<Rightarrow>
                  (reply0 OP_REPLY_PIN)\<lparr>r_a := pin, r_b := mv, r_tail := parse_tail s\<rparr>))
       else if verb = of_char CHR ''m'' then
         (case take_u32 s of
            None \<Rightarrow> reply0 OP_REPLY_JUNK
          | Some (ch, s) \<Rightarrow>
             (case take_u32 (after_spaces s) of
                None \<Rightarrow> reply0 OP_REPLY_JUNK
              | Some (mid, s) \<Rightarrow>
                  (reply0 OP_REPLY_PERIODIC)\<lparr>r_channel := ch, r_a := mid, r_tail := parse_tail s\<rparr>))
       else if verb = of_char CHR ''f'' then
         (case take_u32 s of
            None \<Rightarrow> reply0 OP_REPLY_JUNK
          | Some (ch, s) \<Rightarrow>
             (case take_u32 (after_spaces s) of
                None \<Rightarrow> reply0 OP_REPLY_JUNK
              | Some (mid, s) \<Rightarrow>
                  (reply0 OP_REPLY_FILTER)\<lparr>r_channel := ch, r_a := mid, r_tail := parse_tail s\<rparr>))
       else if verb = of_char CHR ''g'' then
         (case take_u32 s of
            None \<Rightarrow> reply0 OP_REPLY_JUNK
          | Some (ch, s) \<Rightarrow>
             (case take_u32 (after_spaces s) of
                None \<Rightarrow> reply0 OP_REPLY_JUNK
              | Some (param, s) \<Rightarrow>
                 (case take_u32 (after_spaces s) of
                    None \<Rightarrow> reply0 OP_REPLY_JUNK
                  | Some (value, s) \<Rightarrow>
                      (reply0 OP_REPLY_CONFIG)\<lparr>r_channel := ch, r_a := param, r_b := value,
                         r_tail := parse_tail s\<rparr>)))
       else if verb = of_char CHR ''y'' then
         (case take_u32 s of
            None \<Rightarrow> reply0 OP_REPLY_JUNK
          | Some (ch, s) \<Rightarrow>
             (case take_u32 (after_spaces s) of
                None \<Rightarrow> reply0 OP_REPLY_JUNK
              | Some (count, s) \<Rightarrow>
                  if count > 255 then reply0 OP_REPLY_JUNK
                  else (reply0 OP_REPLY_INIT)\<lparr>r_channel := ch, r_a := count,
                         r_tail := parse_tail s\<rparr>))
       else if verb = of_char CHR ''w'' then
         (case take_u32 s of
            None \<Rightarrow> reply0 OP_REPLY_JUNK
          | Some (ch, s) \<Rightarrow>
              (reply0 OP_REPLY_INIT)\<lparr>r_channel := ch, r_tail := parse_tail s\<rparr>)
       else reply0 OP_REPLY_JUNK)"

section \<open>Frames and lines\<close>

definition OP_CMD_MAX :: nat where [simp]: "OP_CMD_MAX = 64"
definition OP_FRAME_MAX :: nat where [simp]: "OP_FRAME_MAX = 4 + 255"
definition OP_MSG_MAX :: nat where [simp]: "OP_MSG_MAX = 4128"

definition OP_STS_START :: u8 where [simp]: "OP_STS_START = 0x80"
definition OP_STS_END :: u8 where [simp]: "OP_STS_END = 0x40"
definition OP_STS_LOOPBACK :: u8 where [simp]: "OP_STS_LOOPBACK = 0x20"
definition OP_STS_TX_IND :: u8 where [simp]: "OP_STS_TX_IND = 0x10"
definition OP_STS_29BIT :: u8 where [simp]: "OP_STS_29BIT = 0x02"
definition OP_STS_EXT_ADDR :: u8 where [simp]: "OP_STS_EXT_ADDR = 0x04"

definition op_frame_has_timestamp :: "u32 \<Rightarrow> u8 \<Rightarrow> nat \<Rightarrow> bool" where
  "op_frame_has_timestamp channel status body_len =
     (if channel = 5 \<or> channel = 6 then 4 \<le> body_len
      else status AND (OP_STS_START OR OP_STS_END) \<noteq> 0 \<and> body_len = 4)"

text \<open>
  \<open>op_parse\<close>, the branch of a digit at index 2. \<open>buf\<close> starts with \<open>ar<digit>\<close>.
\<close>

definition parse_frame :: "u8 list \<Rightarrow> nat \<times> op_reply" where
  "parse_frame buf =
    (if length buf < 4 then (0, reply0 OP_REPLY_INCOMPLETE)
     else
       let frame_len = unat (buf ! 3); need = 4 + frame_len in
       if length buf < need then (0, reply0 OP_REPLY_INCOMPLETE)
       else if frame_len < 1 then (need, reply0 OP_REPLY_JUNK)
       else
         let status = buf ! 4;
             channel = ucast (buf ! 2 - 48);
             out = (reply0 OP_REPLY_FRAME)\<lparr>r_channel := channel, r_status := status\<rparr>
         in if op_frame_has_timestamp channel status (frame_len - 1) then
              (need, out\<lparr>r_timestamp_us := op_rd_be32 (drop 5 buf),
                         r_data := Some (take (frame_len - 5) (drop 9 buf))\<rparr>)
            else
              (need, out\<lparr>r_timestamp_us := 0,
                         r_data := Some (take (frame_len - 1) (drop 5 buf))\<rparr>))"

text \<open>The first CR LF at or after the start of the list, which stands at index \<open>i\<close>.\<close>

fun find_crlf :: "u8 list \<Rightarrow> nat \<Rightarrow> nat option" where
  "find_crlf (c # d # cs) i = (if c = 13 \<and> d = 10 then Some i else find_crlf (d # cs) (Suc i))"
| "find_crlf _ i = None"

definition parse_line :: "u8 list \<Rightarrow> nat \<times> op_reply" where
  "parse_line buf =
    (case find_crlf (drop 2 buf) 2 of
       Some i \<Rightarrow>
         let out = parse_ascii (take (i - 2) (drop 2 buf)) in
         if r_kind out = OP_REPLY_INIT \<and> buf ! 2 = of_char CHR ''y'' then
           let want = unat (r_a out) in
           if length buf < i + 2 + want then (0, reply0 OP_REPLY_INCOMPLETE)
           else (i + 2 + want, out\<lparr>r_data := Some (take want (drop (i + 2) buf))\<rparr>)
         else (i + 2, out)
     | None \<Rightarrow>
         if length buf > OP_CMD_MAX * 4 then (1, reply0 OP_REPLY_JUNK)
         else (0, reply0 OP_REPLY_INCOMPLETE))"

definition op_parse :: "u8 list \<Rightarrow> nat \<times> op_reply" where
  "op_parse buf =
    (if buf = [] then (0, reply0 OP_REPLY_INCOMPLETE)
     else if buf ! 0 \<noteq> of_char CHR ''a'' then (1, reply0 OP_REPLY_JUNK)
     else if length buf < 2 then (0, reply0 OP_REPLY_INCOMPLETE)
     else if buf ! 1 \<noteq> of_char CHR ''r'' then (1, reply0 OP_REPLY_JUNK)
     else if length buf < 3 then (0, reply0 OP_REPLY_INCOMPLETE)
     else if is_digit (buf ! 2) then parse_frame buf
     else parse_line buf)"

section \<open>Resynchronisation\<close>

definition reply_letter :: "u8 \<Rightarrow> bool" where
  "reply_letter c \<longleftrightarrow> is_digit c \<or> c \<in> set (ascii ''oeirfgywm'')"

text \<open>The scan from index \<open>i\<close>; the list is what starts there.\<close>

fun resync_from :: "u8 list \<Rightarrow> nat \<Rightarrow> nat option" where
  "resync_from (x # y # z # zs) i =
     (if x = of_char CHR ''a'' \<and> y = of_char CHR ''r'' \<and> reply_letter z then Some i
      else resync_from (y # z # zs) (Suc i))"
| "resync_from _ i = None"

definition op_resync_offset :: "u8 list \<Rightarrow> nat" where
  "op_resync_offset buf =
     (if length buf < 3 then length buf
      else case resync_from (drop 1 buf) 1 of Some i \<Rightarrow> i | None \<Rightarrow> length buf)"

section \<open>Filters and the version text\<close>

definition op_filter_msg_count :: "u32 \<Rightarrow> nat" where
  "op_filter_msg_count filter_type =
     (if filter_type = 1 then 2 else if filter_type = 2 then 2
      else if filter_type = 3 then 3 else 0)"

text \<open>The last ``: '' of the text: the index after it.\<close>

fun last_colon :: "u8 list \<Rightarrow> nat \<Rightarrow> nat option \<Rightarrow> nat option" where
  "last_colon (c # d # cs) i found =
     last_colon (d # cs) (Suc i) (if c = 58 \<and> d = 32 then Some (i + 2) else found)"
| "last_colon _ i found = found"

fun strip_end :: "u8 list \<Rightarrow> u8 list" where
  "strip_end rs = (case rs of [] \<Rightarrow> []
     | c # cs \<Rightarrow> if c = 13 \<or> c = 10 \<or> c = 32 then strip_end cs else c # cs)"

text \<open>
  Result: the return value and the string left in \<open>out\<close> (without its NUL). \<open>text\<close> is
  \<open>None\<close> for \<open>NULL\<close>.
\<close>

definition op_parse_version :: "u8 list option \<Rightarrow> nat \<Rightarrow> bool \<times> u8 list" where
  "op_parse_version text out_sz =
     (if out_sz = 0 then (False, [])
      else case text of None \<Rightarrow> (False, [])
      | Some t \<Rightarrow>
         (case last_colon t 0 None of
            None \<Rightarrow> (False, [])
          | Some start \<Rightarrow>
              let body = after_spaces (drop start t);
                  kept = rev (strip_end (rev body));
                  out = (if out_sz \<le> length kept then take (out_sz - 1) kept else kept)
              in (out \<noteq> [], out)))"

section \<open>Numbers: the scan is the saturated decimal value\<close>

lemma unat_of_nat_u64: "n < 2 ^ 64 \<Longrightarrow> unat (of_nat n :: u64) = n"
  by (simp add: unat_of_nat)

lemma sat_step:
  fixes v :: u64
  assumes "v \<le> 0xFFFFFFFF" and "d < 10"
  shows "unat (v * 10 + of_nat d) = unat v * 10 + d"
proof -
  have "unat v \<le> 0xFFFFFFFF" using assms(1) by (simp add: word_le_nat_alt)
  then have "unat v * 10 + d < 2 ^ 64" using assms(2) by simp
  then have "unat (of_nat (unat v * 10 + d) :: u64) = unat v * 10 + d"
    by (rule unat_of_nat_u64)
  then show ?thesis by simp
qed

lemma ucast_digit: "(ucast (c - 48 :: u8) :: u64) = of_nat (digit_val c)"
  by (simp add: digit_val_def)

text \<open>The value one step of the saturating accumulation computes, on natural numbers.\<close>

definition sat32 :: "nat \<Rightarrow> nat" where
  "sat32 n = min n 0xFFFFFFFF"

lemma sat32_step: "sat32 (sat32 n * 10 + d) = sat32 (n * 10 + d)"
  by (auto simp: sat32_def min_def)

lemma parse_u32_loop_eq:
  "parse_u32_loop s i (of_nat (sat32 n)) =
     (i + length (takeWhile is_digit s),
      of_nat (sat32 (foldl (\<lambda>v c. v * 10 + digit_val c) n (takeWhile is_digit s))))"
proof (induction s arbitrary: i n)
  case Nil
  then show ?case by simp
next
  case (Cons c cs)
  show ?case
  proof (cases "is_digit c")
    case True
    let ?v = "of_nat (sat32 n) :: u64" and ?d = "digit_val c"
    have small: "sat32 n < 2 ^ 64" by (simp add: sat32_def)
    have "unat (?v * 10 + of_nat ?d) = unat ?v * 10 + ?d"
      by (rule sat_step) (simp_all add: True digit_val_less word_le_nat_alt sat32_def unat_of_nat)
    then have v: "unat (?v * 10 + of_nat ?d) = sat32 n * 10 + ?d"
      using unat_of_nat_u64 [OF small] by simp
    have "(if ?v * 10 + of_nat ?d > 0xFFFFFFFF then 0xFFFFFFFF else ?v * 10 + of_nat ?d) =
            (of_nat (sat32 (sat32 n * 10 + ?d)) :: u64)"
      using v by (cases "sat32 n * 10 + ?d \<le> 0xFFFFFFFF")
        (auto simp: word_less_nat_alt sat32_def [of "sat32 n * 10 + ?d"])
    then show ?thesis
      using Cons.IH [of "Suc i" "n * 10 + ?d"] True by (simp add: Let_def ucast_digit sat32_step)
  qed simp
qed


lemma parse_u32_eq:
  "parse_u32 s =
     (let ds = takeWhile is_digit s in
      if ds = [] then None else Some (length ds, of_nat (min (dec_value ds) (2 ^ 32 - 1))))"
proof -
  have "parse_u32_loop s 0 0 =
      (length (takeWhile is_digit s), of_nat (sat32 (dec_value (takeWhile is_digit s))))"
    using parse_u32_loop_eq [of s 0 0] by (simp add: sat32_def dec_value_def)
  moreover have "(ucast (of_nat (sat32 n) :: u64) :: u32) = of_nat (min n (2 ^ 32 - 1))" for n
    by (simp add: sat32_def unsigned_of_nat take_bit_nat_eq_self)
  ultimately show ?thesis by (simp add: parse_u32_def Let_def)
qed

lemma parse_u32_dec:
  assumes "n < 2 ^ 32" and "rest = [] \<or> \<not> is_digit (hd rest)"
  shows "parse_u32 (dec n @ rest) = Some (length (dec n), of_nat n)"
proof -
  have "takeWhile is_digit (dec n @ rest) = dec n"
    using assms(2) by (intro takeWhile_append_stop) (auto dest: dec_digits)
  with assms(1) show ?thesis by (simp add: parse_u32_eq)
qed

lemma parse_u32_None: "s = [] \<or> \<not> is_digit (hd s) \<Longrightarrow> parse_u32 s = None"
  by (cases s) (auto simp: parse_u32_eq)

text \<open>A space, or the end of the body, ends a number.\<close>

definition num_end :: "u8 list \<Rightarrow> bool" where
  "num_end s \<longleftrightarrow> s = [] \<or> hd s = 32"

lemma num_end_Cons [simp]: "num_end [] " "num_end (32 # s)"
  by (simp_all add: num_end_def)

lemma num_end_stop: "num_end s \<Longrightarrow> s = [] \<or> \<not> is_digit (hd s)"
  by (auto simp: num_end_def is_digit_def)

lemma take_u32_dec [text_simps]:
  "num_end rest \<Longrightarrow> take_u32 (dec (unat (x::u32)) @ rest) = Some (x, rest)"
  using parse_u32_dec [of "unat x" rest] by (simp add: take_u32_def num_end_stop)

lemma after_spaces_space [text_simps]: "after_spaces (32 # s) = after_spaces s"
  by (simp add: after_spaces_def)

lemma hd_dec: "is_digit (hd (dec n))"
  using dec_digits [of "hd (dec n)" n] by simp

lemma after_spaces_dec [text_simps]: "after_spaces (dec n @ s) = dec n @ s"
proof -
  obtain c cs where "dec n = c # cs" by (cases "dec n") auto
  with hd_dec [of n] show ?thesis by (auto simp: after_spaces_def is_digit_def)
qed

text \<open>A list of numbers as the device appends them to a reply.\<close>

definition spaced :: "u32 list \<Rightarrow> u8 list" where
  "spaced vs = concat (map (\<lambda>v. 32 # dec (unat v)) vs)"

lemma spaced_simps [simp]:
  "spaced [] = []" "spaced (v # vs) = 32 # dec (unat v) @ spaced vs"
  by (simp_all add: spaced_def)

lemma num_end_spaced [simp]: "num_end (spaced vs)"
  by (cases vs) auto

lemma parse_tail_loop_spaced:
  "parse_tail_loop (spaced vs) acc = acc @ take (8 - length acc) vs"
proof (induction vs arbitrary: acc)
  case Nil
  show ?case by (subst parse_tail_loop.simps) simp
next
  case (Cons v vs)
  have "drop (skip_spaces (spaced (v # vs))) (spaced (v # vs)) = dec (unat v) @ spaced vs"
    using after_spaces_dec [of "unat v" "spaced vs"] by (simp add: after_spaces_def)
  moreover have "parse_u32 (dec (unat v) @ spaced vs) = Some (length (dec (unat v)), v)"
    using parse_u32_dec [of "unat v" "spaced vs"] by (simp add: num_end_stop)
  ultimately have "parse_tail_loop (spaced (v # vs)) acc =
      parse_tail_loop (spaced vs) (if length acc < 8 then acc @ [v] else acc)"
    by (subst parse_tail_loop.simps) (simp add: Let_def)
  then show ?case
    by (cases "length acc < 8") (auto simp: Cons.IH take_Cons')
qed

lemma parse_tail_spaced [text_simps]: "parse_tail (spaced vs) = take 8 vs"
  by (simp add: parse_tail_def parse_tail_loop_spaced)

section \<open>Consumption\<close>

lemma parse_ascii_kind [simp]:
  "r_kind (parse_ascii body) \<noteq> OP_REPLY_INCOMPLETE" "r_kind (parse_ascii body) \<noteq> OP_REPLY_FRAME"
  by (auto simp: parse_ascii_def Let_def split: list.splits option.splits prod.splits)

lemma find_crlf_bounds: "find_crlf s i = Some k \<Longrightarrow> i \<le> k \<and> k + 2 \<le> i + length s"
  by (induction s i rule: find_crlf.induct) (force split: if_splits)+

lemma find_crlf_append: "find_crlf s i = Some k \<Longrightarrow> find_crlf (s @ t) i = Some k"
  by (induction s i rule: find_crlf.induct) (auto split: if_splits)

lemma find_crlf_line:
  "13 \<notin> set s \<Longrightarrow> find_crlf (s @ 13 # 10 # t) i = Some (i + length s)"
proof (induction s arbitrary: i)
  case (Cons c s)
  then show ?case by (cases s) auto
qed simp

lemma parse_frame_le: "fst (parse_frame buf) \<le> length buf"
  by (auto simp: parse_frame_def Let_def)

lemma parse_line_le: "2 \<le> length buf \<Longrightarrow> fst (parse_line buf) \<le> length buf"
  using find_crlf_bounds [of "drop 2 buf" 2]
  by (auto simp: parse_line_def Let_def split: option.splits)

lemma op_parse_le: "fst (op_parse buf) \<le> length buf"
proof -
  have "buf \<noteq> [] \<Longrightarrow> Suc 0 \<le> length buf" by (cases buf) auto
  then show ?thesis
    using parse_frame_le [of buf] parse_line_le [of buf] by (auto simp: op_parse_def)
qed

lemma parse_frame_0: "fst (parse_frame buf) = 0 \<longleftrightarrow> r_kind (snd (parse_frame buf)) = OP_REPLY_INCOMPLETE"
  by (auto simp: parse_frame_def Let_def)

lemma parse_line_0: "fst (parse_line buf) = 0 \<longleftrightarrow> r_kind (snd (parse_line buf)) = OP_REPLY_INCOMPLETE"
  by (auto simp: parse_line_def Let_def split: option.splits)

lemma op_parse_0: "fst (op_parse buf) = 0 \<longleftrightarrow> r_kind (snd (op_parse buf)) = OP_REPLY_INCOMPLETE"
  by (auto simp: op_parse_def parse_frame_0 parse_line_0)

text \<open>\<open>op_parse\<close> never consumes more than the buffer holds, and it consumes nothing exactly
  when it reports the reply incomplete: a caller that advances by the result stays inside the
  buffer and always makes progress on anything else.\<close>

lemma op_parse_consumes:
  "fst (op_parse buf) \<le> length buf \<and>
   (fst (op_parse buf) = 0 \<longleftrightarrow> r_kind (snd (op_parse buf)) = OP_REPLY_INCOMPLETE)"
  by (simp add: op_parse_le op_parse_0)

section \<open>A decision is final\<close>

lemma take_drop_append [simp]:
  "k + n \<le> length xs \<Longrightarrow> take n (drop k (xs @ ys)) = take n (drop k xs)"
  by simp

lemma op_rd_be32_append: "k + 4 \<le> length xs \<Longrightarrow> op_rd_be32 (drop k (xs @ ys)) = op_rd_be32 (drop k xs)"
  by (auto simp: op_rd_be32_def nth_append)

lemma has_timestamp_4: "op_frame_has_timestamp ch st n \<Longrightarrow> 4 \<le> n"
  by (auto simp: op_frame_has_timestamp_def split: if_splits)

lemma parse_frame_append:
  assumes "fst (parse_frame buf) \<noteq> 0"
  shows "parse_frame (buf @ rest) = parse_frame buf"
proof -
  let ?n = "unat (buf ! 3)"
  from assms have len: "4 + ?n \<le> length buf" and l4: "4 \<le> length buf"
    by (auto simp: parse_frame_def Let_def split: if_splits)
  have n3: "(buf @ rest) ! 3 = buf ! 3" and n2: "(buf @ rest) ! 2 = buf ! 2"
    using l4 by (simp_all add: nth_append)
  show ?thesis
  proof (cases "?n < 1")
    case True
    with len l4 n3 show ?thesis by (simp add: parse_frame_def Let_def)
  next
    case False
    with len have n4: "(buf @ rest) ! 4 = buf ! 4" by (simp add: nth_append)
    let ?ts = "op_frame_has_timestamp (ucast (buf ! 2 - 48)) (buf ! 4) (?n - 1)"
    show ?thesis
    proof (cases ?ts)
      case True
      from has_timestamp_4 [OF True] False have "5 \<le> ?n" by simp
      then have "op_rd_be32 (drop 5 (buf @ rest)) = op_rd_be32 (drop 5 buf)"
        and "take (?n - 5) (drop 9 (buf @ rest)) = take (?n - 5) (drop 9 buf)"
        using len by (intro op_rd_be32_append take_drop_append; simp)+
      with True False len l4 n2 n3 n4 show ?thesis
        by (simp add: parse_frame_def Let_def del: take_append drop_append)
    next
      case nots: False
      have "take (?n - 1) (drop 5 (buf @ rest)) = take (?n - 1) (drop 5 buf)"
        using len False by (intro take_drop_append) simp
      with nots False len l4 n2 n3 n4 show ?thesis
        by (simp add: parse_frame_def Let_def del: take_append drop_append)
    qed
  qed
qed

lemma parse_line_append:
  assumes "3 \<le> length buf" and "fst (parse_line buf) \<noteq> 0"
    and "r_kind (snd (parse_line buf)) \<noteq> OP_REPLY_JUNK \<or> length buf \<le> 256"
  shows "parse_line (buf @ rest) = parse_line buf"
proof (cases "find_crlf (drop 2 buf) 2")
  case None
  with assms show ?thesis by (auto simp: parse_line_def split: if_splits)
next
  case (Some i)
  with assms(1) have "find_crlf (drop 2 (buf @ rest)) 2 = Some i"
    using find_crlf_append [of "drop 2 buf" 2 i rest] by simp
  moreover have "i + 2 \<le> length buf" "2 \<le> i"
    using find_crlf_bounds [OF Some] assms(1) by auto
  ultimately show ?thesis
    using assms Some by (auto simp: parse_line_def Let_def nth_append split: if_splits)
qed

lemma op_parse_append:
  assumes "fst (op_parse buf) \<noteq> 0"
    and "r_kind (snd (op_parse buf)) \<noteq> OP_REPLY_JUNK \<or> length buf \<le> 256"
  shows "op_parse (buf @ rest) = op_parse buf"
proof (cases "length buf < 3")
  case True
  then consider "length buf = 0" | "length buf = 1" | "length buf = 2" by linarith
  then show ?thesis
    using assms(1) by cases (auto simp: op_parse_def nth_append split: if_splits)
next
  case False
  then have "3 \<le> length buf" and "buf \<noteq> []" by auto
  then show ?thesis
    using assms parse_frame_append [of buf rest] parse_line_append [of buf rest]
    by (auto simp: op_parse_def nth_append split: if_splits)
qed

text \<open>What \<open>op_parse\<close> decides on a prefix of the stream it decides on every extension: bytes
  that arrive later never change a reply that was already complete. The exception, written as
  the hypothesis, is junk declared because 256 bytes held no line end.\<close>

lemma op_parse_final:
  assumes "fst (op_parse buf) \<noteq> 0"
    and "r_kind (snd (op_parse buf)) \<noteq> OP_REPLY_JUNK \<or> length buf \<le> 256"
  shows "op_parse (buf @ rest) = op_parse buf"
  using assms by (rule op_parse_append)

end
