(* ===== verification/Framing.thy ===== *)
theory Framing
  imports Main
begin

text \<open>
  The interface between a byte-stream parser and its reader: a parser that recognises whole
  records, takes nothing of an unfinished one and never changes its mind. A reader that keeps
  what the parser left and parses again on each arrival then sees the same records however the
  stream is cut into reads. Nothing here is specific to the cable; \<open>Proto_Reply\<close> interprets the
  locale on \<open>op_parse\<close>.
\<close>

section \<open>Parsing until nothing is taken\<close>

function drain :: "('b list \<Rightarrow> nat \<times> 'r) \<Rightarrow> 'b list \<Rightarrow> 'r list \<times> 'b list" where
  "drain parse s =
     (if s = [] \<or> fst (parse s) = 0 then ([], s)
      else (let (rs, rest) = drain parse (drop (fst (parse s)) s) in (snd (parse s) # rs, rest)))"
  by pat_completeness auto
termination
  by (relation "measure (\<lambda>(parse, s). length s)") auto

declare drain.simps [simp del]

fun feed :: "('b list \<Rightarrow> nat \<times> 'r) \<Rightarrow> 'b list \<Rightarrow> 'b list list \<Rightarrow> 'r list \<times> 'b list" where
  "feed parse buf [] = ([], buf)"
| "feed parse buf (c # cs) =
     (let (rs, rest) = drain parse (buf @ c); (rs', rest') = feed parse rest cs
      in (rs @ rs', rest'))"

section \<open>The interface\<close>

locale framing =
  fixes parse :: "'b list \<Rightarrow> nat \<times> 'r"
    and whole :: "'b list \<Rightarrow> 'r \<Rightarrow> bool"
  assumes whole_not_Nil: "whole b r \<Longrightarrow> b \<noteq> []"
    and parse_whole: "whole b r \<Longrightarrow> parse (b @ rest) = (length b, r)"
    and parse_part: "whole (p @ q) r \<Longrightarrow> q \<noteq> [] \<Longrightarrow> fst (parse p) = 0"
begin

lemma drain_part: "p = [] \<or> (\<exists>q r. q \<noteq> [] \<and> whole (p @ q) r) \<Longrightarrow> drain parse p = ([], p)"
  by (subst drain.simps) (auto dest: parse_part)

lemma drain_wholes:
  assumes "list_all2 whole bs rs" and "p = [] \<or> (\<exists>q r. q \<noteq> [] \<and> whole (p @ q) r)"
  shows "drain parse (concat bs @ p) = (rs, p)"
  using assms(1)
proof (induction bs rs rule: list_all2_induct)
  case Nil
  then show ?case using drain_part [OF assms(2)] by simp
next
  case (Cons b bs r rs)
  then show ?case
    using whole_not_Nil [of b r] parse_whole [of b r "concat bs @ p"]
    by (subst drain.simps) simp
qed

text \<open>A prefix of a stream of whole records is some of the records and part of the next.\<close>

lemma prefix_of_wholes:
  assumes "list_all2 whole bs rs" and "s @ t = concat bs"
  shows "\<exists>k p. k \<le> length bs \<and> s = concat (take k bs) @ p \<and> p @ t = concat (drop k bs) \<and>
           (p = [] \<or> (\<exists>q r. q \<noteq> [] \<and> whole (p @ q) r))"
  using assms
proof (induction bs rs arbitrary: s rule: list_all2_induct)
  case Nil
  then show ?case by auto
next
  case (Cons b bs r rs)
  show ?case
  proof (cases "length b \<le> length s")
    case True
    then obtain s' where s: "s = b @ s'"
      using Cons.prems by (auto simp: append_eq_append_conv2)
    with Cons.prems have "s' @ t = concat bs" by simp
    from Cons.IH [OF this] obtain k p where "k \<le> length bs" "s' = concat (take k bs) @ p"
      "p @ t = concat (drop k bs)" "p = [] \<or> (\<exists>q r. q \<noteq> [] \<and> whole (p @ q) r)" by blast
    then show ?thesis using s by (intro exI [of _ "Suc k"] exI [of _ p]) auto
  next
    case False
    then obtain q where q: "b = s @ q" "q \<noteq> []"
      using Cons.prems by (auto simp: append_eq_append_conv2)
    then show ?thesis
      using Cons.hyps(1) Cons.prems by (intro exI [of _ 0] exI [of _ s]) auto
  qed
qed

lemma feed_wholes:
  assumes "list_all2 whole bs rs" and "buf @ concat cs = concat bs"
    and "buf = [] \<or> (\<exists>q r. q \<noteq> [] \<and> whole (buf @ q) r)"
  shows "feed parse buf cs = (rs, [])"
  using assms
proof (induction cs arbitrary: bs rs buf)
  case Nil
  then have "drain parse (concat bs @ []) = (rs, [])" by (intro drain_wholes) auto
  moreover have "drain parse buf = ([], buf)" by (rule drain_part [OF Nil(3)])
  ultimately show ?case using Nil by simp
next
  case (Cons c cs)
  from Cons.prems(2) have "(buf @ c) @ concat cs = concat bs" by simp
  from prefix_of_wholes [OF Cons.prems(1) this] obtain k p where
    k: "k \<le> length bs" "buf @ c = concat (take k bs) @ p" and rest: "p @ concat cs = concat (drop k bs)"
    and p: "p = [] \<or> (\<exists>q r. q \<noteq> [] \<and> whole (p @ q) r)" by blast
  have now: "drain parse (buf @ c) = (take k rs, p)"
    unfolding k(2) using Cons.prems(1) p by (intro drain_wholes list_all2_takeI)
  have "feed parse p cs = (drop k rs, [])"
    using rest p by (rule Cons.IH [OF list_all2_dropI [OF Cons.prems(1)]])
  with now show ?case by simp
qed

lemma feed_stream:
  assumes "list_all2 whole bs rs" and "concat cs = concat bs"
  shows "feed parse [] cs = (rs, [])"
  using feed_wholes [OF assms(1), of "[]" cs] assms(2) by simp

end

end
