(* ===== verification/Proto_Reply.thy ===== *)
theory Proto_Reply
  imports Proto_Parse Framing
begin

text \<open>
  What the codec promises about a whole stream: the device's message grammar as a datatype, its
  rendering to bytes and the reply each message must parse to, the round trip between them, the
  resynchronisation scan and the version text (src/op_proto.c). The last section interprets the
  interface \<open>framing\<close> on \<open>op_parse\<close>.
\<close>

section \<open>The device's grammar, and the round trip\<close>

text \<open>
  What the device sends (the format of op_proto.h, the verbs of \<open>parse_ascii\<close>): \<open>render\<close> is
  the byte string of each message, \<open>meaning\<close> the reply the host must read out of it.
\<close>

datatype dev_msg =
    D_Ok "u32 list"
  | D_Error u32 "u32 list"
  | D_Info "u8 list"
  | D_Pin u32 u32 "u32 list"
  | D_Periodic u32 u32 "u32 list"
  | D_Filter u32 u32 "u32 list"
  | D_Config u32 u32 u32 "u32 list"
  | D_Keys u32 "u32 list"
  | D_Raw u32 "u8 list" "u32 list"
  | D_Stamped nat u8 u32 "u8 list"
  | D_Plain nat u8 "u8 list"

definition be32 :: "u32 \<Rightarrow> u8 list" where
  "be32 x = [ucast (drop_bit 24 x), ucast (drop_bit 16 x), ucast (drop_bit 8 x), ucast x]"

lemma op_rd_be32_be32: "op_rd_be32 (be32 x @ s) = x"
proof (rule bit_word_eqI)
  fix n
  assume "n < LENGTH(32)"
  then consider "24 \<le> n" "n < 32" | "16 \<le> n" "n < 24" | "8 \<le> n" "n < 16" | "n < 8"
    by fastforce
  then show "bit (op_rd_be32 (be32 x @ s)) n \<longleftrightarrow> bit x n"
    by cases (auto simp: op_rd_be32_def be32_def bit_simps)
qed

definition num :: "u32 \<Rightarrow> u8 list" where
  "num x = dec (unat x)"

definition frame_bytes :: "nat \<Rightarrow> u8 \<Rightarrow> u8 list \<Rightarrow> u8 list" where
  "frame_bytes ch st body = ascii ''ar'' @ [48 + of_nat ch, of_nat (Suc (length body)), st] @ body"

definition line_bytes :: "u8 list \<Rightarrow> u8 list" where
  "line_bytes body = ascii ''ar'' @ body @ [13, 10]"

fun render :: "dev_msg \<Rightarrow> u8 list" where
  "render (D_Ok vs) = line_bytes (ascii ''o'' @ spaced vs)"
| "render (D_Error code vs) = line_bytes (ascii ''e '' @ num code @ spaced vs)"
| "render (D_Info t) = line_bytes (ascii ''i '' @ t)"
| "render (D_Pin pin mv vs) = line_bytes (ascii ''r '' @ num pin @ 32 # num mv @ spaced vs)"
| "render (D_Periodic ch mid vs) = line_bytes (ascii ''m'' @ num ch @ 32 # num mid @ spaced vs)"
| "render (D_Filter ch fid vs) = line_bytes (ascii ''f'' @ num ch @ 32 # num fid @ spaced vs)"
| "render (D_Config ch p v vs) =
     line_bytes (ascii ''g'' @ num ch @ 32 # num p @ 32 # num v @ spaced vs)"
| "render (D_Keys ch vs) = line_bytes (ascii ''w'' @ num ch @ spaced vs)"
| "render (D_Raw ch raw vs) =
     line_bytes (ascii ''y'' @ num ch @ 32 # dec (length raw) @ spaced vs) @ raw"
| "render (D_Stamped ch st ts d) = frame_bytes ch st (be32 ts @ d)"
| "render (D_Plain ch st d) = frame_bytes ch st d"

fun meaning :: "dev_msg \<Rightarrow> op_reply" where
  "meaning (D_Ok vs) = (reply0 OP_REPLY_OK)\<lparr>r_tail := take 8 vs\<rparr>"
| "meaning (D_Error code vs) = (reply0 OP_REPLY_ERROR)\<lparr>r_error_code := code, r_tail := take 8 vs,
     r_has_detail := (vs \<noteq> []), r_detail := (if vs \<noteq> [] then hd vs else 0)\<rparr>"
| "meaning (D_Info t) = (reply0 OP_REPLY_INFO)\<lparr>r_text := Some t\<rparr>"
| "meaning (D_Pin pin mv vs) =
     (reply0 OP_REPLY_PIN)\<lparr>r_a := pin, r_b := mv, r_tail := take 8 vs\<rparr>"
| "meaning (D_Periodic ch mid vs) =
     (reply0 OP_REPLY_PERIODIC)\<lparr>r_channel := ch, r_a := mid, r_tail := take 8 vs\<rparr>"
| "meaning (D_Filter ch fid vs) =
     (reply0 OP_REPLY_FILTER)\<lparr>r_channel := ch, r_a := fid, r_tail := take 8 vs\<rparr>"
| "meaning (D_Config ch p v vs) =
     (reply0 OP_REPLY_CONFIG)\<lparr>r_channel := ch, r_a := p, r_b := v, r_tail := take 8 vs\<rparr>"
| "meaning (D_Keys ch vs) = (reply0 OP_REPLY_INIT)\<lparr>r_channel := ch, r_tail := take 8 vs\<rparr>"
| "meaning (D_Raw ch raw vs) = (reply0 OP_REPLY_INIT)\<lparr>r_channel := ch,
     r_a := of_nat (length raw), r_tail := take 8 vs, r_data := Some raw\<rparr>"
| "meaning (D_Stamped ch st ts d) = (reply0 OP_REPLY_FRAME)\<lparr>r_channel := of_nat ch,
     r_status := st, r_timestamp_us := ts, r_data := Some d\<rparr>"
| "meaning (D_Plain ch st d) = (reply0 OP_REPLY_FRAME)\<lparr>r_channel := of_nat ch,
     r_status := st, r_timestamp_us := 0, r_data := Some d\<rparr>"

text \<open>
  Which messages the grammar can carry: single-digit channels, one-byte lengths, a timestamp
  exactly where \<open>op_frame_has_timestamp\<close> says, version text without CR or leading space.
\<close>

fun dev_wf :: "dev_msg \<Rightarrow> bool" where
  "dev_wf (D_Info t) \<longleftrightarrow> 13 \<notin> set t \<and> (t = [] \<or> hd t \<noteq> 32)"
| "dev_wf (D_Raw ch raw vs) \<longleftrightarrow> length raw \<le> 255"
| "dev_wf (D_Stamped ch st ts d) \<longleftrightarrow> ch < 10 \<and> length d \<le> 250 \<and>
     (ch = 5 \<or> ch = 6 \<or> d = [] \<and> st AND (OP_STS_START OR OP_STS_END) \<noteq> 0)"
| "dev_wf (D_Plain ch st d) \<longleftrightarrow> ch < 10 \<and> length d \<le> 254 \<and>
     (if ch = 5 \<or> ch = 6 then length d < 4
      else length d \<noteq> 4 \<or> st AND (OP_STS_START OR OP_STS_END) = 0)"
| "dev_wf _ \<longleftrightarrow> True"

lemma dec_no_cr [simp]: "13 \<notin> set (dec n)"
  using dec_digits [of 13 n] by (auto simp: is_digit_def)

lemma spaced_no_cr [simp]: "13 \<notin> set (spaced vs)"
  by (induction vs) auto

lemma after_spaces_id: "t = [] \<or> hd t \<noteq> 32 \<Longrightarrow> after_spaces t = t"
  by (cases t) (auto simp: after_spaces_def)

lemma take_u32_num [text_simps]: "num_end rest \<Longrightarrow> take_u32 (num x @ rest) = Some (x, rest)"
  by (simp add: num_def take_u32_dec)

lemma after_spaces_num [text_simps]: "after_spaces (num x @ s) = num x @ s"
  by (simp add: num_def after_spaces_dec)

lemma num_no_cr [simp]: "13 \<notin> set (num x)"
  by (simp add: num_def)

lemma op_parse_line:
  assumes "13 \<notin> set (v # body)" and "\<not> is_digit v"
  shows "op_parse (line_bytes (v # body) @ rest) =
    (let out = parse_ascii (v # body) in
     if r_kind out = OP_REPLY_INIT \<and> v = of_char CHR ''y'' then
       let want = unat (r_a out) in
       if length rest < want then (0, reply0 OP_REPLY_INCOMPLETE)
       else (length body + 5 + want, out\<lparr>r_data := Some (take want rest)\<rparr>)
     else (length body + 5, out))"
proof -
  let ?buf = "97 # 114 # v # body @ 13 # 10 # rest"
  have crlf: "find_crlf (drop 2 ?buf) 2 = Some (3 + length body)"
    using find_crlf_line [of "v # body" rest 2] assms(1) by simp
  have buf: "line_bytes (v # body) @ rest = ?buf"
    by (simp add: line_bytes_def text_simps)
  have body: "take (3 + length body - 2) (drop 2 ?buf) = v # body"
    and tail: "drop (3 + length body + 2) ?buf = rest" and v: "?buf ! 2 = v"
    by (simp_all add: drop_Cons' del: drop_append) (simp add: drop_Cons')
  have "op_parse ?buf = parse_line ?buf"
    using assms(2) by (simp add: op_parse_def)
  then show ?thesis
    unfolding buf parse_line_def crlf option.case body tail v Let_def
    by (cases "v = 121"; cases "r_kind (parse_ascii (v # body)) = OP_REPLY_INIT") simp_all
qed


lemma render_line:
  assumes "13 \<notin> set (v # body)" and "\<not> is_digit v" and "v \<noteq> of_char CHR ''y''"
  shows "op_parse (line_bytes (v # body) @ rest) = (length (line_bytes (v # body)), parse_ascii (v # body))"
  using op_parse_line [OF assms(1,2), of rest] assms(3)
  by (simp add: Let_def line_bytes_def)

lemma render_raw:
  assumes "length raw \<le> 255"
  shows "op_parse (render (D_Raw ch raw vs) @ rest) = (length (render (D_Raw ch raw vs)), meaning (D_Raw ch raw vs))"
proof -
  let ?body = "num ch @ 32 # dec (length raw) @ spaced vs"
  have n: "unat (of_nat (length raw) :: u32) = length raw"
    using assms by (simp add: unat_of_nat)
  have "take_u32 (dec (length raw) @ spaced vs) = Some (of_nat (length raw), spaced vs)"
    using take_u32_dec [of "spaced vs" "of_nat (length raw)"] n by simp
  moreover have "after_spaces (32 # dec (length raw) @ spaced vs) = dec (length raw) @ spaced vs"
    by (simp add: text_simps)
  moreover have "\<not> (of_nat (length raw) :: u32) > 255"
    using assms n by (simp add: word_less_nat_alt)
  ultimately have p: "parse_ascii (of_char CHR ''y'' # ?body) = (reply0 OP_REPLY_INIT)\<lparr>r_channel := ch,
      r_a := of_nat (length raw), r_tail := take 8 vs\<rparr>"
    by (simp add: parse_ascii_def text_simps num_def)
  have "op_parse (line_bytes (of_char CHR ''y'' # ?body) @ raw @ rest) =
      (length ?body + 5 + length raw, meaning (D_Raw ch raw vs))"
    using op_parse_line [of "of_char CHR ''y''" ?body "raw @ rest"] p n
    by (simp add: Let_def is_digit_def)
  then show ?thesis by (simp add: text_simps line_bytes_def)
qed

lemma parse_frame_bytes:
  assumes "length body \<le> 254" and "ch < 10"
  shows "op_parse (frame_bytes ch st body @ rest) =
    (let out = (reply0 OP_REPLY_FRAME)\<lparr>r_channel := of_nat ch, r_status := st\<rparr> in
     if op_frame_has_timestamp (of_nat ch) st (length body) then
       (5 + length body, out\<lparr>r_timestamp_us := op_rd_be32 (body @ rest),
                             r_data := Some (drop 4 body)\<rparr>)
     else (5 + length body, out\<lparr>r_timestamp_us := 0, r_data := Some body\<rparr>))"
proof -
  let ?buf = "97 # 114 # (48 + of_nat ch) # of_nat (Suc (length body)) # st # body @ rest"
  have buf: "frame_bytes ch st body @ rest = ?buf"
    by (simp add: frame_bytes_def text_simps)
  have n: "unat (?buf ! 3) = Suc (length body)"
    using assms(1) by (simp add: unat_of_nat del: of_nat_Suc)
  have ch: "ucast (?buf ! 2 - 48 :: u8) = (of_nat ch :: u32)"
    using assms(2) by (simp add: unsigned_of_nat take_bit_nat_eq_self)
  have dig: "is_digit (48 + of_nat ch)" using assms(2) by simp
  have parts: "drop 5 ?buf = body @ rest" "?buf ! 4 = st" "take (length body) (body @ rest) = body"
    by simp_all
  have d9: "take (length body - 4) (drop 9 ?buf) = drop 4 body" if "4 \<le> length body"
    using that by (simp add: drop_Cons')
  have "op_parse ?buf = parse_frame ?buf"
    using dig by (simp add: op_parse_def)
  also have "\<dots> = (let out = (reply0 OP_REPLY_FRAME)\<lparr>r_channel := of_nat ch, r_status := st\<rparr> in
     if op_frame_has_timestamp (of_nat ch) st (length body) then
       (5 + length body, out\<lparr>r_timestamp_us := op_rd_be32 (body @ rest),
                             r_data := Some (drop 4 body)\<rparr>)
     else (5 + length body, out\<lparr>r_timestamp_us := 0, r_data := Some body\<rparr>))"
    unfolding parse_frame_def n ch parts Let_def
    using d9 has_timestamp_4 [of "of_nat ch" st "length body"] by (simp add: parts)
  finally show ?thesis unfolding buf .
qed

lemma not_digit_verbs [simp]:
  "\<not> is_digit 111" "\<not> is_digit 101" "\<not> is_digit 105" "\<not> is_digit 114" "\<not> is_digit 109"
  "\<not> is_digit 102" "\<not> is_digit 103" "\<not> is_digit 119" "\<not> is_digit 121"
  by (simp_all add: is_digit_def)

lemma num_end_space_num [simp]: "num_end (32 # s)" by simp

lemma op_parse_render:
  assumes "dev_wf m"
  shows "op_parse (render m @ rest) = (length (render m), meaning m)"
proof (cases m)
  case (D_Ok vs)
  then show ?thesis
    using render_line [of 111 "spaced vs" rest] by (simp add: text_simps parse_ascii_def)
next
  case (D_Error code vs)
  have "parse_ascii (101 # 32 # num code @ spaced vs) = meaning (D_Error code vs)"
    by (cases "vs = []", simp_all add: text_simps parse_ascii_def Let_def del: spaced_simps)
      (cases vs; simp)
  then show ?thesis
    using D_Error render_line [of 101 "32 # num code @ spaced vs" rest] by (simp add: text_simps)
next
  case (D_Info t)
  then have "after_spaces t = t" using assms by (intro after_spaces_id) simp
  then show ?thesis
    using D_Info assms render_line [of 105 "32 # t" rest] by (simp add: text_simps parse_ascii_def)
next
  case (D_Pin pin mv vs)
  then show ?thesis
    using render_line [of 114 "32 # num pin @ 32 # num mv @ spaced vs" rest]
    by (simp add: text_simps parse_ascii_def)
next
  case (D_Periodic ch mid vs)
  then show ?thesis
    using render_line [of 109 "num ch @ 32 # num mid @ spaced vs" rest]
    by (simp add: text_simps parse_ascii_def)
next
  case (D_Filter ch fid vs)
  then show ?thesis
    using render_line [of 102 "num ch @ 32 # num fid @ spaced vs" rest]
    by (simp add: text_simps parse_ascii_def)
next
  case (D_Config ch p v vs)
  then show ?thesis
    using render_line [of 103 "num ch @ 32 # num p @ 32 # num v @ spaced vs" rest]
    by (simp add: text_simps parse_ascii_def)
next
  case (D_Keys ch vs)
  then show ?thesis
    using render_line [of 119 "num ch @ spaced vs" rest] by (simp add: text_simps parse_ascii_def)
next
  case (D_Raw ch raw vs)
  then show ?thesis using assms render_raw [of raw ch vs rest] by simp
next
  case (D_Stamped ch st ts d)
  have "length (be32 ts @ d) = 4 + length d" and "drop 4 (be32 ts @ d) = d"
    by (simp_all add: be32_def)
  moreover have "op_frame_has_timestamp (of_nat ch) st (4 + length d)"
    using D_Stamped assms by (auto simp: op_frame_has_timestamp_def)
  ultimately show ?thesis
    using D_Stamped assms parse_frame_bytes [of "be32 ts @ d" ch st rest]
    by (simp add: frame_bytes_def op_rd_be32_be32 Let_def)
next
  case (D_Plain ch st d)
  have "(of_nat ch :: u32) = 5 \<longleftrightarrow> ch = 5" "(of_nat ch :: u32) = 6 \<longleftrightarrow> ch = 6"
    using D_Plain assms by (simp_all add: word_unat_eq_iff unat_of_nat)
  then have "\<not> op_frame_has_timestamp (of_nat ch) st (length d)"
    using D_Plain assms by (auto simp: op_frame_has_timestamp_def split: if_splits)
  then show ?thesis
    using D_Plain assms parse_frame_bytes [of d ch st rest] by (simp add: frame_bytes_def Let_def)
qed

text \<open>C16. Parsing a device message gives back the message, with exactly its own bytes consumed and
  whatever follows it untouched, for every verb of the grammar, raw initialisation answers and
  both frame shapes (timestamped and plain).\<close>

theorem reply_roundtrip:
  assumes "dev_wf m"
  shows "op_parse (render m @ rest) = (length (render m), meaning m)"
  using assms by (rule op_parse_render)

theorem reply_roundtrip_witness:
  "op_parse (render (D_Stamped 6 0xC0 7 [1,2,3]) @ [97]) = (12, meaning (D_Stamped 6 0xC0 7 [1,2,3]))"
  using reply_roundtrip [of "D_Stamped 6 0xC0 7 [1,2,3]" "[97]"]
  by (simp add: frame_bytes_def be32_def)

section \<open>Resynchronisation finds the next plausible record\<close>

definition boundary :: "u8 list \<Rightarrow> nat \<Rightarrow> bool" where
  "boundary buf j \<longleftrightarrow> j + 2 < length buf \<and> buf ! j = of_char CHR ''a'' \<and>
     buf ! Suc j = of_char CHR ''r'' \<and> reply_letter (buf ! (j + 2))"

lemma boundary_Cons: "boundary (x # xs) (Suc j) = boundary xs j"
  by (simp add: boundary_def)

lemma resync_from_Some:
  "resync_from s i = Some k \<Longrightarrow>
   i \<le> k \<and> boundary s (k - i) \<and> (\<forall>j. j < k - i \<longrightarrow> \<not> boundary s j)"
proof (induction s i rule: resync_from.induct)
  case (1 x y z zs i)
  show ?case
  proof (cases "boundary (x # y # z # zs) 0")
    case True
    with 1 show ?thesis by (auto simp: boundary_def)
  next
    case False
    then have r: "resync_from (y # z # zs) (Suc i) = Some k"
      using 1(2) by (auto simp: boundary_def split: if_splits)
    with 1(1) False have ih: "Suc i \<le> k" "boundary (y # z # zs) (k - Suc i)"
      "\<forall>j. j < k - Suc i \<longrightarrow> \<not> boundary (y # z # zs) j"
      by (auto simp: boundary_def)
    have "k - i = Suc (k - Suc i)" using ih(1) by simp
    then show ?thesis
      using ih False by (auto simp: boundary_Cons less_Suc_eq_0_disj)
  qed
qed auto

lemma resync_from_None: "resync_from s i = None \<Longrightarrow> \<not> boundary s j"
proof (induction s i arbitrary: j rule: resync_from.induct)
  case (1 x y z zs i)
  then show ?case
    by (cases j) (auto simp: boundary_def split: if_splits)
qed (auto simp: boundary_def)

lemma resync_eq:
  "(if \<exists>j\<ge>1. boundary buf j
    then op_resync_offset buf = (LEAST j. 1 \<le> j \<and> boundary buf j)
    else op_resync_offset buf = length buf)"
proof (cases "length buf < 3")
  case True
  then show ?thesis by (auto simp: op_resync_offset_def boundary_def)
next
  case False
  then obtain c s where buf: "buf = c # s" by (cases buf) auto
  show ?thesis
  proof (cases "resync_from s 1")
    case None
    then have "\<not> boundary buf j" if "1 \<le> j" for j
      using resync_from_None [OF None, of "j - 1"] that boundary_Cons [of c s "j - 1"] buf by simp
    with None False buf show ?thesis by (auto simp: op_resync_offset_def)
  next
    case (Some k)
    from resync_from_Some [OF this] have k: "1 \<le> k" "boundary s (k - 1)"
      "\<forall>j<k - 1. \<not> boundary s j" by auto
    then have b: "boundary buf k" using boundary_Cons [of c s "k - 1"] buf by simp
    have "\<not> boundary buf j" if "1 \<le> j" "j < k" for j
      using k that boundary_Cons [of c s "j - 1"] buf by simp
    then have "(LEAST j. 1 \<le> j \<and> boundary buf j) = k"
      using b k by (intro Least_equality) (auto simp: not_less [symmetric])
    with b k Some False buf show ?thesis by (auto simp: op_resync_offset_def)
  qed
qed

lemma resync_offset_le: "op_resync_offset buf \<le> length buf"
proof -
  have "k \<le> length buf" if "resync_from (drop 1 buf) 1 = Some k" for k
    using resync_from_Some [OF that] by (auto simp: boundary_def)
  then show ?thesis by (auto simp: op_resync_offset_def split: option.splits)
qed

text \<open>A message of the device starts at a boundary, so resynchronising never skips one.\<close>

lemma boundary_render: "boundary (render m @ rest) 0"
  if "dev_wf m"
  using that
  by (cases m) (auto simp: boundary_def line_bytes_def frame_bytes_def text_simps reply_letter_def)

lemma boundary_shift: "boundary (xs @ ys) (length xs + j) = boundary ys j"
  by (auto simp: boundary_def nth_append)

text \<open>\<open>op_resync_offset\<close> is the first plausible record start at or after index 1, or the
  length of the buffer when it holds none.\<close>

lemma resync_first_boundary:
  "op_resync_offset buf =
     (if \<exists>j\<ge>1. boundary buf j then LEAST j. 1 \<le> j \<and> boundary buf j else length buf)"
  using resync_eq [of buf] by (auto split: if_splits)

lemma resync_keeps_messages:
  assumes "dev_wf m" and "junk \<noteq> []"
  shows "op_resync_offset (junk @ render m @ rest) \<le> length junk"
proof -
  have "boundary (junk @ render m @ rest) (length junk)"
    using boundary_shift [of junk "render m @ rest" 0] boundary_render [OF assms(1)] by simp
  moreover have "1 \<le> length junk" using assms(2) by (cases junk) auto
  ultimately show ?thesis
    using resync_eq [of "junk @ render m @ rest"]
    by (auto split: if_splits intro: Least_le)
qed

section \<open>The version text\<close>

lemma last_colon_none: "58 \<notin> set t \<Longrightarrow> last_colon t i found = found"
  by (induction t i found rule: last_colon.induct) auto

lemma last_colon_append:
  "58 \<notin> set v \<Longrightarrow> last_colon (p @ 58 # 32 # v) i found = Some (i + length p + 2)"
proof (induction p arbitrary: i found)
  case Nil
  have "58 \<notin> set (32 # v)" using Nil by simp
  then show ?case using last_colon_none [of "32 # v" "Suc i" "Some (i + 2)"] by simp
next
  case (Cons c p)
  then show ?case by (cases "p @ 58 # 32 # v") auto
qed

lemma strip_end_keep: "rs = [] \<or> hd rs \<notin> {13, 10, 32} \<Longrightarrow> strip_end rs = rs"
  by (cases rs) auto

text \<open>The version is what follows the last ``: '' of an \<open>ari\<close> text, whatever the prefix, as
  long as it fits the caller's buffer with its NUL.\<close>

lemma op_parse_version_roundtrip:
  assumes "v \<noteq> []" and "58 \<notin> set v" and "hd v \<noteq> 32" and "last v \<notin> {13, 10, 32}"
    and "length v < out_sz"
  shows "op_parse_version (Some (prefix @ ascii '': '' @ v)) out_sz = (True, v)"
proof -
  have "rev (strip_end (rev v)) = v"
    using assms(1,4) by (subst strip_end_keep) (auto simp: hd_rev)
  moreover have "after_spaces v = v"
    using assms(3) by (intro after_spaces_id) simp
  ultimately show ?thesis
    using assms last_colon_append [of v prefix 0 None]
    by (simp add: op_parse_version_def text_simps Let_def)
qed

section \<open>\<open>op_parse\<close> provides the framing interface\<close>

lemma op_parse_part:
  assumes "op_parse (p @ q) = (length (p @ q), r)" and "q \<noteq> []" and "r_kind r \<noteq> OP_REPLY_JUNK"
    and "length (p @ q) \<le> 257 \<or> r_kind r = OP_REPLY_FRAME"
  shows "fst (op_parse p) = 0"
proof (rule ccontr)
  assume n0: "fst (op_parse p) \<noteq> 0"
  have same: "op_parse (p @ q) \<noteq> op_parse p"
    using op_parse_le [of p] assms(1,2) by (cases "op_parse p") auto
  then have "\<not> (r_kind (snd (op_parse p)) \<noteq> OP_REPLY_JUNK \<or> length p \<le> 256)"
    using op_parse_append [OF n0, of q] by blast
  then have long: "256 < length p" by simp
  from long assms(2) have "257 < length (p @ q)" by (cases q) auto
  with assms(4) have f: "r_kind (snd (op_parse (p @ q))) = OP_REPLY_FRAME"
    using assms(1) by simp
  have line: "r_kind (snd (parse_line b)) \<noteq> OP_REPLY_FRAME" for b
    by (auto simp: parse_line_def Let_def split: option.splits)
  from long have "op_parse p = parse_frame p"
    using f line [of "p @ q"] by (auto simp: op_parse_def nth_append split: if_splits)
  moreover have "op_parse (p @ q) = parse_frame (p @ q)"
    using f line [of "p @ q"] by (auto simp: op_parse_def split: if_splits)
  ultimately show False
    using parse_frame_append [of p q] n0 same by simp
qed

fun is_frame :: "dev_msg \<Rightarrow> bool" where
  "is_frame (D_Stamped _ _ _ _) \<longleftrightarrow> True"
| "is_frame (D_Plain _ _ _) \<longleftrightarrow> True"
| "is_frame _ \<longleftrightarrow> False"

text \<open>
  A message short enough that its unfinished line is never given up as junk; frames need no
  bound.
\<close>

definition dev_fits :: "dev_msg \<Rightarrow> bool" where
  "dev_fits m \<longleftrightarrow> dev_wf m \<and> (is_frame m \<or> length (render m) \<le> 257)"

definition dev_record :: "u8 list \<Rightarrow> op_reply \<Rightarrow> bool" where
  "dev_record b r \<longleftrightarrow> (\<exists>m. dev_fits m \<and> b = render m \<and> r = meaning m)"

lemma meaning_kind: "r_kind (meaning m) \<notin> {OP_REPLY_JUNK, OP_REPLY_INCOMPLETE}"
  by (cases m) auto

lemma is_frame_kind: "is_frame m \<Longrightarrow> r_kind (meaning m) = OP_REPLY_FRAME"
  by (cases m) auto

interpretation wire: framing op_parse dev_record
proof
  fix b r
  assume "dev_record b r"
  then show "b \<noteq> []"
    by (auto simp: dev_record_def elim!: render.elims) (auto simp: line_bytes_def frame_bytes_def text_simps)
next
  fix b r rest
  assume "dev_record b r"
  then show "op_parse (b @ rest) = (length b, r)"
    using op_parse_render by (auto simp: dev_record_def dev_fits_def)
next
  fix p q r
  assume "dev_record (p @ q) r" and q: "q \<noteq> []"
  then obtain m where m: "dev_fits m" "p @ q = render m" "r = meaning m"
    by (auto simp: dev_record_def)
  then have "op_parse (p @ q) = (length (p @ q), r)"
    using op_parse_render [of m "[]"] by (simp add: dev_fits_def)
  then show "fst (op_parse p) = 0"
    using q m meaning_kind [of m] is_frame_kind [of m] by (intro op_parse_part [of p q r]) (auto simp: dev_fits_def)
qed

end
