(* ===== verification/Proto_Cmd.thy ===== *)
theory Proto_Cmd
  imports Proto_Reply
begin

text \<open>
  The command half of the codec (src/op_proto.c): the encoders, numbering, and the check that a
  command takes a number. A line is the list of its bytes without the NUL; the empty list is a
  return of 0, after which \<open>out\<close> holds the empty string. \<open>out_sz\<close> is the size of the caller's
  buffer.
\<close>

section \<open>Encoders\<close>

text \<open>
  \<open>emit\<close> writes with \<open>vsnprintf\<close>, whose result \<open>s\<close> is the formatted text; text that does not
  fit with its NUL is dropped whole.
\<close>

definition emit :: "nat \<Rightarrow> u8 list \<Rightarrow> u8 list" where
  "emit out_sz s = (if out_sz = 0 \<or> out_sz \<le> length s then [] else s)"

definition crlf :: "u8 list" where
  "crlf = [13, 10]"

definition op_cmd_is_numbered :: "u8 list \<Rightarrow> bool" where
  "op_cmd_is_numbered line =
     (case line of x # y # v # _ \<Rightarrow>
          x = of_char CHR ''a'' \<and> y = of_char CHR ''t'' \<and> v \<noteq> 0 \<and> v \<noteq> of_char CHR ''i''
      | _ \<Rightarrow> False)"

definition op_cmd_number :: "u8 list \<Rightarrow> nat \<Rightarrow> u32 \<Rightarrow> u8 list" where
  "op_cmd_number line out_sz seq =
     (let len = length line; tail = 32 # dec (unat seq); n = length tail in
      if len < 4 \<or> line ! (len - 2) \<noteq> 13 \<or> line ! (len - 1) \<noteq> 10 then []
      else if out_sz < len - 2 + n + 3 then []
      else take (len - 2) line @ tail @ crlf)"

definition op_cmd_close_all :: "nat \<Rightarrow> u8 list" where
  "op_cmd_close_all out_sz = emit out_sz (ascii ''ata'' @ crlf)"

definition op_cmd_reset :: "nat \<Rightarrow> u8 list" where
  "op_cmd_reset out_sz = emit out_sz (ascii ''atz'' @ crlf)"

definition op_cmd_version :: "nat \<Rightarrow> u8 list" where
  "op_cmd_version out_sz = emit out_sz (ascii ''ati'' @ crlf)"

definition op_cmd_open :: "nat \<Rightarrow> u32 \<Rightarrow> u32 \<Rightarrow> u32 \<Rightarrow> u8 list" where
  "op_cmd_open out_sz proto flags baud =
     emit out_sz (ascii ''ato'' @ num proto @ 32 # num flags @ 32 # num baud @ ascii '' 0'' @ crlf)"

definition op_cmd_close :: "nat \<Rightarrow> u32 \<Rightarrow> u8 list" where
  "op_cmd_close out_sz ch = emit out_sz (ascii ''atc'' @ num ch @ crlf)"

definition op_cmd_read_pin :: "nat \<Rightarrow> u32 \<Rightarrow> u8 list" where
  "op_cmd_read_pin out_sz pin = emit out_sz (ascii ''atr '' @ num pin @ crlf)"

definition op_cmd_get_config :: "nat \<Rightarrow> u32 \<Rightarrow> u32 \<Rightarrow> u8 list" where
  "op_cmd_get_config out_sz ch param =
     emit out_sz (ascii ''atg'' @ num ch @ 32 # num param @ crlf)"

definition op_cmd_set_config :: "nat \<Rightarrow> u32 \<Rightarrow> u32 \<Rightarrow> u32 \<Rightarrow> u8 list" where
  "op_cmd_set_config out_sz ch param value =
     emit out_sz (ascii ''ats'' @ num ch @ 32 # num param @ 32 # num value @ crlf)"

definition op_cmd_transmit :: "nat \<Rightarrow> u32 \<Rightarrow> nat \<Rightarrow> u32 \<Rightarrow> u32 \<Rightarrow> u8 list" where
  "op_cmd_transmit out_sz ch payload_len txflags timeout_us =
     (if payload_len = 0 \<or> payload_len > OP_MSG_MAX then []
      else emit out_sz (ascii ''att'' @ num ch @ 32 # dec payload_len @ 32 # num txflags @
                        32 # num timeout_us @ crlf))"

definition op_cmd_filter :: "nat \<Rightarrow> u32 \<Rightarrow> u32 \<Rightarrow> u32 \<Rightarrow> nat \<Rightarrow> u8 list" where
  "op_cmd_filter out_sz ch type txflags each_len =
     (if each_len = 0 \<or> each_len > 255 then []
      else emit out_sz (ascii ''atf'' @ num ch @ 32 # num type @ 32 # num txflags @
                        32 # dec each_len @ crlf))"

definition op_cmd_stop_filter :: "nat \<Rightarrow> u32 \<Rightarrow> u32 \<Rightarrow> u8 list" where
  "op_cmd_stop_filter out_sz ch filter_id =
     emit out_sz (ascii ''atk'' @ num ch @ 32 # num filter_id @ crlf)"

definition op_cmd_clear_filters :: "nat \<Rightarrow> u32 \<Rightarrow> u8 list" where
  "op_cmd_clear_filters out_sz ch = emit out_sz (ascii ''atk'' @ num ch @ ascii '' -1'' @ crlf)"

definition op_cmd_clear_periodic :: "nat \<Rightarrow> u32 \<Rightarrow> u8 list" where
  "op_cmd_clear_periodic out_sz ch = emit out_sz (ascii ''atl'' @ num ch @ crlf)"

definition op_cmd_periodic_start :: "nat \<Rightarrow> u32 \<Rightarrow> u32 \<Rightarrow> u32 \<Rightarrow> nat \<Rightarrow> u8 list" where
  "op_cmd_periodic_start out_sz ch interval_us txflags payload_len =
     (if payload_len = 0 \<or> payload_len > OP_MSG_MAX then []
      else emit out_sz (ascii ''atm'' @ num ch @ 32 # num interval_us @ ascii '' 0 '' @
                        num txflags @ 32 # dec payload_len @ crlf))"

definition op_cmd_periodic_stop :: "nat \<Rightarrow> u32 \<Rightarrow> u32 \<Rightarrow> u8 list" where
  "op_cmd_periodic_stop out_sz ch msg_id =
     emit out_sz (ascii ''atn'' @ num ch @ 32 # num msg_id @ crlf)"

definition op_cmd_fast_init :: "nat \<Rightarrow> u32 \<Rightarrow> nat \<Rightarrow> u8 list" where
  "op_cmd_fast_init out_sz ch payload_len =
     (if payload_len > 255 then []
      else emit out_sz (ascii ''aty'' @ num ch @ 32 # dec payload_len @ ascii '' 0'' @ crlf))"

definition op_cmd_five_baud :: "nat \<Rightarrow> u32 \<Rightarrow> u32 \<Rightarrow> u8 list" where
  "op_cmd_five_baud out_sz ch address =
     (if address > 255 then []
      else emit out_sz (ascii ''atw'' @ num ch @ 32 # num address @ crlf))"

section \<open>What a line says\<close>

text \<open>
  All commands at once, for the properties: \<open>encode\<close> is the encoder applied with the size the
  callers give it (\<open>OP_CMD_MAX\<close>), \<open>args_of\<close> the decimal arguments the device must read.
\<close>

datatype command =
    C_Close_all
  | C_Reset
  | C_Version
  | C_Open u32 u32 u32
  | C_Close u32
  | C_Read_pin u32
  | C_Get_config u32 u32
  | C_Set_config u32 u32 u32
  | C_Transmit u32 nat u32 u32
  | C_Filter u32 u32 u32 nat
  | C_Stop_filter u32 u32
  | C_Clear_filters u32
  | C_Clear_periodic u32
  | C_Periodic_start u32 u32 u32 nat
  | C_Periodic_stop u32 u32
  | C_Fast_init u32 nat
  | C_Five_baud u32 u32

fun encode :: "command \<Rightarrow> u8 list" where
  "encode C_Close_all = op_cmd_close_all OP_CMD_MAX"
| "encode C_Reset = op_cmd_reset OP_CMD_MAX"
| "encode C_Version = op_cmd_version OP_CMD_MAX"
| "encode (C_Open p f b) = op_cmd_open OP_CMD_MAX p f b"
| "encode (C_Close ch) = op_cmd_close OP_CMD_MAX ch"
| "encode (C_Read_pin p) = op_cmd_read_pin OP_CMD_MAX p"
| "encode (C_Get_config ch p) = op_cmd_get_config OP_CMD_MAX ch p"
| "encode (C_Set_config ch p v) = op_cmd_set_config OP_CMD_MAX ch p v"
| "encode (C_Transmit ch n f t) = op_cmd_transmit OP_CMD_MAX ch n f t"
| "encode (C_Filter ch ty f n) = op_cmd_filter OP_CMD_MAX ch ty f n"
| "encode (C_Stop_filter ch i) = op_cmd_stop_filter OP_CMD_MAX ch i"
| "encode (C_Clear_filters ch) = op_cmd_clear_filters OP_CMD_MAX ch"
| "encode (C_Clear_periodic ch) = op_cmd_clear_periodic OP_CMD_MAX ch"
| "encode (C_Periodic_start ch i f n) = op_cmd_periodic_start OP_CMD_MAX ch i f n"
| "encode (C_Periodic_stop ch i) = op_cmd_periodic_stop OP_CMD_MAX ch i"
| "encode (C_Fast_init ch n) = op_cmd_fast_init OP_CMD_MAX ch n"
| "encode (C_Five_baud ch x) = op_cmd_five_baud OP_CMD_MAX ch x"

fun verb_of :: "command \<Rightarrow> char" where
  "verb_of C_Close_all = CHR ''a''"
| "verb_of C_Reset = CHR ''z''"
| "verb_of C_Version = CHR ''i''"
| "verb_of (C_Open _ _ _) = CHR ''o''"
| "verb_of (C_Close _) = CHR ''c''"
| "verb_of (C_Read_pin _) = CHR ''r''"
| "verb_of (C_Get_config _ _) = CHR ''g''"
| "verb_of (C_Set_config _ _ _) = CHR ''s''"
| "verb_of (C_Transmit _ _ _ _) = CHR ''t''"
| "verb_of (C_Filter _ _ _ _) = CHR ''f''"
| "verb_of (C_Stop_filter _ _) = CHR ''k''"
| "verb_of (C_Clear_filters _) = CHR ''k''"
| "verb_of (C_Clear_periodic _) = CHR ''l''"
| "verb_of (C_Periodic_start _ _ _ _) = CHR ''m''"
| "verb_of (C_Periodic_stop _ _) = CHR ''n''"
| "verb_of (C_Fast_init _ _) = CHR ''y''"
| "verb_of (C_Five_baud _ _) = CHR ''w''"

fun args_of :: "command \<Rightarrow> u32 list" where
  "args_of C_Close_all = []"
| "args_of C_Reset = []"
| "args_of C_Version = []"
| "args_of (C_Open p f b) = [p, f, b, 0]"
| "args_of (C_Close ch) = [ch]"
| "args_of (C_Read_pin p) = [p]"
| "args_of (C_Get_config ch p) = [ch, p]"
| "args_of (C_Set_config ch p v) = [ch, p, v]"
| "args_of (C_Transmit ch n f t) = [ch, of_nat n, f, t]"
| "args_of (C_Filter ch ty f n) = [ch, ty, f, of_nat n]"
| "args_of (C_Stop_filter ch i) = [ch, i]"
| "args_of (C_Clear_filters ch) = [ch]"
| "args_of (C_Clear_periodic ch) = [ch]"
| "args_of (C_Periodic_start ch i f n) = [ch, i, 0, f, of_nat n]"
| "args_of (C_Periodic_stop ch i) = [ch, i]"
| "args_of (C_Fast_init ch n) = [ch, of_nat n, 0]"
| "args_of (C_Five_baud ch x) = [ch, x]"

fun encodable :: "command \<Rightarrow> bool" where
  "encodable (C_Transmit ch n f t) \<longleftrightarrow> 0 < n \<and> n \<le> OP_MSG_MAX"
| "encodable (C_Filter ch ty f n) \<longleftrightarrow> 0 < n \<and> n \<le> 255"
| "encodable (C_Periodic_start ch i f n) \<longleftrightarrow> 0 < n \<and> n \<le> OP_MSG_MAX"
| "encodable (C_Fast_init ch n) \<longleftrightarrow> n \<le> 255"
| "encodable (C_Five_baud ch x) \<longleftrightarrow> x \<le> 255"
| "encodable _ \<longleftrightarrow> True"

fun args_text :: "command \<Rightarrow> u8 list" where
  "args_text (C_Clear_filters ch) = num ch @ ascii '' -1''"
| "args_text (C_Read_pin p) = spaced [p]"
| "args_text c = (case args_of c of [] \<Rightarrow> [] | x # xs \<Rightarrow> num x @ spaced xs)"

lemma dec_num: "n < 4294967296 \<Longrightarrow> dec n = num (of_nat n)"
  by (simp add: num_def unat_of_nat)

lemma length_num: "length (num x) \<le> 10"
  by (simp add: num_def length_dec_u32)

lemma length_spaced: "length (spaced vs) \<le> 11 * length vs"
  by (induction vs) (use length_num in \<open>auto simp: num_def [symmetric] intro: add_mono order_trans\<close>)

lemma args_text_length: "length (args_text c) \<le> 54"
proof -
  have "length (num x @ spaced xs) \<le> 54" if "length xs \<le> 4" for x xs
    using length_num [of x] length_spaced [of xs] that by simp
  moreover have "length (num ch @ ascii '' -1'') \<le> 54" for ch
    using length_num [of ch] by simp
  moreover have "length (spaced [p]) \<le> 54" for p
    using length_spaced [of "[p]"] by simp
  ultimately show ?thesis by (cases c) (simp_all del: spaced_simps length_append)
qed

lemma emit_fits: "length s < n \<Longrightarrow> emit n s = s"
  by (simp add: emit_def)

lemma num_0: "num 0 = [48]"
  by (simp add: num_def dec.simps)

lemma encode_eq:
  assumes "encodable c"
  shows "encode c = 97 # 116 # of_char (verb_of c) # args_text c @ crlf"
proof -
  have fit: "emit OP_CMD_MAX (97 # 116 # of_char (verb_of c) # args_text c @ crlf) =
      97 # 116 # of_char (verb_of c) # args_text c @ crlf"
    using args_text_length [of c] by (intro emit_fits) (simp add: crlf_def)
  show ?thesis
    using assms
    by (subst fit [symmetric], cases c)
       (simp_all add: op_cmd_close_all_def op_cmd_reset_def op_cmd_version_def op_cmd_open_def
          op_cmd_close_def op_cmd_read_pin_def op_cmd_get_config_def op_cmd_set_config_def
          op_cmd_transmit_def op_cmd_filter_def op_cmd_stop_filter_def op_cmd_clear_filters_def
          op_cmd_clear_periodic_def op_cmd_periodic_start_def op_cmd_periodic_stop_def
          op_cmd_fast_init_def op_cmd_five_baud_def text_simps dec_num num_0 leD flip: num_def)
qed

lemma dec_no_lf [simp]: "10 \<notin> set (dec n)"
  using dec_digits [of 10 n] by (auto simp: is_digit_def)

lemma num_no_lf [simp]: "10 \<notin> set (num x)"
  using dec_digits [of 10 "unat x"] by (auto simp: num_def is_digit_def)

lemma spaced_no_lf [simp]: "10 \<notin> set (spaced vs)"
  by (induction vs) (auto simp flip: num_def)

lemma args_text_plain: "13 \<notin> set (args_text c) \<and> 10 \<notin> set (args_text c)"
  by (cases c) (auto simp: text_simps num_0 simp flip: num_def)

text \<open>C39. Every command whose length arguments are in range fits the 64-byte line buffer of its
  callers and is one line: \<open>at\<close>, its verb, a body without CR or LF, and the CR LF that ends it. No
  argument can end the line early or start a second command.\<close>

theorem encode_well_formed:
  assumes "encodable c"
  shows "length (encode c) < OP_CMD_MAX \<and>
    (\<exists>body. encode c = ascii ''at'' @ of_char (verb_of c) # body @ crlf \<and>
            13 \<notin> set body \<and> 10 \<notin> set body)"
  using args_text_length [of c] args_text_plain [of c]
  by (auto simp: encode_eq [OF assms] text_simps crlf_def)

lemma spaced_append: "spaced (xs @ ys) = spaced xs @ spaced ys"
  by (simp add: spaced_def)

text \<open>The arguments of a line as a reader of decimal tokens sees them.\<close>

definition line_args :: "u8 list \<Rightarrow> u32 list" where
  "line_args l = parse_tail (take (length l - 5) (drop 3 l))"

lemma parse_tail_loop_step:
  "parse_tail_loop s acc =
     (case take_u32 (after_spaces s) of None \<Rightarrow> acc
      | Some (v, s') \<Rightarrow> parse_tail_loop s' (if length acc < 8 then acc @ [v] else acc))"
  by (subst parse_tail_loop.simps)
    (auto simp: take_u32_def after_spaces_def Let_def parse_u32_None simp del: drop_eq_Nil
      split: option.splits)

lemma parse_tail_num: "parse_tail (num x @ spaced vs) = x # take 7 vs"
  unfolding parse_tail_def
  by (subst parse_tail_loop_step) (simp add: text_simps parse_tail_loop_spaced)

lemma parse_tail_num_minus: "parse_tail (num x @ 32 # 45 # s) = [x]"
proof -
  have "take_u32 (after_spaces (32 # 45 # s)) = None"
    by (simp add: take_u32_def after_spaces_def parse_u32_None is_digit_def)
  then have "parse_tail_loop (32 # 45 # s) [x] = [x]"
    by (subst parse_tail_loop_step) simp
  then show ?thesis
    unfolding parse_tail_def by (subst parse_tail_loop_step) (simp add: text_simps)
qed

lemma line_args_body: "line_args (97 # 116 # v # body @ crlf) = parse_tail body"
  by (simp add: line_args_def crlf_def)

text \<open>Every text but that of \<open>C_Clear_filters\<close> is a list of decimal tokens, and stays one
  when a token is appended.\<close>

lemma args_text_cases:
  "\<forall>ch. c \<noteq> C_Clear_filters ch \<Longrightarrow>
   args_text c = spaced (args_of c) \<or>
   (\<exists>x xs. args_of c = x # xs \<and> args_text c = num x @ spaced xs)"
  by (cases c) auto

lemma args_text_tokens:
  assumes "\<forall>ch. c \<noteq> C_Clear_filters ch"
  shows "parse_tail (args_text c @ spaced vs) = take 8 (args_of c @ vs)"
  using args_text_cases [OF assms]
proof (elim disjE exE conjE)
  assume "args_text c = spaced (args_of c)"
  then show ?thesis by (simp only: spaced_append [symmetric] parse_tail_spaced)
next
  fix x xs
  assume "args_of c = x # xs" and "args_text c = num x @ spaced xs"
  then show ?thesis
    using parse_tail_num [of x "xs @ vs"] by (simp only: append_assoc spaced_append) simp
qed

lemma args_of_length: "length (args_of c) \<le> 5"
  by (cases c) simp_all

text \<open>A reader of decimal tokens gets back from every command line exactly the verb and the
  arguments that were encoded, in order (for \<open>atk<ch> -1\<close>, the channel: the token after it is not
  a number).\<close>

lemma encode_args:
  assumes "encodable c"
  shows "encode c ! 2 = of_char (verb_of c) \<and> line_args (encode c) = args_of c"
proof (cases "\<exists>ch. c = C_Clear_filters ch")
  case True
  then show ?thesis
    using assms parse_tail_num_minus
    by (auto simp: encode_eq line_args_body text_simps)
next
  case False
  then show ?thesis
    using assms args_text_tokens [of c "[]"] args_of_length [of c]
    by (simp add: encode_eq line_args_body)
qed

lemma op_cmd_number_line:
  assumes "line = s @ crlf" and "2 \<le> length s" and "length line \<le> 64"
  shows "op_cmd_number line (OP_CMD_MAX + 16) seq = s @ spaced [seq] @ crlf"
  using assms length_dec_u32 [of seq]
  by (simp add: op_cmd_number_def crlf_def Let_def nth_append)

text \<open>Numbering keeps the verb and every argument and appends the sequence number as the last
  token, for every command but \<open>ati\<close> (which \<open>op_cmd_is_numbered\<close> excludes from numbering) and with
  room to spare in the 80-byte buffer of \<open>cmd_exchange\<close>.\<close>

lemma numbered_args:
  assumes "encodable c" and "\<forall>ch. c \<noteq> C_Clear_filters ch"
  shows "op_cmd_is_numbered (encode c) = (c \<noteq> C_Version) \<and>
    line_args (op_cmd_number (encode c) (OP_CMD_MAX + 16) seq) = args_of c @ [seq] \<and>
    take 3 (op_cmd_number (encode c) (OP_CMD_MAX + 16) seq) = take 3 (encode c)"
proof -
  let ?s = "97 # 116 # of_char (verb_of c) # args_text c"
  have enc: "encode c = ?s @ crlf" using encode_eq [OF assms(1)] by simp
  then have n: "op_cmd_number (encode c) (OP_CMD_MAX + 16) seq = ?s @ spaced [seq] @ crlf"
    using args_text_length [of c] by (intro op_cmd_number_line) (simp_all add: crlf_def)
  have "line_args (?s @ spaced [seq] @ crlf) = parse_tail (args_text c @ spaced [seq])"
    using line_args_body [of _ "args_text c @ spaced [seq]"] by simp
  also have "\<dots> = args_of c @ [seq]"
    using args_text_tokens [OF assms(2), of "[seq]"] args_of_length [of c] by simp
  finally show ?thesis
    unfolding n unfolding enc by (cases c) (simp_all add: op_cmd_is_numbered_def)
qed

theorem encode_well_formed_witness:
  "encodable (C_Transmit 6 4128 64 1000000) \<and> length (encode (C_Transmit 6 4128 64 1000000)) < OP_CMD_MAX"
  using encode_well_formed [of "C_Transmit 6 4128 64 1000000"] by simp

end
