(* ===== verification/Byte_Ring.thy ===== *)
theory Byte_Ring
  imports Prelude
begin

text \<open>
  Rings of bytes. The driver has two: the receive queue of a channel (src/op_device.c) and the
  bulk-IN ring of the USB transport (src/op_usb.c). Both copy with two \<open>memcpy\<close> calls, one up to
  the end of the buffer and one from its start; \<open>wrap_write\<close> and \<open>wrap_read\<close> are those two calls.
  The interface \<open>byte_fifo\<close> is what the layer above a ring relies on.
\<close>

section \<open>The two copies\<close>

definition wrap_write :: "nat \<Rightarrow> mem \<Rightarrow> nat \<Rightarrow> u8 list \<Rightarrow> mem" where
  "wrap_write N m pos src =
     (let n = length src;
          first = (if N - pos > n then n else N - pos)
      in mem_write (mem_write m pos (take first src)) 0 (drop first src))"

definition wrap_read :: "nat \<Rightarrow> mem \<Rightarrow> nat \<Rightarrow> nat \<Rightarrow> u8 list" where
  "wrap_read N m pos n =
     (let first = (if N - pos > n then n else N - pos)
      in mem_read m pos first @ mem_read m 0 (n - first))"

text \<open>The \<open>k\<close> bytes that start at \<open>h\<close>, going round.\<close>

definition ring_bytes :: "nat \<Rightarrow> mem \<Rightarrow> nat \<Rightarrow> nat \<Rightarrow> u8 list" where
  "ring_bytes N m h k = map (\<lambda>i. m ((h + i) mod N)) [0..<k]"

lemma length_ring_bytes [simp]: "length (ring_bytes N m h k) = k"
  by (simp add: ring_bytes_def)

lemma ring_bytes_0 [simp]: "ring_bytes N m h 0 = []"
  by (simp add: ring_bytes_def)

lemma ring_bytes_take: "n \<le> k \<Longrightarrow> take n (ring_bytes N m h k) = ring_bytes N m h n"
  by (simp add: ring_bytes_def take_map)

lemma ring_bytes_drop:
  assumes "n \<le> k"
  shows "drop n (ring_bytes N m h k) = ring_bytes N m ((h + n) mod N) (k - n)"
proof (rule nth_equalityI)
  fix i
  assume "i < length (drop n (ring_bytes N m h k))"
  then have i: "i < k - n" "n + i < k" using assms by simp_all
  have "((h + n) mod N + i) mod N = (h + (n + i)) mod N"
    by (simp only: mod_add_left_eq add.assoc)
  with i show "drop n (ring_bytes N m h k) ! i = ring_bytes N m ((h + n) mod N) (k - n) ! i"
    by (simp add: ring_bytes_def)
qed simp

lemma wrap_read_eq:
  assumes "pos < N" and "n \<le> N"
  shows "wrap_read N m pos n = ring_bytes N m pos n"
proof (rule nth_equalityI)
  show "length (wrap_read N m pos n) = length (ring_bytes N m pos n)"
    using assms by (simp add: wrap_read_def Let_def)
next
  fix i
  assume "i < length (wrap_read N m pos n)"
  then have i: "i < n" using assms by (simp add: wrap_read_def Let_def split: if_splits)
  show "wrap_read N m pos n ! i = ring_bytes N m pos n ! i"
  proof (cases "i < N - pos")
    case True
    then have "(pos + i) mod N = pos + i" using assms by simp
    with True i show ?thesis
      by (simp add: wrap_read_def Let_def nth_append nth_mem_read ring_bytes_def)
  next
    case False
    then have "N \<le> pos + i" and "pos + i - N < N" using assms i by simp_all
    then have "(pos + i) mod N = pos + i - N" by (simp add: le_mod_geq)
    with False i assms show ?thesis
      by (simp add: wrap_read_def Let_def nth_append nth_mem_read ring_bytes_def add.commute)
  qed
qed

text \<open>Memory safety: nothing outside the buffer is written.\<close>

lemma wrap_write_outside:
  "pos < N \<Longrightarrow> length src \<le> N \<Longrightarrow> N \<le> i \<Longrightarrow> wrap_write N m pos src i = m i"
  by (auto simp: wrap_write_def Let_def mem_write_def)

text \<open>The offset of an index from the write position, going round.\<close>

lemma wrap_write_at:
  assumes "pos < N" and "length src \<le> N" and "i < N"
  shows "wrap_write N m pos src i =
    (let o' = (if pos \<le> i then i - pos else i + N - pos)
     in if o' < length src then src ! o' else m i)"
  using assms by (auto simp: wrap_write_def Let_def mem_write_def add.commute)

lemma mod_add_cancel_small:
  fixes c :: nat
  assumes "(c + l) mod N = (c + r) mod N" and "l < N" and "r < N"
  shows "l = r"
proof -
  have *: "x = y" if "(c + x) mod N = (c + y) mod N" "x \<le> y" "y < N" for x y
  proof -
    have "N dvd (c + y) - (c + x)"
      using that mod_eq_dvd_iff_nat [of "c + x" "c + y" N] by simp
    moreover have "y - x < N" using that(3) by simp
    ultimately have "y - x = 0" using nat_dvd_not_less [of "y - x" N] by auto
    then show "x = y" using that(2) by simp
  qed
  from *[of l r] *[of r l] assms show ?thesis by (cases "l \<le> r") auto
qed

lemma ring_offset:
  fixes h :: nat
  assumes "0 < N" and "j < k + n" and "k + n \<le> (N::nat)"
  defines "pos \<equiv> (h + k) mod N" and "i \<equiv> (h + j) mod N"
  shows "(if pos \<le> i then i - pos else i + N - pos) = (if k \<le> j then j - k else j + N - k)"
proof -
  have pi: "pos < N" "i < N" using assms by simp_all
  let ?l = "if pos \<le> i then i - pos else i + N - pos"
  let ?r = "if k \<le> j then j - k else j + N - k"
  have l: "?l < N" and r: "?r < N" using pi assms(2,3) by auto
  have "(pos + ?l) mod N = i" using pi by auto
  then have "(h + k + ?l) mod N = (h + j) mod N"
    unfolding pos_def i_def by (simp add: mod_add_left_eq)
  moreover have "(h + k + ?r) mod N = (h + j) mod N"
    using assms(3) by (auto simp: add.commute add.left_commute)
  ultimately have "(h + k + ?l) mod N = (h + k + ?r) mod N" by simp
  then show ?thesis using l r by (rule mod_add_cancel_small)
qed

lemma ring_bytes_write:
  assumes "h < N" and "k + length src \<le> N"
  shows "ring_bytes N (wrap_write N m ((h + k) mod N) src) h (k + length src) =
         ring_bytes N m h k @ src"
proof (rule nth_equalityI)
  fix j
  assume "j < length (ring_bytes N (wrap_write N m ((h + k) mod N) src) h (k + length src))"
  then have j: "j < k + length src" by simp
  have N: "0 < N" using assms by simp
  have "wrap_write N m ((h + k) mod N) src ((h + j) mod N) =
      (let o' = (if k \<le> j then j - k else j + N - k)
       in if o' < length src then src ! o' else m ((h + j) mod N))"
    using ring_offset [OF N j assms(2), of h] N assms(2) by (subst wrap_write_at) simp_all
  then show "ring_bytes N (wrap_write N m ((h + k) mod N) src) h (k + length src) ! j =
      (ring_bytes N m h k @ src) ! j"
    using j assms(2) by (auto simp: ring_bytes_def nth_append Let_def)
qed simp

section \<open>The interface of a ring\<close>

text \<open>
  \<open>content\<close> is what a reader would get; \<open>put\<close> appends as long as the capacity allows, \<open>get\<close>
  takes from the front.
\<close>

locale byte_fifo =
  fixes ok :: "'s \<Rightarrow> bool"
    and content :: "'s \<Rightarrow> u8 list"
    and cap :: nat
    and put :: "'s \<Rightarrow> u8 list \<Rightarrow> 's"
    and get :: "'s \<Rightarrow> nat \<Rightarrow> u8 list \<times> 's"
  assumes put_ok: "ok s \<Longrightarrow> length (content s) + length xs \<le> cap \<Longrightarrow> ok (put s xs)"
    and put_content:
      "ok s \<Longrightarrow> length (content s) + length xs \<le> cap \<Longrightarrow> content (put s xs) = content s @ xs"
    and get_ok: "ok s \<Longrightarrow> n \<le> length (content s) \<Longrightarrow> ok (snd (get s n))"
    and get_bytes: "ok s \<Longrightarrow> n \<le> length (content s) \<Longrightarrow> fst (get s n) = take n (content s)"
    and get_content:
      "ok s \<Longrightarrow> n \<le> length (content s) \<Longrightarrow> content (snd (get s n)) = drop n (content s)"
begin

text \<open>A record written in two parts, and read in two.\<close>

lemma put_two:
  assumes "ok s" and "length (content s) + (length xs + length ys) \<le> cap"
  shows "ok (put (put s xs) ys)" and "content (put (put s xs) ys) = content s @ xs @ ys"
  using assms by (simp_all add: put_ok put_content)

lemma get_two:
  assumes "ok s" and "content s = xs @ ys @ zs"
  shows "fst (get s (length xs)) = xs"
    and "fst (get (snd (get s (length xs))) (length ys)) = ys"
    and "ok (snd (get (snd (get s (length xs))) (length ys)))"
    and "content (snd (get (snd (get s (length xs))) (length ys))) = zs"
  using assms by (simp_all add: get_ok get_bytes get_content)

end

end
