(* ===== verification/Rx_Queue.thy ===== *)
theory Rx_Queue
  imports J2534 Byte_Ring "HOL-Library.Sublist"
begin

text \<open>
  The receive queue of a channel (src/op_device.c and \<open>op_channel\<close> in src/op_device.h): a ring
  of 1 MiB in which a message is a 24-byte header and its data. \<open>queue_push\<close> drops the
  arriving message when it does not fit; the pop half is the body of \<open>op_device_pop\<close>.
\<close>

unbundle bit_operations_syntax

section \<open>Channels\<close>

definition OP_RXQ_BYTES :: nat where "OP_RXQ_BYTES = 1024 * 1024"
definition OP_PERIODIC_PER_CH :: nat where [simp]: "OP_PERIODIC_PER_CH = 10"

lemma OP_RXQ_BYTES_pos [simp]: "0 < OP_RXQ_BYTES"
  by (simp add: OP_RXQ_BYTES_def)

record op_channel =
  ch_open :: bool
  ch_protocol :: u32
  partial :: PASSTHRU_MSG
  partial_active :: bool
  ext_announced :: bool
  rq :: "mem option"
  rq_head :: nat
  rq_tail :: nat
  rq_used :: nat
  qcount :: nat
  dropped :: u32
  periodic :: "nat \<Rightarrow> u32"
  nperiodic :: nat

text \<open>\<open>memset(c, 0, sizeof *c); c->rq = rq\<close>.\<close>

definition channel0 :: "mem option \<Rightarrow> op_channel" where
  "channel0 r = \<lparr>ch_open = False, ch_protocol = 0, partial = msg0, partial_active = False,
     ext_announced = False, rq = r, rq_head = 0, rq_tail = 0, rq_used = 0, qcount = 0,
     dropped = 0, periodic = (\<lambda>_. 0), nperiodic = 0\<rparr>"

text \<open>Both use the buffer only when there is one; \<open>queue_push\<close> and \<open>op_device_pop\<close> see to it.\<close>

definition ring_put :: "op_channel \<Rightarrow> u8 list \<Rightarrow> op_channel" where
  "ring_put c src =
     c\<lparr>rq := map_option (\<lambda>m. wrap_write OP_RXQ_BYTES m (rq_tail c) src) (rq c),
       rq_tail := (rq_tail c + length src) mod OP_RXQ_BYTES\<rparr>"

definition ring_get :: "op_channel \<Rightarrow> nat \<Rightarrow> u8 list \<times> op_channel" where
  "ring_get c n =
     ((case rq c of None \<Rightarrow> replicate n 0 | Some m \<Rightarrow> wrap_read OP_RXQ_BYTES m (rq_head c) n),
      c\<lparr>rq_head := (rq_head c + n) mod OP_RXQ_BYTES\<rparr>)"

section \<open>The queued form of a message\<close>

record op_qhdr =
  h_protocol :: u32
  h_rx_status :: u32
  h_tx_flags :: u32
  h_timestamp :: u32
  h_size :: u32
  h_extra :: u32

text \<open>
  The structure as it lies in memory: six 32-bit fields without padding, little-endian (the byte
  order of every platform the driver is built for; both copies are made by the same machine, so
  nothing depends on it).
\<close>

definition le32 :: "u32 \<Rightarrow> u8 list" where
  "le32 x = [ucast x, ucast (drop_bit 8 x), ucast (drop_bit 16 x), ucast (drop_bit 24 x)]"

definition rd_le32 :: "u8 list \<Rightarrow> u32" where
  "rd_le32 p = ucast (p ! 0) OR push_bit 8 (ucast (p ! 1)) OR push_bit 16 (ucast (p ! 2)) OR
               push_bit 24 (ucast (p ! 3))"

definition hdr_bytes :: "op_qhdr \<Rightarrow> u8 list" where
  "hdr_bytes h = le32 (h_protocol h) @ le32 (h_rx_status h) @ le32 (h_tx_flags h) @
                 le32 (h_timestamp h) @ le32 (h_size h) @ le32 (h_extra h)"

definition hdr_of_bytes :: "u8 list \<Rightarrow> op_qhdr" where
  "hdr_of_bytes b = \<lparr>h_protocol = rd_le32 b, h_rx_status = rd_le32 (drop 4 b),
     h_tx_flags = rd_le32 (drop 8 b), h_timestamp = rd_le32 (drop 12 b),
     h_size = rd_le32 (drop 16 b), h_extra = rd_le32 (drop 20 b)\<rparr>"

definition sizeof_qhdr :: nat where [simp]: "sizeof_qhdr = 24"

section \<open>Push and pop\<close>

definition push_size :: "PASSTHRU_MSG \<Rightarrow> nat" where
  "push_size m = (if DataSize m \<le> of_nat J2534_MSG_DATA_MAX then unat (DataSize m)
                  else J2534_MSG_DATA_MAX)"

definition push_hdr :: "PASSTHRU_MSG \<Rightarrow> op_qhdr" where
  "push_hdr m = \<lparr>h_protocol = ucast (ProtocolID m), h_rx_status = ucast (RxStatus m),
     h_tx_flags = ucast (TxFlags m), h_timestamp = ucast (Timestamp m),
     h_size = of_nat (push_size m), h_extra = ucast (ExtraDataIndex m)\<rparr>"

definition queue_push :: "op_channel \<Rightarrow> PASSTHRU_MSG \<Rightarrow> op_channel" where
  "queue_push c m =
     (let size = push_size m in
      if rq c = None \<or> rq_used c + sizeof_qhdr + size > OP_RXQ_BYTES then
        c\<lparr>dropped := dropped c + 1\<rparr>
      else
        let c = ring_put c (hdr_bytes (push_hdr m));
            c = ring_put c (mem_read (Data m) 0 size)
        in c\<lparr>rq_used := rq_used c + (sizeof_qhdr + size), qcount := qcount c + 1\<rparr>)"

definition queue_pop :: "op_channel \<Rightarrow> PASSTHRU_MSG \<times> op_channel" where
  "queue_pop c =
     (let (hb, c) = ring_get c sizeof_qhdr;
          h = hdr_of_bytes hb;
          (d, c) = ring_get c (unat (h_size h));
          out = msg0\<lparr>ProtocolID := ucast (h_protocol h), RxStatus := ucast (h_rx_status h),
                  TxFlags := ucast (h_tx_flags h), Timestamp := ucast (h_timestamp h),
                  DataSize := ucast (h_size h), ExtraDataIndex := ucast (h_extra h),
                  Data := mem_write (\<lambda>_. 0) 0 d\<rparr>
      in (out, c\<lparr>rq_used := rq_used c - (sizeof_qhdr + unat (h_size h)),
                 qcount := qcount c - 1\<rparr>))"

definition flush_locked :: "op_channel \<Rightarrow> op_channel" where
  "flush_locked c = c\<lparr>rq_head := 0, rq_tail := 0, rq_used := 0, qcount := 0,
     partial_active := False, ext_announced := False, dropped := 0\<rparr>"

section \<open>The ring provides the byte queue\<close>

text \<open>A channel with the number of bytes its ring holds.\<close>

definition ring_ok :: "op_channel \<times> nat \<Rightarrow> bool" where
  "ring_ok s \<longleftrightarrow> (case s of (c, k) \<Rightarrow>
     rq c \<noteq> None \<and> rq_head c < OP_RXQ_BYTES \<and> k \<le> OP_RXQ_BYTES \<and>
     rq_tail c = (rq_head c + k) mod OP_RXQ_BYTES)"

definition ring_content :: "op_channel \<times> nat \<Rightarrow> u8 list" where
  "ring_content s = (case s of (c, k) \<Rightarrow>
     (case rq c of None \<Rightarrow> [] | Some m \<Rightarrow> ring_bytes OP_RXQ_BYTES m (rq_head c) k))"

definition ring_put_n :: "op_channel \<times> nat \<Rightarrow> u8 list \<Rightarrow> op_channel \<times> nat" where
  "ring_put_n s xs = (case s of (c, k) \<Rightarrow> (ring_put c xs, k + length xs))"

definition ring_get_n :: "op_channel \<times> nat \<Rightarrow> nat \<Rightarrow> u8 list \<times> op_channel \<times> nat" where
  "ring_get_n s n = (case s of (c, k) \<Rightarrow> (fst (ring_get c n), snd (ring_get c n), k - n))"

lemma ring_content_length: "ring_ok (c, k) \<Longrightarrow> length (ring_content (c, k)) = k"
  by (auto simp: ring_ok_def ring_content_def)

interpretation rxq: byte_fifo ring_ok ring_content OP_RXQ_BYTES ring_put_n ring_get_n
proof (unfold_locales, goal_cases)
  case (1 s xs)
  then show ?case
    by (cases s) (auto simp: ring_content_length ring_put_n_def ring_put_def ring_ok_def
        mod_add_left_eq add.assoc)
next
  case (2 s xs)
  then obtain c k m where s: "s = (c, k)" "rq c = Some m"
    by (cases s) (auto simp: ring_ok_def)
  with 2 show ?case
    by (simp add: ring_content_length)
      (simp add: ring_content_def ring_put_n_def ring_put_def ring_ok_def ring_bytes_write)
next
  case (3 s n)
  then show ?case
    by (cases s) (auto simp: ring_content_length ring_get_n_def ring_get_def ring_ok_def
        mod_add_left_eq)
next
  case (4 s n)
  then obtain c k m where s: "s = (c, k)" "rq c = Some m"
    by (cases s) (auto simp: ring_ok_def)
  with 4 have "n \<le> k" by (simp add: ring_content_length)
  with 4 s show ?case
    by (simp add: ring_content_def ring_get_n_def ring_get_def ring_ok_def ring_bytes_take
        wrap_read_eq)
next
  case (5 s n)
  then obtain c k m where s: "s = (c, k)" "rq c = Some m"
    by (cases s) (auto simp: ring_ok_def)
  with 5 have "n \<le> k" by (simp add: ring_content_length)
  with 5 s show ?case
    by (simp add: ring_content_def ring_get_n_def ring_get_def ring_bytes_drop)
qed

section \<open>Headers survive the ring\<close>

lemma rd_le32_le32 [simp]: "rd_le32 (le32 x @ s) = x" "rd_le32 (le32 x) = x"
proof -
  have *: "rd_le32 (le32 x @ s) = x" for s
  proof (rule bit_word_eqI)
    fix n
    assume "n < LENGTH(32)"
    then consider "24 \<le> n" "n < 32" | "16 \<le> n" "n < 24" | "8 \<le> n" "n < 16" | "n < 8"
      by fastforce
    then show "bit (rd_le32 (le32 x @ s)) n \<longleftrightarrow> bit x n"
      by cases (auto simp: rd_le32_def le32_def bit_simps)
  qed
  from * show "rd_le32 (le32 x @ s) = x" .
  from * [of "[]"] show "rd_le32 (le32 x) = x" by simp
qed

lemma length_le32 [simp]: "length (le32 x) = 4"
  by (simp add: le32_def)

lemma length_hdr_bytes [simp]: "length (hdr_bytes h) = 24"
  by (simp add: hdr_bytes_def)

lemma hdr_of_bytes_bytes [simp]: "hdr_of_bytes (hdr_bytes h) = h"
  by (simp add: hdr_of_bytes_def hdr_bytes_def)

section \<open>The queue of messages\<close>

text \<open>
  What a pop gives back for a pushed message: the header fields cut to the 32 bits that are
  stored, the size cut to the array, and the data, the rest of the array zero.
\<close>

definition stored :: "PASSTHRU_MSG \<Rightarrow> PASSTHRU_MSG" where
  "stored m = msg0\<lparr>ProtocolID := ucast (ucast (ProtocolID m) :: u32),
     RxStatus := ucast (ucast (RxStatus m) :: u32), TxFlags := ucast (ucast (TxFlags m) :: u32),
     Timestamp := ucast (ucast (Timestamp m) :: u32), DataSize := of_nat (push_size m),
     ExtraDataIndex := ucast (ucast (ExtraDataIndex m) :: u32),
     Data := mem_write (\<lambda>_. 0) 0 (mem_read (Data m) 0 (push_size m))\<rparr>"

definition entry_bytes :: "PASSTHRU_MSG \<Rightarrow> u8 list" where
  "entry_bytes m = hdr_bytes (push_hdr m) @ mem_read (Data m) 0 (push_size m)"

lemma push_size_le: "push_size m \<le> 4128"
  by (auto simp: push_size_def word_le_nat_alt)

lemma length_entry_bytes: "length (entry_bytes m) = 24 + push_size m"
  by (simp add: entry_bytes_def)

text \<open>
  The abstraction: channel \<open>c\<close> holds the messages \<open>ms\<close>, oldest first.
\<close>

definition chan_rep :: "op_channel \<Rightarrow> PASSTHRU_MSG list \<Rightarrow> bool" where
  "chan_rep c ms \<longleftrightarrow> ring_ok (c, rq_used c) \<and>
     ring_content (c, rq_used c) = concat (map entry_bytes ms) \<and> qcount c = length ms"

definition has_room :: "op_channel \<Rightarrow> PASSTHRU_MSG \<Rightarrow> bool" where
  "has_room c m \<longleftrightarrow> rq_used c + sizeof_qhdr + push_size m \<le> OP_RXQ_BYTES"

lemma ring_frame:
  assumes "rq c' = rq c" and "rq_head c' = rq_head c" and "rq_tail c' = rq_tail c"
  shows "ring_ok (c', k) = ring_ok (c, k)" and "ring_content (c', k) = ring_content (c, k)"
  using assms by (simp_all add: ring_ok_def ring_content_def split: option.split)

text \<open>Only the ring's own fields matter.\<close>

lemma chan_rep_frame:
  assumes "rq c' = rq c" and "rq_head c' = rq_head c" and "rq_tail c' = rq_tail c"
    and "rq_used c' = rq_used c" and "qcount c' = qcount c"
  shows "chan_rep c' ms = chan_rep c ms"
  using assms ring_frame [of c' c] by (simp add: chan_rep_def)

lemma chan_rep_rq: "chan_rep c ms \<Longrightarrow> rq c \<noteq> None"
  by (simp add: chan_rep_def ring_ok_def)

lemma push_full:
  assumes "\<not> has_room c m"
  shows "queue_push c m = c\<lparr>dropped := dropped c + 1\<rparr>"
  using assms by (simp add: queue_push_def has_room_def Let_def)

lemma push_room:
  assumes "chan_rep c ms" and "has_room c m"
  shows "chan_rep (queue_push c m) (ms @ [m])" and "dropped (queue_push c m) = dropped c"
proof -
  let ?h = "hdr_bytes (push_hdr m)" and ?d = "mem_read (Data m) 0 (push_size m)"
  let ?c = "ring_put (ring_put c ?h) ?d"
  have ok: "ring_ok (c, rq_used c)" using assms(1) by (simp add: chan_rep_def)
  note k = ring_content_length [OF ok]
  have two: "ring_put_n (ring_put_n (c, rq_used c) ?h) ?d = (?c, rq_used c + (24 + push_size m))"
    by (simp add: ring_put_n_def)
  have room: "length (ring_content (c, rq_used c)) + (length ?h + length ?d) \<le> OP_RXQ_BYTES"
    using assms(2) k by (simp add: has_room_def)
  note put = rxq.put_two [OF ok room, unfolded two]
  have used: "rq_used ?c = rq_used c" "qcount ?c = qcount c" "dropped ?c = dropped c"
    by (simp_all add: ring_put_def)
  have push: "queue_push c m = ?c\<lparr>rq_used := rq_used c + (24 + push_size m), qcount := qcount c + 1\<rparr>"
    using assms(2) chan_rep_rq [OF assms(1)] used
    by (auto simp: queue_push_def has_room_def Let_def)
  show "chan_rep (queue_push c m) (ms @ [m])"
    using put assms(1) ring_frame [of "queue_push c m" ?c] unfolding push
    by (simp add: chan_rep_def entry_bytes_def)
  show "dropped (queue_push c m) = dropped c"
    unfolding push by (simp add: used)
qed

lemma pop_first:
  assumes "chan_rep c (m # ms)"
  shows "fst (queue_pop c) = stored m" and "chan_rep (snd (queue_pop c)) ms"
    and "dropped (snd (queue_pop c)) = dropped c"
proof -
  let ?h = "hdr_bytes (push_hdr m)" and ?d = "mem_read (Data m) 0 (push_size m)"
  let ?k = "rq_used c"
  have ok: "ring_ok (c, ?k)"
    and con: "ring_content (c, ?k) = ?h @ ?d @ concat (map entry_bytes ms)"
    using assms by (auto simp: chan_rep_def entry_bytes_def)
  have k: "?k = 24 + (push_size m + length (concat (map entry_bytes ms)))"
    using ring_content_length [OF ok] con by (metis length_append length_hdr_bytes length_mem_read)
  note get = rxq.get_two [OF ok con]
  have hb: "fst (ring_get c 24) = ?h"
    using get(1) by (simp add: ring_get_n_def)
  have d: "fst (ring_get (snd (ring_get c 24)) (push_size m)) = ?d"
    using get(2) by (simp add: ring_get_n_def)
  have size: "unat (h_size (push_hdr m)) = push_size m"
    using push_size_le [of m] by (simp add: push_hdr_def unat_of_nat)
  have usize: "(ucast (h_size (push_hdr m)) :: u64) = of_nat (push_size m)"
    using push_size_le [of m] by (simp add: push_hdr_def unsigned_of_nat take_bit_nat_eq_self)
  let ?c = "snd (ring_get (snd (ring_get c 24)) (push_size m))"
  have same: "rq_used ?c = ?k" "qcount ?c = qcount c" "dropped ?c = dropped c"
    by (simp_all add: ring_get_def)
  have pop: "queue_pop c = (stored m,
      ?c\<lparr>rq_used := ?k - (24 + push_size m), qcount := qcount c - 1\<rparr>)"
    using hb d size usize same
    by (simp add: queue_pop_def stored_def Let_def split_beta) (simp add: push_hdr_def)
  show "fst (queue_pop c) = stored m" unfolding pop by simp
  show "dropped (snd (queue_pop c)) = dropped c" unfolding pop by (simp add: same)
  have "ring_ok (?c, ?k - 24 - push_size m)"
    and "ring_content (?c, ?k - 24 - push_size m) = concat (map entry_bytes ms)"
    using get(3,4) by (simp_all add: ring_get_n_def)
  then show "chan_rep (snd (queue_pop c)) ms"
    using assms ring_frame [of "snd (queue_pop c)" ?c] unfolding pop by (simp add: chan_rep_def)
qed

section \<open>The interface of a message queue\<close>

text \<open>
  What the layers above rely on, as an abstract machine: the state is the list of the messages
  held, oldest first, and the number lost. An arrival that does not fit is counted and changes
  nothing else; a take gives the oldest; a flush empties the queue and resets the count.
\<close>

datatype 'm queue_op = Arrive 'm | Take | Flush

fun spec_step ::
  "('m list \<Rightarrow> 'm \<Rightarrow> bool) \<Rightarrow> ('m \<Rightarrow> 'm) \<Rightarrow> 'm queue_op \<Rightarrow> 'm list \<times> 'n::comm_semiring_1 \<Rightarrow>
   'm list \<times> 'm list \<times> 'n" where
  "spec_step fits view (Arrive m) (ms, l) = ([], if fits ms m then (ms @ [m], l) else (ms, l + 1))"
| "spec_step fits view Take (ms, l) =
     (case ms of [] \<Rightarrow> ([], [], l) | m # ms' \<Rightarrow> ([view m], ms', l))"
| "spec_step fits view Flush (ms, l) = ([], [], 0)"

fun run_ops :: "('o \<Rightarrow> 's \<Rightarrow> 'm list \<times> 's) \<Rightarrow> 'o list \<Rightarrow> 's \<Rightarrow> 'm list \<times> 's" where
  "run_ops step [] s = ([], s)"
| "run_ops step (x # xs) s =
     (let (out, s') = step x s; (outs, s'') = run_ops step xs s' in (out @ outs, s''))"

locale msg_fifo =
  fixes rep :: "'c \<Rightarrow> 'm list \<Rightarrow> bool"
    and fits :: "'m list \<Rightarrow> 'm \<Rightarrow> bool"
    and step :: "'m queue_op \<Rightarrow> 'c \<Rightarrow> 'm list \<times> 'c"
    and view :: "'m \<Rightarrow> 'm"
    and lost :: "'c \<Rightarrow> 'n::comm_semiring_1"
  assumes step_refines: "rep c ms \<Longrightarrow>
      fst (step x c) = fst (spec_step fits view x (ms, lost c)) \<and>
      rep (snd (step x c)) (fst (snd (spec_step fits view x (ms, lost c)))) \<and>
      lost (snd (step x c)) = snd (snd (spec_step fits view x (ms, lost c)))"
begin

lemma run_refines:
  "rep c ms \<Longrightarrow>
     fst (run_ops step xs c) = fst (run_ops (spec_step fits view) xs (ms, lost c)) \<and>
     rep (snd (run_ops step xs c)) (fst (snd (run_ops (spec_step fits view) xs (ms, lost c)))) \<and>
     lost (snd (run_ops step xs c)) = snd (snd (run_ops (spec_step fits view) xs (ms, lost c)))"
proof (induction xs arbitrary: c ms)
  case Nil
  then show ?case by simp
next
  case (Cons x xs)
  obtain o1 c1 where c: "step x c = (o1, c1)" by force
  obtain o2 ms1 l1 where a: "spec_step fits view x (ms, lost c) = (o2, ms1, l1)"
    by (metis prod_cases3)
  from step_refines [OF Cons.prems, of x] c a
  have "o1 = o2" "rep c1 ms1" "lost c1 = l1" by simp_all
  with Cons.IH [of c1 ms1] c a show ?case by (simp add: split_beta)
qed

text \<open>Arrivals that all fit come out in the order they went in.\<close>

lemma arrivals_fit:
  assumes "rep c ms" and "\<And>ys y zs. xs = ys @ y # zs \<Longrightarrow> fits (ms @ ys) y"
  shows "rep (snd (run_ops step (map Arrive xs) c)) (ms @ xs) \<and>
         lost (snd (run_ops step (map Arrive xs) c)) = lost c"
  using assms
proof (induction xs arbitrary: c ms)
  case Nil
  then show ?case by simp
next
  case (Cons x xs)
  have "fits ms x" using Cons.prems(2) [of "[]" x xs] by simp
  with step_refines [OF Cons.prems(1), of "Arrive x"]
  have s: "rep (snd (step (Arrive x) c)) (ms @ [x])" "lost (snd (step (Arrive x) c)) = lost c"
    by auto
  have "fits ((ms @ [x]) @ ys) y" if "xs = ys @ y # zs" for ys y zs
    using Cons.prems(2) [of "x # ys" y zs] that by simp
  from Cons.IH [OF s(1) this] s(2) show ?case by (simp add: split_beta)
qed

end

section \<open>The channel provides it\<close>

text \<open>
  \<open>op_device_pop\<close> waits while \<open>qcount\<close> is 0, so a take of an empty queue gives nothing.
\<close>

fun chan_step :: "PASSTHRU_MSG queue_op \<Rightarrow> op_channel \<Rightarrow> PASSTHRU_MSG list \<times> op_channel" where
  "chan_step (Arrive m) c = ([], queue_push c m)"
| "chan_step Take c =
     (if qcount c = 0 then ([], c) else let (m, c') = queue_pop c in ([m], c'))"
| "chan_step Flush c = ([], flush_locked c)"

definition held_bytes :: "PASSTHRU_MSG list \<Rightarrow> nat" where
  "held_bytes ms = (\<Sum>m\<leftarrow>ms. 24 + push_size m)"

definition queue_fits :: "PASSTHRU_MSG list \<Rightarrow> PASSTHRU_MSG \<Rightarrow> bool" where
  "queue_fits ms m \<longleftrightarrow> held_bytes (ms @ [m]) \<le> OP_RXQ_BYTES"

lemma held_bytes_simps [simp]:
  "held_bytes [] = 0" "held_bytes (m # ms) = 24 + push_size m + held_bytes ms"
  "held_bytes (ms @ ns) = held_bytes ms + held_bytes ns"
  by (simp_all add: held_bytes_def)

lemma length_entries: "length (concat (map entry_bytes ms)) = held_bytes ms"
  by (induction ms) (simp_all add: length_entry_bytes)

lemma chan_rep_used: "chan_rep c ms \<Longrightarrow> rq_used c = held_bytes ms"
  by (metis chan_rep_def length_entries ring_content_length)

lemma has_room_fits: "chan_rep c ms \<Longrightarrow> has_room c m \<longleftrightarrow> queue_fits ms m"
  by (simp add: has_room_def queue_fits_def chan_rep_used add.assoc)

lemma chan_rep_empty:
  assumes "rq c \<noteq> None" and "rq_used c = 0" and "qcount c = 0"
    and "rq_head c < OP_RXQ_BYTES" and "rq_tail c = rq_head c"
  shows "chan_rep c []"
  using assms by (auto simp: chan_rep_def ring_ok_def ring_content_def)

lemma channel0_rep [simp]: "chan_rep (channel0 (Some m)) []"
  by (rule chan_rep_empty) (simp_all add: channel0_def)

lemma flush_rep: "rq c \<noteq> None \<Longrightarrow> chan_rep (flush_locked c) []"
  by (rule chan_rep_empty) (simp_all add: flush_locked_def)

interpretation mq: msg_fifo chan_rep queue_fits chan_step stored dropped
proof (unfold_locales, goal_cases)
  case (1 c ms x)
  show ?case
  proof (cases x)
    case (Arrive m)
    show ?thesis
    proof (cases "has_room c m")
      case True
      with 1 Arrive push_room [OF 1 True] show ?thesis by (simp add: has_room_fits)
    next
      case False
      with 1 Arrive chan_rep_frame [of "c\<lparr>dropped := dropped c + 1\<rparr>" c ms] show ?thesis
        by (simp add: has_room_fits push_full)
    qed
  next
    case Take
    with 1 pop_first [of c] show ?thesis
      by (cases ms) (auto simp: chan_rep_def split_beta)
  next
    case Flush
    with 1 flush_rep [OF chan_rep_rq [OF 1]] show ?thesis by (simp add: flush_locked_def)
  qed
qed

section \<open>What a queued message keeps\<close>

lemma ucast_small:
  assumes "x < 2 ^ 32"
  shows "ucast (ucast (x :: u64) :: u32) = x"
proof -
  from assms have "unat x < 4294967296" by (simp add: word_less_nat_alt)
  then show ?thesis
    by (simp add: word_unat_eq_iff unsigned_ucast_eq take_bit_nat_eq_self take_bit_eq_mod unat_mod)
qed

lemma msg_size_of_nat: "n \<le> 4128 \<Longrightarrow> unat (of_nat n :: u64) = n"
  by (simp add: unat_of_nat)

lemma msg_bytes_stored: "msg_bytes (stored m) = mem_read (Data m) 0 (push_size m)"
proof -
  have "msg_size (stored m) = push_size m"
    by (simp add: msg_size_def stored_def msg_size_of_nat push_size_le)
  then show ?thesis
    using mem_read_write [of "\<lambda>_. 0" 0 "mem_read (Data m) 0 (push_size m)"]
    by (simp add: msg_bytes_def stored_def)
qed

lemma push_size_small: "msg_size m \<le> 4128 \<Longrightarrow> push_size m = msg_size m"
  by (auto simp: push_size_def msg_size_def word_le_nat_alt)

section \<open>Properties\<close>

text \<open>C15. The ring of bytes implements a bounded queue of messages: for every sequence of
  arrivals, takes and flushes, what the takes give, what is held afterwards and the loss count
  are those of the abstract queue, in which a message is kept exactly when 24 bytes and its data
  still fit in 1 MiB beside the messages held, and an arriving message that does not fit is
  dropped and counted.\<close>

theorem queue_refines:
  assumes "chan_rep c ms"
  shows "fst (run_ops chan_step xs c) =
           fst (run_ops (spec_step queue_fits stored) xs (ms, dropped c)) \<and>
         chan_rep (snd (run_ops chan_step xs c))
           (fst (snd (run_ops (spec_step queue_fits stored) xs (ms, dropped c)))) \<and>
         dropped (snd (run_ops chan_step xs c)) =
           snd (snd (run_ops (spec_step queue_fits stored) xs (ms, dropped c)))"
  using assms by (rule mq.run_refines)

theorem queue_refines_witness:
  "fst (run_ops chan_step [Arrive (msg0\<lparr>RxStatus := 1\<rparr>), Arrive (msg0\<lparr>RxStatus := 2\<rparr>), Take, Take, Take]
     (channel0 (Some (\<lambda>_. 0)))) = [stored (msg0\<lparr>RxStatus := 1\<rparr>), stored (msg0\<lparr>RxStatus := 2\<rparr>)]"
  using queue_refines [OF channel0_rep, of "[Arrive (msg0\<lparr>RxStatus := 1\<rparr>),
    Arrive (msg0\<lparr>RxStatus := 2\<rparr>), Take, Take, Take]" "\<lambda>_. 0"]
  by (simp add: queue_fits_def push_size_def OP_RXQ_BYTES_def)

text \<open>A message whose fields fit 32 bits and whose size fits the data array comes out of the
  queue as it went in: every header field and every data byte.\<close>

lemma push_pop_exact:
  assumes "chan_rep c []" and "msg_size m \<le> J2534_MSG_DATA_MAX"
    and "ProtocolID m < 2 ^ 32" and "RxStatus m < 2 ^ 32" and "TxFlags m < 2 ^ 32"
    and "Timestamp m < 2 ^ 32" and "ExtraDataIndex m < 2 ^ 32"
  shows "\<exists>m'. fst (queue_pop (queue_push c m)) = m' \<and> ProtocolID m' = ProtocolID m \<and>
    RxStatus m' = RxStatus m \<and> TxFlags m' = TxFlags m \<and> Timestamp m' = Timestamp m \<and>
    DataSize m' = DataSize m \<and> ExtraDataIndex m' = ExtraDataIndex m \<and> msg_bytes m' = msg_bytes m"
proof -
  from assms(2) have size: "push_size m = msg_size m" by (simp add: push_size_small)
  have "has_room c m"
    using push_size_le [of m] chan_rep_used [OF assms(1)]
    by (simp add: has_room_def OP_RXQ_BYTES_def)
  from push_room [OF assms(1) this] have "chan_rep (queue_push c m) [m]" by simp
  then have pop: "fst (queue_pop (queue_push c m)) = stored m" by (rule pop_first)
  have bytes: "msg_bytes (stored m) = msg_bytes m"
    unfolding msg_bytes_stored by (simp add: msg_bytes_def size)
  show ?thesis
    unfolding pop using assms(3-) size bytes
    by (simp add: stored_def ucast_small msg_size_def)
qed

text \<open>Memory safety of the ring: a push writes no byte outside the buffer of 1 MiB and
  leaves both offsets inside it.\<close>

lemma push_in_bounds:
  assumes "rq c = Some mm" and "rq_head c < OP_RXQ_BYTES" and "rq_tail c < OP_RXQ_BYTES"
  shows "\<exists>mm'. rq (queue_push c m) = Some mm' \<and> (\<forall>i\<ge>OP_RXQ_BYTES. mm' i = mm i) \<and>
    rq_head (queue_push c m) < OP_RXQ_BYTES \<and> rq_tail (queue_push c m) < OP_RXQ_BYTES"
proof (cases "has_room c m")
  case True
  then have "24 + push_size m \<le> OP_RXQ_BYTES" by (simp add: has_room_def)
  with True assms show ?thesis
    by (auto simp: queue_push_def has_room_def ring_put_def Let_def wrap_write_outside)
next
  case False
  with assms show ?thesis by (simp add: push_full)
qed

text \<open>Dropping the arriving message does not keep the sequence contiguous: when a large
  message is dropped and a smaller one still fits, the smaller one is queued behind the messages
  held, so the reader sees a sequence with a hole that only the loss count tells of.\<close>

lemma queue_push_hole:
  assumes "chan_rep c ms" and "\<not> queue_fits ms big" and "queue_fits ms small"
  shows "chan_rep (queue_push (queue_push c big) small) (ms @ [small]) \<and>
         dropped (queue_push (queue_push c big) small) = dropped c + 1"
  using mq.run_refines [OF assms(1), of "[Arrive big, Arrive small]"] assms(2,3) by simp

definition big_msg :: PASSTHRU_MSG where
  "big_msg = msg0\<lparr>DataSize := 4072\<rparr>"

lemma held_big: "held_bytes (replicate n big_msg) = n * 4096"
proof -
  have "push_size big_msg = 4072" by (simp add: big_msg_def push_size_def)
  then show ?thesis by (induction n) simp_all
qed

lemma replicate_split:
  assumes "replicate n x = ys @ y # zs"
  shows "y = x" and "ys = replicate (length ys) x" and "length ys < n"
proof -
  have set: "set (ys @ y # zs) \<subseteq> {x}" unfolding assms [symmetric] by auto
  then show "y = x" by simp
  from set show "ys = replicate (length ys) x" by (intro replicate_eqI) auto
  show "length ys < n" using arg_cong [OF assms, of length] by simp
qed

lemma queue_filled:
  assumes "n \<le> 255"
  shows "chan_rep (snd (run_ops chan_step (map Arrive (replicate n big_msg)) (channel0 (Some (\<lambda>_. 0)))))
           (replicate n big_msg)"
proof -
  have "queue_fits ([] @ ys) y" if "replicate n big_msg = ys @ y # zs" for ys y zs
  proof -
    note split = replicate_split [OF that]
    from split(3) assms have "length ys + 1 \<le> 256" by simp
    then have "(length ys + 1) * 4096 \<le> 256 * 4096" by (rule mult_right_mono) simp
    moreover have "held_bytes ys = length ys * 4096" using split(2) held_big by metis
    moreover have "held_bytes [y] = 4096" using held_big [of 1] split(1) by simp
    ultimately show ?thesis by (simp add: queue_fits_def OP_RXQ_BYTES_def)
  qed
  with mq.arrivals_fit [OF channel0_rep, of "replicate n big_msg"] show ?thesis by simp
qed

end
