(* ===== verification/Reassembly.thy ===== *)
theory Reassembly
  imports Rx_Queue Proto_Parse
begin

text \<open>
  From wire frames to queued messages (src/op_device.c): which firmware channel a protocol id
  uses, indications, and \<open>absorb_frame\<close>, which folds one frame into the channel array. The
  condition variable a reader waits on is not part of the state: every wait is modelled as a
  re-check of its condition (theory \<open>Session\<close>).
\<close>

section \<open>Protocols and channels\<close>

definition OP_MAX_CHANNELS :: nat where [simp]: "OP_MAX_CHANNELS = 10"

definition op_protocol_channel :: "u64 \<Rightarrow> int" where
  "op_protocol_channel protocol =
     (if protocol = ISO9141 \<or> protocol = ISO9141_CH1 then 3
      else if protocol = ISO14230 \<or> protocol = ISO14230_CH1 then 4
      else if protocol = CAN \<or> protocol = CAN_CH1 then 5
      else if protocol = ISO15765 \<or> protocol = ISO15765_CH1 then 6
      else if protocol = ISO9141_CH2 then 7
      else if protocol = ISO14230_CH2 then 8
      else if protocol = ISO9141_CH3 then 9
      else -1)"

definition op_protocol_base :: "u64 \<Rightarrow> u64" where
  "op_protocol_base protocol =
     (if protocol = ISO9141_CH1 \<or> protocol = ISO9141_CH2 \<or> protocol = ISO9141_CH3 then ISO9141
      else if protocol = ISO14230_CH1 \<or> protocol = ISO14230_CH2 then ISO14230
      else if protocol = CAN_CH1 then CAN
      else if protocol = ISO15765_CH1 then ISO15765
      else protocol)"

section \<open>Queueing a frame\<close>

definition flag :: "u8 \<Rightarrow> u8 \<Rightarrow> bool" where
  "flag st b \<longleftrightarrow> st AND b \<noteq> 0"

text \<open>The message \<open>queue_frame\<close> builds.\<close>

definition frame_msg :: "u64 \<Rightarrow> op_reply \<Rightarrow> u64 \<Rightarrow> bool \<Rightarrow> bool \<Rightarrow> PASSTHRU_MSG" where
  "frame_msg protocol r status is_indication keep_data =
     (let take0 = (if keep_data then r_data_len r else 0);
          take' = (if take0 > J2534_MSG_DATA_MAX then J2534_MSG_DATA_MAX else take0);
          body = (case r_data r of None \<Rightarrow> [] | Some d \<Rightarrow> if take' > 0 then take take' d else [])
      in msg0\<lparr>ProtocolID := protocol, Timestamp := ucast (r_timestamp_us r), RxStatus := status,
           Data := mem_write (\<lambda>_. 0) 0 body, DataSize := of_nat take',
           ExtraDataIndex := (if is_indication then 0 else of_nat take')\<rparr>)"

definition queue_frame ::
  "op_channel \<Rightarrow> u64 \<Rightarrow> op_reply \<Rightarrow> u64 \<Rightarrow> bool \<Rightarrow> bool \<Rightarrow> op_channel" where
  "queue_frame c protocol r status is_indication keep_data =
     queue_push c (frame_msg protocol r status is_indication keep_data)"

definition indicate :: "op_channel \<Rightarrow> op_reply \<Rightarrow> u64 \<Rightarrow> bool \<Rightarrow> bool \<Rightarrow> op_channel" where
  "indicate c r status is_indication keep_data =
     queue_frame c (ucast (ch_protocol c)) r status is_indication keep_data"

section \<open>Absorbing a frame\<close>

text \<open>The data half of \<open>absorb_frame\<close>: the reassembly buffer and its completion.\<close>

definition absorb_data :: "op_channel \<Rightarrow> op_reply \<Rightarrow> u64 \<Rightarrow> bool \<Rightarrow> u64 \<Rightarrow> u64 \<Rightarrow> op_channel" where
  "absorb_data c r base loopback wide ext =
    (let (c, p, skip) =
       (if \<not> partial_active c then
          let p = msg0\<lparr>ProtocolID := ucast (ch_protocol c)\<rparr>;
              p = (if ext_announced c then p\<lparr>RxStatus := RxStatus p OR ISO15765_ADDR_TYPE\<rparr> else p)
          in (c\<lparr>ext_announced := False, partial_active := True\<rparr>, p, 0)
        else if base = ISO15765 then
          let p = partial c;
              skip = (if (RxStatus p OR ext) AND ISO15765_ADDR_TYPE \<noteq> 0 then 5 else 4)
          in (c, p, if r_data_len r < skip then 0 else skip)
        else (c, partial c, 0));
       p = p\<lparr>Timestamp := ucast (r_timestamp_us r)\<rparr>;
       p = (if loopback then p\<lparr>RxStatus := RxStatus p OR TX_MSG_TYPE\<rparr> else p);
       p = p\<lparr>RxStatus := RxStatus p OR (wide OR ext)\<rparr>;
       take0 = r_data_len r - skip;
       room = J2534_MSG_DATA_MAX - msg_size p;
       take' = (if take0 > room then room else take0);
       p = (case r_data r of
              None \<Rightarrow> p
            | Some d \<Rightarrow>
                if take' > 0 then
                  p\<lparr>Data := mem_write (Data p) (msg_size p) (take take' (drop skip d)),
                    DataSize := DataSize p + of_nat take'\<rparr>
                else p);
       p = p\<lparr>ExtraDataIndex := DataSize p\<rparr>;
       c = c\<lparr>partial := p\<rparr>
     in if flag (r_status r) OP_STS_END then (queue_push c p)\<lparr>partial_active := False\<rparr>
        else c)"

text \<open>A frame for a channel that is open.\<close>

definition absorb_open :: "op_channel \<Rightarrow> op_reply \<Rightarrow> op_channel" where
  "absorb_open c r =
    (let st = r_status r;
         base = op_protocol_base (ucast (ch_protocol c));
         loopback = flag st OP_STS_LOOPBACK;
         wide = (if (base = CAN \<or> base = ISO15765) \<and> flag st OP_STS_29BIT then CAN_29BIT_ID else 0);
         ext = (if base = ISO15765 \<and> flag st OP_STS_EXT_ADDR then ISO15765_ADDR_TYPE else 0)
     in
     if flag st OP_STS_TX_IND \<and> (base = CAN \<or> base = ISO15765) then
       indicate c r (TX_MSG_TYPE OR TX_DONE OR wide OR ext) True True
     else if base = CAN then
       indicate c r ((if loopback then TX_MSG_TYPE else 0) OR wide) False True
     else if flag st OP_STS_START \<and> \<not> flag st OP_STS_END then
       let c = c\<lparr>partial_active := False, ext_announced := (ext \<noteq> 0)\<rparr> in
       if loopback \<and> base \<noteq> ISO15765 then indicate c r ISO15765_FIRST_FRAME True False
       else indicate c r
              ((if loopback then TX_MSG_TYPE OR TX_DONE else ISO15765_FIRST_FRAME) OR wide OR ext)
              True (\<not> loopback)
     else absorb_data c r base loopback wide ext)"

definition absorb_frame :: "(nat \<Rightarrow> op_channel) \<Rightarrow> op_reply \<Rightarrow> (nat \<Rightarrow> op_channel)" where
  "absorb_frame chs r =
    (if OP_MAX_CHANNELS \<le> unat (r_channel r) then chs
     else
       let k = unat (r_channel r); c = chs k in
       if \<not> ch_open c then
         let can = op_protocol_channel CAN; iso = op_protocol_channel ISO15765 in
         if int k = can \<and> flag (r_status r) OP_STS_LOOPBACK \<and> ch_open (chs (nat iso)) then
           chs(nat iso := queue_frame (chs (nat iso)) CAN r
                 (TX_MSG_TYPE OR (if flag (r_status r) OP_STS_29BIT then CAN_29BIT_ID else 0))
                 False True)
         else chs
       else chs(k := absorb_open c r))"

section \<open>Fields a frame leaves alone\<close>

lemma queue_push_fields [simp]:
  "ch_open (queue_push c m) = ch_open c" "ch_protocol (queue_push c m) = ch_protocol c"
  "partial (queue_push c m) = partial c" "partial_active (queue_push c m) = partial_active c"
  "ext_announced (queue_push c m) = ext_announced c" "periodic (queue_push c m) = periodic c"
  "nperiodic (queue_push c m) = nperiodic c"
  by (simp_all add: queue_push_def ring_put_def Let_def)

lemma indicate_fields [simp]:
  "ch_open (indicate c r st i k) = ch_open c" "ch_protocol (indicate c r st i k) = ch_protocol c"
  "partial (indicate c r st i k) = partial c"
  "partial_active (indicate c r st i k) = partial_active c"
  "ext_announced (indicate c r st i k) = ext_announced c"
  "periodic (indicate c r st i k) = periodic c" "nperiodic (indicate c r st i k) = nperiodic c"
  by (simp_all add: indicate_def queue_frame_def)

lemma absorb_data_fields [simp]:
  "ch_open (absorb_data c r b l w e) = ch_open c"
  "ch_protocol (absorb_data c r b l w e) = ch_protocol c"
  "periodic (absorb_data c r b l w e) = periodic c"
  "nperiodic (absorb_data c r b l w e) = nperiodic c"
  by (simp_all add: absorb_data_def Let_def split_beta)

lemma absorb_open_fields [simp]:
  "ch_open (absorb_open c r) = ch_open c" "ch_protocol (absorb_open c r) = ch_protocol c"
  "periodic (absorb_open c r) = periodic c" "nperiodic (absorb_open c r) = nperiodic c"
  by (simp_all add: absorb_open_def Let_def)

section \<open>What a frame message holds\<close>

definition r_bytes :: "op_reply \<Rightarrow> u8 list" where
  "r_bytes r = (case r_data r of None \<Rightarrow> [] | Some d \<Rightarrow> d)"

lemma length_r_bytes: "length (r_bytes r) = r_data_len r"
  by (simp add: r_bytes_def r_data_len_def split: option.split)

lemma r_data_len_None [simp]: "r_data r = None \<Longrightarrow> r_data_len r = 0"
  by (simp add: r_data_len_def)

lemma mem_read_write_len: "length xs = n \<Longrightarrow> mem_read (mem_write m off xs) off n = xs"
  using mem_read_write by auto

lemma frame_msg_fields:
  "ProtocolID (frame_msg p r st i k) = p" "RxStatus (frame_msg p r st i k) = st"
  "Timestamp (frame_msg p r st i k) = ucast (r_timestamp_us r)"
  "TxFlags (frame_msg p r st i k) = 0"
  "ExtraDataIndex (frame_msg p r st i k) = (if i then 0 else DataSize (frame_msg p r st i k))"
  by (simp_all add: frame_msg_def Let_def)

lemma frame_msg_bytes:
  "msg_bytes (frame_msg p r st i k) = (if k then take 4128 (r_bytes r) else [])"
proof -
  let ?n = "if k then min 4128 (r_data_len r) else 0"
  have size: "msg_size (frame_msg p r st i k) = ?n"
    by (auto simp: frame_msg_def Let_def msg_size_def unat_of_nat min_def)
  show ?thesis
  proof (cases "r_data r")
    case None
    then show ?thesis unfolding msg_bytes_def size by (simp add: r_bytes_def)
  next
    case (Some d)
    then have len: "r_data_len r = length d" by (simp add: r_data_len_def)
    have "Data (frame_msg p r st i k) = mem_write (\<lambda>_. 0) 0 (take ?n d)"
      using Some len by (auto simp: frame_msg_def Let_def min_def)
    then show ?thesis
      unfolding msg_bytes_def size using Some len
      by (auto simp: r_bytes_def mem_read_write_len min_def)
  qed
qed

lemma frame_msg_size: "msg_size (frame_msg p r st i k) = (if k then min 4128 (r_data_len r) else 0)"
  by (auto simp: frame_msg_def Let_def msg_size_def unat_of_nat min_def)

section \<open>One step of reassembly\<close>

text \<open>The bytes a chunk adds: after the first, a chunk on ISO 15765 repeats the CAN id.\<close>

definition strip_id :: "nat \<Rightarrow> u8 list \<Rightarrow> u8 list" where
  "strip_id n d = (if length d < n then d else drop n d)"

definition add_chunk :: "PASSTHRU_MSG \<Rightarrow> u8 list \<Rightarrow> PASSTHRU_MSG" where
  "add_chunk p d =
     (let n = min (length d) (J2534_MSG_DATA_MAX - msg_size p);
          p = (if n > 0 then p\<lparr>Data := mem_write (Data p) (msg_size p) (take n d),
                 DataSize := DataSize p + of_nat n\<rparr> else p)
      in p\<lparr>ExtraDataIndex := DataSize p\<rparr>)"

lemma add_chunk_fields [simp]:
  "ProtocolID (add_chunk p d) = ProtocolID p" "RxStatus (add_chunk p d) = RxStatus p"
  "TxFlags (add_chunk p d) = TxFlags p" "Timestamp (add_chunk p d) = Timestamp p"
  "ExtraDataIndex (add_chunk p d) = DataSize (add_chunk p d)"
  by (simp_all add: add_chunk_def Let_def)

text \<open>The reassembly buffer: the bytes gathered, none of the array past its end touched.\<close>

definition partial_ok :: "PASSTHRU_MSG \<Rightarrow> bool" where
  "partial_ok p \<longleftrightarrow> msg_size p \<le> 4128 \<and> (\<forall>i\<ge>4128. Data p i = 0)"

lemma msg_size_add:
  "msg_size p + n \<le> 4128 \<Longrightarrow> unat (DataSize p + of_nat n) = msg_size p + n"
  by (simp add: msg_size_def unat_word_ariths unat_of_nat)

lemma add_chunk_bytes:
  assumes "msg_size p \<le> 4128"
  shows "msg_bytes (add_chunk p d) = take 4128 (msg_bytes p @ d)"
    and "msg_size (add_chunk p d) = min 4128 (msg_size p + length d)"
proof -
  let ?n = "min (length d) (4128 - msg_size p)"
  let ?q = "add_chunk p d"
  have n: "msg_size p + ?n \<le> 4128" using assms by simp
  have size: "msg_size ?q = msg_size p + ?n"
    using msg_size_add [OF n] assms
    by (auto simp: add_chunk_def Let_def msg_size_def)
  then show "msg_size ?q = min 4128 (msg_size p + length d)" using assms by simp
  have data: "Data ?q = mem_write (Data p) (msg_size p) (take ?n d)"
    by (auto simp: add_chunk_def Let_def)
  have "mem_read (mem_write (Data p) (0 + msg_size p) (take ?n d)) 0 (msg_size p + length (take ?n d)) =
      mem_read (Data p) 0 (msg_size p) @ take ?n d"
    by (rule mem_read_append_write)
  then have "msg_bytes ?q = msg_bytes p @ take ?n d"
    unfolding msg_bytes_def size data by simp
  also have "\<dots> = take 4128 (msg_bytes p @ d)"
    using assms by (auto simp: min_def)
  finally show "msg_bytes ?q = take 4128 (msg_bytes p @ d)" .
qed

lemma add_chunk_ok:
  assumes "partial_ok p"
  shows "partial_ok (add_chunk p d)"
proof -
  have "Data (add_chunk p d) i = 0" if "4128 \<le> i" for i
    using assms that by (auto simp: add_chunk_def Let_def partial_ok_def mem_write_def)
  then show ?thesis using assms add_chunk_bytes(2) [of p d] by (simp add: partial_ok_def)
qed

text \<open>\<open>absorb_data\<close> as a single step over the bytes of the chunk.\<close>

definition chunk_of :: "op_channel \<Rightarrow> op_reply \<Rightarrow> u64 \<Rightarrow> u64 \<Rightarrow> u8 list" where
  "chunk_of c r base ext =
     (if partial_active c \<and> base = ISO15765 then
        strip_id (if (RxStatus (partial c) OR ext) AND ISO15765_ADDR_TYPE \<noteq> 0 then 5 else 4) (r_bytes r)
      else r_bytes r)"

definition partial_start :: "op_channel \<Rightarrow> PASSTHRU_MSG" where
  "partial_start c =
     (if partial_active c then partial c
      else msg0\<lparr>ProtocolID := ucast (ch_protocol c),
        RxStatus := if ext_announced c then ISO15765_ADDR_TYPE else 0\<rparr>)"

definition partial_next :: "op_channel \<Rightarrow> op_reply \<Rightarrow> u64 \<Rightarrow> bool \<Rightarrow> u64 \<Rightarrow> u64 \<Rightarrow> PASSTHRU_MSG" where
  "partial_next c r base loopback wide ext =
     add_chunk ((partial_start c)\<lparr>Timestamp := ucast (r_timestamp_us r),
       RxStatus := RxStatus (partial_start c) OR (if loopback then TX_MSG_TYPE else 0) OR wide OR ext\<rparr>)
       (chunk_of c r base ext)"

definition chunk_skip :: "op_channel \<Rightarrow> op_reply \<Rightarrow> u64 \<Rightarrow> u64 \<Rightarrow> nat" where
  "chunk_skip c r base ext =
     (if partial_active c \<and> base = ISO15765 then
        let n = (if (RxStatus (partial c) OR ext) AND ISO15765_ADDR_TYPE \<noteq> 0 then 5 else 4)
        in if r_data_len r < n then 0 else n
      else 0)"

lemma chunk_of_skip: "chunk_of c r base ext = drop (chunk_skip c r base ext) (r_bytes r)"
  by (simp add: chunk_of_def chunk_skip_def strip_id_def Let_def length_r_bytes)

lemma append_chunk_eq:
  fixes p :: PASSTHRU_MSG
  assumes "skip \<le> r_data_len r"
  shows "(let take0 = r_data_len r - skip;
          room = J2534_MSG_DATA_MAX - msg_size p;
          take' = (if take0 > room then room else take0);
          p = (case r_data r of
              None \<Rightarrow> p
            | Some d \<Rightarrow>
                if take' > 0 then
                  p\<lparr>Data := mem_write (Data p) (msg_size p) (take take' (drop skip d)),
                    DataSize := DataSize p + of_nat take'\<rparr>
                else p)
     in p\<lparr>ExtraDataIndex := DataSize p\<rparr>) = add_chunk p (drop skip (r_bytes r))"
proof (cases "r_data r")
  case None
  then show ?thesis by (simp add: add_chunk_def r_bytes_def Let_def)
next
  case (Some d)
  then have "r_data_len r = length d" by (simp add: r_data_len_def)
  moreover have "(if a > b then b else a) = min a b" for a b :: nat by auto
  ultimately show ?thesis using Some by (simp add: add_chunk_def r_bytes_def Let_def)
qed

lemma absorb_data_eq:
  "absorb_data c r base loopback wide ext =
     (let p = partial_next c r base loopback wide ext;
          c' = c\<lparr>ext_announced := (partial_active c \<and> ext_announced c), partial_active := True, partial := p\<rparr>
      in if flag (r_status r) OP_STS_END then (queue_push c' p)\<lparr>partial_active := False\<rparr> else c')"
proof -
  define c1 p1 skip where "c1 = c\<lparr>ext_announced := (partial_active c \<and> ext_announced c), partial_active := True\<rparr>"
    and "p1 = partial_start c" and "skip = chunk_skip c r base ext"
  have head: "(if \<not> partial_active c then
          let p = msg0\<lparr>ProtocolID := ucast (ch_protocol c)\<rparr>;
              p = (if ext_announced c then p\<lparr>RxStatus := RxStatus p OR ISO15765_ADDR_TYPE\<rparr> else p)
          in (c\<lparr>ext_announced := False, partial_active := True\<rparr>, p, 0)
        else if base = ISO15765 then
          let p = partial c;
              skip = (if (RxStatus p OR ext) AND ISO15765_ADDR_TYPE \<noteq> 0 then 5 else 4)
          in (c, p, if r_data_len r < skip then 0 else skip)
        else (c, partial c, 0)) = (c1, p1, skip)"
    unfolding c1_def p1_def skip_def
    by (cases c; cases "base = ISO15765") (auto simp: partial_start_def chunk_skip_def Let_def)
  have skip: "skip \<le> r_data_len r" by (auto simp: skip_def chunk_skip_def Let_def)
  define p2 where "p2 = p1\<lparr>Timestamp := ucast (r_timestamp_us r),
       RxStatus := RxStatus p1 OR (if loopback then TX_MSG_TYPE else 0) OR wide OR ext\<rparr>"
  have status: "(let p = p1\<lparr>Timestamp := ucast (r_timestamp_us r)\<rparr>;
       p = (if loopback then p\<lparr>RxStatus := RxStatus p OR TX_MSG_TYPE\<rparr> else p)
       in p\<lparr>RxStatus := RxStatus p OR (wide OR ext)\<rparr>) = p2"
    by (auto simp: p2_def Let_def or.assoc)
  have next': "partial_next c r base loopback wide ext = add_chunk p2 (drop skip (r_bytes r))"
    by (simp add: partial_next_def p2_def p1_def skip_def chunk_of_skip)
  have c1: "c1\<lparr>partial := q\<rparr> = c\<lparr>ext_announced := (partial_active c \<and> ext_announced c), partial_active := True,
      partial := q\<rparr>" for q
    by (simp add: c1_def)
  show ?thesis
    unfolding absorb_data_def head next' append_chunk_eq [OF skip, symmetric]
    using status by (simp only: Let_def prod.case c1)
qed

lemma partial_next_fields [simp]:
  "ProtocolID (partial_next c r b l w e) = ProtocolID (partial_start c)"
  "RxStatus (partial_next c r b l w e) =
     RxStatus (partial_start c) OR (if l then TX_MSG_TYPE else 0) OR w OR e"
  "Timestamp (partial_next c r b l w e) = ucast (r_timestamp_us r)"
  "ExtraDataIndex (partial_next c r b l w e) = DataSize (partial_next c r b l w e)"
  by (simp_all add: partial_next_def)

lemma partial_start_ok:
  "(partial_active c \<longrightarrow> partial_ok (partial c)) \<Longrightarrow> partial_ok (partial_start c)"
  by (simp add: partial_start_def partial_ok_def msg_size_def)

lemma partial_next_ok:
  assumes "partial_active c \<longrightarrow> partial_ok (partial c)"
  shows "partial_ok (partial_next c r b l w e)"
  unfolding partial_next_def
  by (rule add_chunk_ok) (use partial_start_ok [OF assms] in \<open>simp add: partial_ok_def msg_size_def\<close>)

lemma partial_next_bytes:
  assumes "partial_active c \<longrightarrow> partial_ok (partial c)"
  shows "msg_bytes (partial_next c r b l w e) =
    take 4128 (msg_bytes (partial_start c) @ chunk_of c r b e)"
proof -
  let ?q = "(partial_start c)\<lparr>Timestamp := ucast (r_timestamp_us r),
       RxStatus := RxStatus (partial_start c) OR (if l then TX_MSG_TYPE else 0) OR w OR e\<rparr>"
  have q: "msg_bytes ?q = msg_bytes (partial_start c)" "msg_size ?q = msg_size (partial_start c)"
    by (simp_all add: msg_bytes_def msg_size_def)
  then have "msg_size ?q \<le> 4128" using partial_start_ok [OF assms] by (simp add: partial_ok_def)
  from add_chunk_bytes(1) [OF this] show ?thesis unfolding partial_next_def q .
qed

section \<open>The channel array as a whole\<close>

text \<open>An arrival as the abstract queue sees it.\<close>

definition enqueue :: "PASSTHRU_MSG list \<Rightarrow> PASSTHRU_MSG \<Rightarrow> PASSTHRU_MSG list" where
  "enqueue ms m = (if queue_fits ms m then ms @ [m] else ms)"

lemma queue_push_rep: "chan_rep c ms \<Longrightarrow> chan_rep (queue_push c m) (enqueue ms m)"
  using mq.step_refines [of c ms "Arrive m"] by (auto simp: enqueue_def)

lemma indicate_rep:
  "chan_rep c ms \<Longrightarrow>
   chan_rep (indicate c r st i k) (enqueue ms (frame_msg (ucast (ch_protocol c)) r st i k))"
  by (simp add: indicate_def queue_frame_def queue_push_rep)

definition chan_ok :: "op_channel \<Rightarrow> bool" where
  "chan_ok c \<longleftrightarrow> (partial_active c \<longrightarrow> partial_ok (partial c)) \<and> (\<exists>ms. chan_rep c ms)"

lemma chan_ok_queue_push: "chan_ok c \<Longrightarrow> chan_ok (queue_push c m)"
  by (auto simp: chan_ok_def intro: queue_push_rep)

lemma chan_ok_indicate: "chan_ok c \<Longrightarrow> chan_ok (indicate c r st i k)"
  by (simp add: indicate_def queue_frame_def chan_ok_queue_push)

lemma chan_ok_absorb_data:
  assumes "chan_ok c"
  shows "chan_ok (absorb_data c r b l w e)"
proof -
  let ?p = "partial_next c r b l w e"
  let ?c = "c\<lparr>ext_announced := (partial_active c \<and> ext_announced c), partial_active := True, partial := ?p\<rparr>"
  have rep: "chan_rep ?c ms = chan_rep c ms" for ms by (rule chan_rep_frame) simp_all
  have rep': "chan_rep ((queue_push ?c ?p)\<lparr>partial_active := False\<rparr>) ms =
      chan_rep (queue_push ?c ?p) ms" for ms
    by (rule chan_rep_frame) simp_all
  have ok: "chan_ok ?c"
    using assms partial_next_ok [of c r b l w e] by (simp add: chan_ok_def rep)
  with chan_ok_queue_push [OF ok, of ?p] show ?thesis
    by (simp add: absorb_data_eq Let_def) (simp add: chan_ok_def rep')
qed

lemma chan_ok_idle:
  assumes "chan_ok c"
  shows "chan_ok (c\<lparr>partial_active := False, ext_announced := x\<rparr>)"
  using assms chan_rep_frame [of "c\<lparr>partial_active := False, ext_announced := x\<rparr>" c]
  by (simp add: chan_ok_def)

lemma chan_ok_absorb_open: "chan_ok c \<Longrightarrow> chan_ok (absorb_open c r)"
  by (simp add: absorb_open_def Let_def chan_ok_indicate chan_ok_absorb_data chan_ok_idle)

definition channels_ok :: "(nat \<Rightarrow> op_channel) \<Rightarrow> bool" where
  "channels_ok chs \<longleftrightarrow> (\<forall>k. ch_open (chs k) \<longrightarrow> chan_ok (chs k))"

lemma channels_ok_absorb: "channels_ok chs \<Longrightarrow> channels_ok (absorb_frame chs r)"
  by (auto simp: channels_ok_def absorb_frame_def Let_def chan_ok_absorb_open queue_frame_def
      chan_ok_queue_push)

lemma absorb_frame_open [simp]: "ch_open (absorb_frame chs r k) = ch_open (chs k)"
  by (auto simp: absorb_frame_def Let_def queue_frame_def)

lemma absorb_frame_hit:
  assumes "unat (r_channel r) = k" and "k < 10" and "ch_open (chs k)"
  shows "absorb_frame chs r k = absorb_open (chs k) r"
  using assms by (auto simp: absorb_frame_def Let_def)

definition absorb_frames :: "(nat \<Rightarrow> op_channel) \<Rightarrow> op_reply list \<Rightarrow> (nat \<Rightarrow> op_channel)" where
  "absorb_frames chs frs = fold (\<lambda>r chs. absorb_frame chs r) frs chs"

lemma absorb_frames_simps [simp]:
  "absorb_frames chs [] = chs"
  "absorb_frames chs (r # frs) = absorb_frames (absorb_frame chs r) frs"
  by (simp_all add: absorb_frames_def)

text \<open>When no echo of raw CAN can be redirected into channel \<open>k\<close>.\<close>

definition no_redirect :: "(nat \<Rightarrow> op_channel) \<Rightarrow> nat \<Rightarrow> op_reply list \<Rightarrow> bool" where
  "no_redirect chs k frs \<longleftrightarrow> k \<noteq> 6 \<or> ch_open (chs 5) \<or>
     (\<forall>r \<in> set frs. unat (r_channel r) = 5 \<longrightarrow> \<not> flag (r_status r) OP_STS_LOOPBACK)"

lemma absorb_frame_miss:
  assumes "unat (r_channel r) \<noteq> k" and "no_redirect chs k (r # frs)"
  shows "absorb_frame chs r k = chs k"
proof -
  have "int (unat (r_channel r)) = 5 \<longleftrightarrow> unat (r_channel r) = 5" by linarith
  with assms show ?thesis
    by (auto simp: absorb_frame_def no_redirect_def Let_def op_protocol_channel_def simp del: of_nat_unat)
qed

lemma absorb_frames_demux:
  assumes "k < 10" and "ch_open (chs k)" and "no_redirect chs k frs"
  shows "absorb_frames chs frs k =
    fold (\<lambda>r c. absorb_open c r) (filter (\<lambda>r. unat (r_channel r) = k) frs) (chs k)"
  using assms
proof (induction frs arbitrary: chs)
  case Nil
  then show ?case by simp
next
  case (Cons r frs)
  have "no_redirect (absorb_frame chs r) k frs"
    using Cons.prems(3) by (auto simp: no_redirect_def)
  with Cons.IH [of "absorb_frame chs r"] Cons.prems(1,2)
  have IH: "absorb_frames (absorb_frame chs r) frs k =
      fold (\<lambda>r c. absorb_open c r) (filter (\<lambda>r. unat (r_channel r) = k) frs) (absorb_frame chs r k)"
    by simp
  show ?case
  proof (cases "unat (r_channel r) = k")
    case True
    with IH Cons.prems absorb_frame_hit [OF True] show ?thesis by simp
  next
    case False
    with IH absorb_frame_miss [OF False Cons.prems(3)] show ?thesis by simp
  qed
qed

text \<open>
  Without that condition: what belongs to a channel are the frames with its number and, for the ISO 15765
  channel while that of raw CAN is closed, the echoes of raw CAN, each of which becomes a raw CAN message.
\<close>

definition belongs :: "(nat \<Rightarrow> op_channel) \<Rightarrow> nat \<Rightarrow> op_reply \<Rightarrow> bool" where
  "belongs chs k r \<longleftrightarrow> unat (r_channel r) = k \<or>
     (k = 6 \<and> unat (r_channel r) = 5 \<and> \<not> ch_open (chs 5) \<and> flag (r_status r) OP_STS_LOOPBACK)"

definition absorb_own :: "nat \<Rightarrow> op_reply \<Rightarrow> op_channel \<Rightarrow> op_channel" where
  "absorb_own k r c =
    (if unat (r_channel r) = k then absorb_open c r
     else queue_frame c CAN r (TX_MSG_TYPE OR (if flag (r_status r) OP_STS_29BIT then CAN_29BIT_ID else 0)) False True)"

lemma absorb_frame_belongs:
  assumes "k < 10" and "ch_open (chs k)"
  shows "absorb_frame chs r k = (if belongs chs k r then absorb_own k r (chs k) else chs k)"
proof -
  have "int (unat (r_channel r)) = 5 \<longleftrightarrow> unat (r_channel r) = 5" by linarith
  with assms show ?thesis
    by (auto simp: absorb_frame_def belongs_def absorb_own_def Let_def op_protocol_channel_def simp del: of_nat_unat)
qed

lemma belongs_frame: "belongs (absorb_frame chs r) k = belongs chs k"
  by (simp add: fun_eq_iff belongs_def)

lemma absorb_frames_belong:
  assumes "k < 10" and "ch_open (chs k)"
  shows "absorb_frames chs frs k = fold (absorb_own k) (filter (belongs chs k) frs) (chs k)"
  using assms
proof (induction frs arbitrary: chs)
  case (Cons r frs)
  then have "absorb_frames (absorb_frame chs r) frs k =
      fold (absorb_own k) (filter (belongs chs k) frs) (absorb_frame chs r k)"
    by (simp add: belongs_frame)
  with Cons.prems show ?case by (simp add: absorb_frame_belongs)
qed simp

section \<open>Segmented messages\<close>

text \<open>The status bits every frame of one transfer shares: echo, wide id, extended address.\<close>

definition carries :: "bool \<Rightarrow> bool \<Rightarrow> bool \<Rightarrow> op_reply \<Rightarrow> bool" where
  "carries l w e r \<longleftrightarrow> flag (r_status r) OP_STS_LOOPBACK = l \<and> flag (r_status r) OP_STS_29BIT = w \<and>
     flag (r_status r) OP_STS_EXT_ADDR = e \<and> \<not> flag (r_status r) OP_STS_TX_IND"

text \<open>What the wide id and the extended address put into \<open>RxStatus\<close>, on ISO 15765.\<close>

definition addr_bits :: "u64 \<Rightarrow> bool \<Rightarrow> bool \<Rightarrow> u64" where
  "addr_bits base w e = (if base = ISO15765 then (if w then CAN_29BIT_ID else 0) OR
     (if e then ISO15765_ADDR_TYPE else 0) else 0)"

text \<open>The bytes of a transfer: the CAN id is kept from the first chunk only.\<close>

definition chunk_bytes :: "u64 \<Rightarrow> bool \<Rightarrow> op_reply \<Rightarrow> u8 list" where
  "chunk_bytes base e r =
     (if base = ISO15765 then strip_id (if e then 5 else 4) (r_bytes r) else r_bytes r)"

fun transfer_bytes :: "u64 \<Rightarrow> bool \<Rightarrow> op_reply list \<Rightarrow> u8 list" where
  "transfer_bytes base e [] = []"
| "transfer_bytes base e (f # fs) = r_bytes f @ concat (map (chunk_bytes base e) fs)"

lemma absorb_open_chunk:
  assumes base: "op_protocol_base (ucast (ch_protocol c)) = base" and "base \<noteq> CAN"
    and carries: "carries l w e r"
    and "\<not> flag (r_status r) OP_STS_START \<or> flag (r_status r) OP_STS_END"
  shows "absorb_open c r = absorb_data c r base l
    (if base = ISO15765 \<and> w then CAN_29BIT_ID else 0) (if base = ISO15765 \<and> e then ISO15765_ADDR_TYPE else 0)"
  using assms by (auto simp: absorb_open_def carries_def Let_def)

text \<open>A reassembly in progress: what has been gathered.\<close>

definition gathering :: "op_channel \<Rightarrow> u64 \<Rightarrow> u64 \<Rightarrow> u8 list \<Rightarrow> bool" where
  "gathering c st base bytes \<longleftrightarrow> partial_active c \<and> partial_ok (partial c) \<and>
     op_protocol_base (ucast (ch_protocol c)) = base \<and>
     ProtocolID (partial c) = ucast (ch_protocol c) \<and> RxStatus (partial c) = st \<and>
     msg_bytes (partial c) = take 4128 bytes"

definition final_status :: "u64 \<Rightarrow> bool \<Rightarrow> bool \<Rightarrow> bool \<Rightarrow> u64" where
  "final_status base l w e = (if l then TX_MSG_TYPE else 0) OR addr_bits base w e"

lemma final_status_absorbs:
  "final_status base l w e OR (if l then TX_MSG_TYPE else 0) OR
     (if base = ISO15765 \<and> w then CAN_29BIT_ID else 0) OR
     (if base = ISO15765 \<and> e then ISO15765_ADDR_TYPE else 0) = final_status base l w e"
  "(if e \<and> base = ISO15765 then ISO15765_ADDR_TYPE else 0) OR (if l then TX_MSG_TYPE else 0) OR
     (if base = ISO15765 \<and> w then CAN_29BIT_ID else 0) OR
     (if base = ISO15765 \<and> e then ISO15765_ADDR_TYPE else 0) = final_status base l w e"
  by (cases l; cases w; cases e; simp add: final_status_def addr_bits_def)+

lemma final_status_ext:
  "(final_status ISO15765 l w e OR (if e then ISO15765_ADDR_TYPE else 0)) AND ISO15765_ADDR_TYPE \<noteq> 0
     \<longleftrightarrow> e"
  by (cases l; cases w; cases e; simp add: final_status_def addr_bits_def)

lemma chunk_of_gathering:
  assumes "gathering c (final_status base l w e) base acc"
  shows "chunk_of c r base (if base = ISO15765 \<and> e then ISO15765_ADDR_TYPE else 0) = chunk_bytes base e r"
  using assms final_status_ext [of l w e]
  by (auto simp: chunk_of_def chunk_bytes_def gathering_def)

text \<open>One more chunk: the buffer it leaves, whether or not it is the last.\<close>

lemma take_append_take: "take n (take n xs @ ys) = take n (xs @ ys)"
  by (cases "length xs \<le> n") simp_all

lemma gathering_next:
  fixes r :: op_reply
  assumes "gathering c (final_status base l w e) base acc"
  defines "p \<equiv> partial_next c r base l (if base = ISO15765 \<and> w then CAN_29BIT_ID else 0)
    (if base = ISO15765 \<and> e then ISO15765_ADDR_TYPE else 0)"
  shows "RxStatus p = final_status base l w e" and "ProtocolID p = ucast (ch_protocol c)"
    and "msg_bytes p = take 4128 (acc @ chunk_bytes base e r)" and "partial_ok p"
    and "Timestamp p = ucast (r_timestamp_us r)" and "ExtraDataIndex p = DataSize p"
proof -
  have g: "partial_active c" "partial_ok (partial c)" "partial_start c = partial c"
      "ProtocolID (partial c) = ucast (ch_protocol c)"
      "RxStatus (partial c) = final_status base l w e" "msg_bytes (partial c) = take 4128 acc"
    using assms(1) by (simp_all add: gathering_def partial_start_def)
  show "RxStatus p = final_status base l w e"
    unfolding p_def partial_next_fields g by (rule final_status_absorbs)
  show "ProtocolID p = ucast (ch_protocol c)" "Timestamp p = ucast (r_timestamp_us r)"
    "ExtraDataIndex p = DataSize p"
    by (simp_all add: p_def g)
  show "partial_ok p" unfolding p_def using g by (intro partial_next_ok) simp
  show "msg_bytes p = take 4128 (acc @ chunk_bytes base e r)"
    unfolding p_def chunk_of_gathering [OF assms(1), symmetric]
    using g by (subst partial_next_bytes) (simp_all only: take_append_take simp_thms)
qed

lemma gathering_middle:
  assumes g: "gathering c (final_status base l w e) base acc" and "base \<noteq> CAN" and "carries l w e r"
    and "\<not> flag (r_status r) OP_STS_START" and "\<not> flag (r_status r) OP_STS_END"
    and "chan_rep c ms"
  shows "gathering (absorb_open c r) (final_status base l w e) base (acc @ chunk_bytes base e r) \<and>
         chan_rep (absorb_open c r) ms"
proof -
  have base: "op_protocol_base (ucast (ch_protocol c)) = base" using g by (simp add: gathering_def)
  let ?p = "partial_next c r base l (if base = ISO15765 \<and> w then CAN_29BIT_ID else 0)
    (if base = ISO15765 \<and> e then ISO15765_ADDR_TYPE else 0)"
  have step: "absorb_open c r =
      c\<lparr>ext_announced := (partial_active c \<and> ext_announced c), partial_active := True, partial := ?p\<rparr>"
    using absorb_open_chunk [OF base assms(2,3)] assms(4,5) by (simp add: absorb_data_eq Let_def)
  have "chan_rep (absorb_open c r) ms = chan_rep c ms"
    unfolding step by (rule chan_rep_frame) simp_all
  then show ?thesis
    using gathering_next [OF g, of r] base assms(6) unfolding step by (simp add: gathering_def)
qed

lemma gathering_middles:
  assumes "gathering c (final_status base l w e) base acc" and "base \<noteq> CAN"
    and "\<forall>r \<in> set cs. carries l w e r \<and> \<not> flag (r_status r) OP_STS_START \<and> \<not> flag (r_status r) OP_STS_END"
    and "chan_rep c ms"
  shows "gathering (fold (\<lambda>r c. absorb_open c r) cs c) (final_status base l w e) base
           (acc @ concat (map (chunk_bytes base e) cs)) \<and>
         chan_rep (fold (\<lambda>r c. absorb_open c r) cs c) ms"
  using assms
proof (induction cs arbitrary: c acc)
  case Nil
  then show ?case by simp
next
  case (Cons r cs)
  with gathering_middle [OF Cons.prems(1,2) _ _ _ Cons.prems(4), of r]
  have "gathering (absorb_open c r) (final_status base l w e) base (acc @ chunk_bytes base e r)"
    "chan_rep (absorb_open c r) ms" by simp_all
  from Cons.IH [OF this(1) Cons.prems(2) _ this(2)] Cons.prems(3) show ?case by simp
qed

lemma gathering_end:
  assumes g: "gathering c (final_status base l w e) base acc" and "base \<noteq> CAN" and "carries l w e r"
    and "flag (r_status r) OP_STS_END" and "chan_rep c ms"
  shows "\<exists>m. chan_rep (absorb_open c r) (enqueue ms m) \<and> \<not> partial_active (absorb_open c r) \<and>
    ProtocolID m = ucast (ch_protocol c) \<and> RxStatus m = final_status base l w e \<and>
    Timestamp m = ucast (r_timestamp_us r) \<and> ExtraDataIndex m = DataSize m \<and>
    msg_bytes m = take 4128 (acc @ chunk_bytes base e r)"
proof -
  have base: "op_protocol_base (ucast (ch_protocol c)) = base" using g by (simp add: gathering_def)
  define p where "p = partial_next c r base l (if base = ISO15765 \<and> w then CAN_29BIT_ID else 0)
    (if base = ISO15765 \<and> e then ISO15765_ADDR_TYPE else 0)"
  let ?c = "c\<lparr>ext_announced := (partial_active c \<and> ext_announced c), partial_active := True, partial := p\<rparr>"
  have step: "absorb_open c r = (queue_push ?c p)\<lparr>partial_active := False\<rparr>"
    using absorb_open_chunk [OF base assms(2,3)] assms(4)
    by (simp only: absorb_data_eq Let_def p_def if_True simp_thms)
  have "chan_rep ?c ms" using assms(5) by (subst chan_rep_frame) simp_all
  from queue_push_rep [OF this] have "chan_rep (absorb_open c r) (enqueue ms p)"
    unfolding step by (subst chan_rep_frame) simp_all
  then show ?thesis
    using gathering_next [OF g, of r] unfolding step p_def [symmetric]
    by (intro exI [of _ p]) simp
qed

text \<open>The announcement and the chunk that opens the buffer.\<close>

definition start_status :: "u64 \<Rightarrow> bool \<Rightarrow> bool \<Rightarrow> bool \<Rightarrow> u64" where
  "start_status base l w e =
     (if l \<and> base = ISO15765 then TX_MSG_TYPE OR TX_DONE else ISO15765_FIRST_FRAME) OR addr_bits base w e"

lemma absorb_start:
  assumes base: "op_protocol_base (ucast (ch_protocol c)) = base" and "base \<noteq> CAN"
    and "carries l w e r" and "flag (r_status r) OP_STS_START" and "\<not> flag (r_status r) OP_STS_END"
  shows "absorb_open c r =
    indicate (c\<lparr>partial_active := False, ext_announced := (base = ISO15765 \<and> e)\<rparr>) r
      (start_status base l w e) True (\<not> l)"
  using assms
  by (cases l; cases w; cases e)
    (auto simp: absorb_open_def carries_def Let_def start_status_def addr_bits_def)

lemma gathering_begin:
  assumes base: "op_protocol_base (ucast (ch_protocol c)) = base" and "base \<noteq> CAN"
    and "carries l w e s" and "flag (r_status s) OP_STS_START" and "\<not> flag (r_status s) OP_STS_END"
    and "chan_rep c ms"
  defines "ind \<equiv> frame_msg (ucast (ch_protocol c)) s (start_status base l w e) True (\<not> l)"
  defines "c1 \<equiv> absorb_open c s"
  shows "chan_rep c1 (enqueue ms ind)" and "\<not> partial_active c1" and "ch_protocol c1 = ch_protocol c"
    and "ext_announced c1 \<longleftrightarrow> base = ISO15765 \<and> e"
proof -
  have "chan_rep (c\<lparr>partial_active := False, ext_announced := (base = ISO15765 \<and> e)\<rparr>) ms"
    using assms(6) by (subst chan_rep_frame) simp_all
  from indicate_rep [OF this, of s "start_status base l w e" True "\<not> l"]
  show "chan_rep c1 (enqueue ms ind)" "\<not> partial_active c1" "ch_protocol c1 = ch_protocol c"
    "ext_announced c1 \<longleftrightarrow> base = ISO15765 \<and> e"
    using absorb_start [OF assms(1-5)] by (simp_all add: c1_def ind_def)
qed

lemma first_chunk:
  fixes r :: op_reply and l w e :: bool
  assumes base: "op_protocol_base (ucast (ch_protocol c)) = base" and "\<not> partial_active c"
    and "ext_announced c \<longleftrightarrow> base = ISO15765 \<and> e"
  defines "p \<equiv> partial_next c r base l (if base = ISO15765 \<and> w then CAN_29BIT_ID else 0)
    (if base = ISO15765 \<and> e then ISO15765_ADDR_TYPE else 0)"
  shows "RxStatus p = final_status base l w e" and "ProtocolID p = ucast (ch_protocol c)"
    and "msg_bytes p = take 4128 (r_bytes r)" and "partial_ok p"
    and "Timestamp p = ucast (r_timestamp_us r)" and "ExtraDataIndex p = DataSize p"
proof -
  show "RxStatus p = final_status base l w e"
    using final_status_absorbs(2) [of e base l w] assms(2,3)
    by (auto simp: p_def partial_start_def conj_commute)
  show "ProtocolID p = ucast (ch_protocol c)" "Timestamp p = ucast (r_timestamp_us r)"
    "ExtraDataIndex p = DataSize p"
    using assms(2) by (simp_all add: p_def partial_start_def)
  show "partial_ok p" unfolding p_def using assms(2) by (intro partial_next_ok) simp
  have "msg_bytes (partial_start c) = []"
    using assms(2) by (simp add: partial_start_def msg_bytes_def msg_size_def)
  with assms(2) show "msg_bytes p = take 4128 (r_bytes r)"
    unfolding p_def by (subst partial_next_bytes) (simp_all add: chunk_of_def)
qed

text \<open>The data frames of a transfer, the last one alone marked END.\<close>

lemma transfer_data:
  assumes base: "op_protocol_base (ucast (ch_protocol c)) = base" and "base \<noteq> CAN"
    and "\<not> partial_active c" and "ext_announced c \<longleftrightarrow> base = ISO15765 \<and> e"
    and cs: "\<forall>r \<in> set cs. carries l w e r \<and> \<not> flag (r_status r) OP_STS_START \<and> \<not> flag (r_status r) OP_STS_END"
    and z: "carries l w e z" "flag (r_status z) OP_STS_END"
    and rep: "chan_rep c ms"
  shows "\<exists>m. chan_rep (fold (\<lambda>r c. absorb_open c r) (cs @ [z]) c) (enqueue ms m) \<and>
    \<not> partial_active (fold (\<lambda>r c. absorb_open c r) (cs @ [z]) c) \<and>
    ProtocolID m = ucast (ch_protocol c) \<and> RxStatus m = final_status base l w e \<and>
    Timestamp m = ucast (r_timestamp_us z) \<and> ExtraDataIndex m = DataSize m \<and>
    msg_bytes m = take 4128 (transfer_bytes base e (cs @ [z]))"
proof (cases cs)
  case Nil
  define p where "p = partial_next c z base l (if base = ISO15765 \<and> w then CAN_29BIT_ID else 0)
    (if base = ISO15765 \<and> e then ISO15765_ADDR_TYPE else 0)"
  let ?c = "c\<lparr>ext_announced := (partial_active c \<and> ext_announced c), partial_active := True, partial := p\<rparr>"
  have step: "absorb_open c z = (queue_push ?c p)\<lparr>partial_active := False\<rparr>"
    using absorb_open_chunk [OF base assms(2) z(1)] z(2)
    by (simp only: absorb_data_eq Let_def p_def if_True simp_thms)
  have "chan_rep ?c ms" using rep by (subst chan_rep_frame) simp_all
  from queue_push_rep [OF this] have "chan_rep (absorb_open c z) (enqueue ms p)"
    unfolding step by (subst chan_rep_frame) simp_all
  then show ?thesis
    using first_chunk [OF base assms(3,4), of z l w] Nil unfolding step p_def [symmetric]
    by (intro exI [of _ p]) (simp add: step)
next
  case (Cons f cs')
  define p where "p = partial_next c f base l (if base = ISO15765 \<and> w then CAN_29BIT_ID else 0)
    (if base = ISO15765 \<and> e then ISO15765_ADDR_TYPE else 0)"
  let ?c = "c\<lparr>ext_announced := (partial_active c \<and> ext_announced c), partial_active := True, partial := p\<rparr>"
  have f: "carries l w e f" "\<not> flag (r_status f) OP_STS_START" "\<not> flag (r_status f) OP_STS_END"
    using cs Cons by auto
  have step: "absorb_open c f = ?c"
    using absorb_open_chunk [OF base assms(2) f(1)] f(2,3)
    by (simp only: absorb_data_eq Let_def p_def if_False simp_thms)
  have rep': "chan_rep (absorb_open c f) ms" using rep unfolding step by (subst chan_rep_frame) simp_all
  have "gathering (absorb_open c f) (final_status base l w e) base (r_bytes f)"
    using first_chunk [OF base assms(3,4), of f l w] base unfolding step p_def [symmetric]
    by (simp add: gathering_def)
  from gathering_middles [OF this assms(2) _ rep', of cs'] cs Cons
  have mid: "gathering (fold (\<lambda>r c. absorb_open c r) cs c) (final_status base l w e) base
      (r_bytes f @ concat (map (chunk_bytes base e) cs'))"
    "chan_rep (fold (\<lambda>r c. absorb_open c r) cs c) ms" by simp_all
  have prot: "ch_protocol (fold (\<lambda>r c. absorb_open c r) cs c) = ch_protocol c" for cs :: "op_reply list"
    by (induction cs arbitrary: c) simp_all
  from gathering_end [OF mid(1) assms(2) z mid(2)] Cons prot [of cs] show ?thesis by simp
qed

section \<open>Properties\<close>

text \<open>C38. Demultiplexing: what happens to an open channel is decided, in their order, by the frames that
  belong to it alone, whatever frames come between: those with its number, which it absorbs, and, for the
  ISO 15765 channel while the channel of raw CAN is closed, the echoes of raw CAN, each of which it queues
  as a transmitted raw CAN message.\<close>

theorem frames_demux:
  assumes "k < OP_MAX_CHANNELS" and "ch_open (chs k)"
  shows "absorb_frames chs frs k = fold (absorb_own k) (filter (belongs chs k) frs) (chs k)"
  using assms by (simp add: absorb_frames_belong)

text \<open>A frame of channel 3, an echo of raw CAN and one that is none, on an open ISO 15765 channel.\<close>

definition mixed_frames :: "op_reply list" where
  "mixed_frames = [(reply0 OP_REPLY_FRAME)\<lparr>r_channel := 3\<rparr>,
     (reply0 OP_REPLY_FRAME)\<lparr>r_channel := 5, r_status := 0x20\<rparr>, (reply0 OP_REPLY_FRAME)\<lparr>r_channel := 5\<rparr>]"

theorem frames_demux_witness:
  "absorb_frames ((\<lambda>_. channel0 None)(6 := (channel0 None)\<lparr>ch_open := True\<rparr>)) mixed_frames 6 =
     absorb_own 6 (mixed_frames ! 1) ((channel0 None)\<lparr>ch_open := True\<rparr>)"
  using frames_demux [of 6 "(\<lambda>_. channel0 None)(6 := (channel0 None)\<lparr>ch_open := True\<rparr>)" mixed_frames]
  by (simp add: mixed_frames_def belongs_def channel0_def reply0_def flag_def)

text \<open>C14. Reassembly: a transfer of a START frame, any number of unmarked data frames and an END
  frame, with frames of other channels in between, delivers exactly two messages in this order:
  the announcement, with ExtraDataIndex 0, and the message, whose data are the frames' bytes
  joined (on ISO 15765 the id each later frame repeats is removed), cut to the 4128 bytes of a
  message, with the last frame's time stamp and the flags the frames carry.\<close>

theorem segmented_transfer:
  assumes "k < OP_MAX_CHANNELS" and "ch_open (chs k)" and "no_redirect chs k frs"
    and "filter (\<lambda>r. unat (r_channel r) = k) frs = s # cs @ [z]"
    and "op_protocol_base (ucast (ch_protocol (chs k))) = base" and "base \<noteq> CAN"
    and "\<forall>r \<in> set (s # cs @ [z]). carries l w e r"
    and "flag (r_status s) OP_STS_START" and "\<not> flag (r_status s) OP_STS_END"
    and "\<forall>r \<in> set cs. \<not> flag (r_status r) OP_STS_START \<and> \<not> flag (r_status r) OP_STS_END"
    and "flag (r_status z) OP_STS_END"
    and "chan_rep (chs k) ms"
  shows "\<exists>ind m. chan_rep (absorb_frames chs frs k) (enqueue (enqueue ms ind) m) \<and>
    ProtocolID ind = ucast (ch_protocol (chs k)) \<and> RxStatus ind = start_status base l w e \<and>
    ExtraDataIndex ind = 0 \<and> msg_bytes ind = (if l then [] else take 4128 (r_bytes s)) \<and>
    ProtocolID m = ucast (ch_protocol (chs k)) \<and> RxStatus m = final_status base l w e \<and>
    Timestamp m = ucast (r_timestamp_us z) \<and> ExtraDataIndex m = DataSize m \<and>
    msg_bytes m = take 4128 (transfer_bytes base e (cs @ [z]))"
proof -
  let ?c = "absorb_open (chs k) s"
  let ?ind = "frame_msg (ucast (ch_protocol (chs k))) s (start_status base l w e) True (\<not> l)"
  have final: "absorb_frames chs frs k = fold (\<lambda>r c. absorb_open c r) (cs @ [z]) ?c"
    using absorb_frames_demux [of k chs frs] assms(1-4) by simp
  have s: "carries l w e s" using assms(7) by simp
  note start = gathering_begin [OF assms(5,6) s assms(8,9,12)]
  have base: "op_protocol_base (ucast (ch_protocol ?c)) = base" using start(3) assms(5) by simp
  have cs: "\<forall>r \<in> set cs. carries l w e r \<and> \<not> flag (r_status r) OP_STS_START \<and> \<not> flag (r_status r) OP_STS_END"
    and z: "carries l w e z" using assms(7,10) by auto
  from transfer_data [OF base assms(6) start(2,4) cs z assms(11) start(1)]
  obtain m where "chan_rep (absorb_frames chs frs k) (enqueue (enqueue ms ?ind) m)"
    "ProtocolID m = ucast (ch_protocol (chs k))" "RxStatus m = final_status base l w e"
    "Timestamp m = ucast (r_timestamp_us z)" "ExtraDataIndex m = DataSize m"
    "msg_bytes m = take 4128 (transfer_bytes base e (cs @ [z]))"
    unfolding final start(3) by auto
  then show ?thesis
    by (intro exI [of _ ?ind] exI [of _ m]) (simp add: frame_msg_fields frame_msg_bytes)
qed

definition iso_channels :: "nat \<Rightarrow> op_channel" where
  "iso_channels = (\<lambda>_. channel0 None)(6 := (channel0 (Some (\<lambda>_. 0)))\<lparr>ch_open := True, ch_protocol := 6\<rparr>)"

definition iso_frame :: "u8 \<Rightarrow> u8 list \<Rightarrow> op_reply" where
  "iso_frame st d = (reply0 OP_REPLY_FRAME)\<lparr>r_channel := 6, r_status := st, r_data := Some d\<rparr>"

theorem segmented_transfer_witness:
  "\<exists>ind m. chan_rep (absorb_frames iso_channels [iso_frame 0x80 [0, 0, 7, 0xE8],
       (reply0 OP_REPLY_FRAME)\<lparr>r_channel := 3\<rparr>, iso_frame 0 [0, 0, 7, 0xE8, 1, 2],
       iso_frame 0x40 [0, 0, 7, 0xE8, 3]] 6) (enqueue (enqueue [] ind) m) \<and>
     msg_bytes ind = [0, 0, 7, 0xE8] \<and> msg_bytes m = [0, 0, 7, 0xE8, 1, 2, 3]"
proof -
  have rep: "chan_rep (iso_channels 6) []"
    unfolding iso_channels_def
    by (subst chan_rep_frame [of _ "channel0 (Some (\<lambda>_. 0))"]) (simp_all add: channel0_def chan_rep_empty)
  show ?thesis
    using segmented_transfer [of 6 iso_channels "[iso_frame 0x80 [0, 0, 7, 0xE8],
       (reply0 OP_REPLY_FRAME)\<lparr>r_channel := 3\<rparr>, iso_frame 0 [0, 0, 7, 0xE8, 1, 2],
       iso_frame 0x40 [0, 0, 7, 0xE8, 3]]" "iso_frame 0x80 [0, 0, 7, 0xE8]"
       "[iso_frame 0 [0, 0, 7, 0xE8, 1, 2]]" "iso_frame 0x40 [0, 0, 7, 0xE8, 3]" ISO15765 False False False "[]",
       OF _ _ _ _ _ _ _ _ _ _ _ rep]
    by (auto simp: iso_channels_def iso_frame_def no_redirect_def op_protocol_base_def carries_def
        flag_def r_bytes_def chunk_bytes_def strip_id_def)
qed

text \<open>A raw CAN frame that is no transmit indication becomes one message of its own: its
  bytes (at most 4128), its time stamp, the echo and wide-id flags, ExtraDataIndex the size.\<close>

lemma can_frame_delivered:
  assumes "unat (r_channel r) = k" and "k < OP_MAX_CHANNELS" and "ch_open (chs k)"
    and "op_protocol_base (ucast (ch_protocol (chs k))) = CAN"
    and "\<not> flag (r_status r) OP_STS_TX_IND" and "chan_rep (chs k) ms"
  shows "\<exists>m. chan_rep (absorb_frame chs r k) (enqueue ms m) \<and>
    ProtocolID m = ucast (ch_protocol (chs k)) \<and>
    RxStatus m = (if flag (r_status r) OP_STS_LOOPBACK then TX_MSG_TYPE else 0) OR
                 (if flag (r_status r) OP_STS_29BIT then CAN_29BIT_ID else 0) \<and>
    Timestamp m = ucast (r_timestamp_us r) \<and> ExtraDataIndex m = DataSize m \<and>
    msg_bytes m = take 4128 (r_bytes r)"
proof -
  let ?st = "(if flag (r_status r) OP_STS_LOOPBACK then TX_MSG_TYPE else 0) OR
             (if flag (r_status r) OP_STS_29BIT then CAN_29BIT_ID else 0)"
  have "absorb_frame chs r k = indicate (chs k) r ?st False True"
    using absorb_frame_hit [of r k chs] assms(1-5) by (simp add: absorb_open_def Let_def)
  with indicate_rep [OF assms(6), of r ?st False True] show ?thesis
    by (intro exI [of _ "frame_msg (ucast (ch_protocol (chs k))) r ?st False True"])
      (simp add: frame_msg_fields frame_msg_bytes)
qed

text \<open>A transmit indication on CAN or ISO 15765 is delivered as TX_DONE with ExtraDataIndex 0
  and the bytes the frame holds, and leaves a reassembly in progress as it was.\<close>

lemma tx_indication_delivered:
  assumes "unat (r_channel r) = k" and "k < OP_MAX_CHANNELS" and "ch_open (chs k)"
    and "op_protocol_base (ucast (ch_protocol (chs k))) \<in> {CAN, ISO15765}"
    and "flag (r_status r) OP_STS_TX_IND" and "chan_rep (chs k) ms"
  shows "\<exists>m. chan_rep (absorb_frame chs r k) (enqueue ms m) \<and>
    RxStatus m AND (TX_MSG_TYPE OR TX_DONE) = TX_MSG_TYPE OR TX_DONE \<and>
    ExtraDataIndex m = 0 \<and> msg_bytes m = take 4128 (r_bytes r) \<and>
    partial (absorb_frame chs r k) = partial (chs k) \<and>
    partial_active (absorb_frame chs r k) = partial_active (chs k)"
proof -
  let ?b = "op_protocol_base (ucast (ch_protocol (chs k)))"
  let ?st = "TX_MSG_TYPE OR TX_DONE OR
     (if (?b = CAN \<or> ?b = ISO15765) \<and> flag (r_status r) OP_STS_29BIT then CAN_29BIT_ID else 0) OR
     (if ?b = ISO15765 \<and> flag (r_status r) OP_STS_EXT_ADDR then ISO15765_ADDR_TYPE else 0)"
  have step: "absorb_frame chs r k = indicate (chs k) r ?st True True"
    using absorb_frame_hit [of r k chs] assms(1-5)
    by (simp only: absorb_open_def Let_def) (auto simp: OP_MAX_CHANNELS_def)
  have "?st AND (TX_MSG_TYPE OR TX_DONE) = TX_MSG_TYPE OR TX_DONE"
    by simp
  with indicate_rep [OF assms(6), of r ?st True True] show ?thesis
    unfolding step
    by (intro exI [of _ "frame_msg (ucast (ch_protocol (chs k))) r ?st True True"])
      (simp only: frame_msg_fields frame_msg_bytes indicate_fields if_True simp_thms)
qed

end
