(* ===== verification/Session.thy ===== *)
theory Session
  imports Reassembly Proto_Reply
begin

text \<open>
  The device session (src/op_device.c, \<open>op_device\<close> in src/op_device.h) as the reader thread and
  the channel operations see it: reply matching, the accumulator, one turn of the reader loop,
  opening, closing, flushing and draining channels.

  Everything between a lock and its unlock is one function on the state, so an interleaving of
  threads is a sequence of such functions. The condition variables are not state: a waiter
  re-checks its condition (theory \<open>Exchange\<close>). \<open>op_logf\<close> writes a diagnostic file and is
  left out.
\<close>

section \<open>The session\<close>

definition OP_ACCUM_CAP :: nat where "OP_ACCUM_CAP = OP_MSG_MAX + OP_FRAME_MAX"
definition OP_REPLY_TEXT_MAX :: nat where [simp]: "OP_REPLY_TEXT_MAX = 192"
definition OP_REPLY_DATA_MAX :: nat where [simp]: "OP_REPLY_DATA_MAX = 255"

text \<open>
  \<open>accum\<close> is the list of the \<open>accum_len\<close> bytes in use; \<open>failures\<close> and \<open>reader_done\<close> are the
  local counter of \<open>reader_main\<close> and whether it has returned. The reply slot keeps the bytes its
  text and data pointers designate.
\<close>

record op_device =
  t_open :: bool
  d_open :: bool
  d_lost :: bool
  reader_started :: bool
  reader_stop :: bool
  reader_done :: bool
  failures :: nat
  cmd_waiting :: bool
  reply_valid :: bool
  seq_next :: u32
  seq_pending :: u32
  cmd_verb :: u8
  reply :: op_reply
  accum :: "u8 list"
  ch :: "nat \<Rightarrow> op_channel"
  pins_grounded :: u32
  pins_powered :: u32
  fw_version :: "u8 list"

text \<open>\<open>g_device\<close> before the first open: static storage.\<close>

definition g_device :: op_device where
  "g_device = \<lparr>t_open = False, d_open = False, d_lost = False, reader_started = False,
     reader_stop = False, reader_done = False, failures = 0, cmd_waiting = False,
     reply_valid = False, seq_next = 0, seq_pending = 0, cmd_verb = 0,
     reply = reply0 OP_REPLY_INCOMPLETE, accum = [], ch = (\<lambda>_. channel0 None),
     pins_grounded = 0, pins_powered = 0, fw_version = []\<rparr>"

section \<open>Replies\<close>

text \<open>
  \<open>stash_reply\<close> after its first guards, as what the slot then holds and whether it is marked
  valid: the slot is overwritten before the guards on an init reply's number, which return
  without marking it.
\<close>

definition last_tail :: "op_reply \<Rightarrow> u32" where
  "last_tail r = r_tail r ! (r_ntail r - 1)"

text \<open>The loop over the key bytes of \<open>arw\<close>: one token that is no byte drops the result.\<close>

fun key_bytes :: "u32 list \<Rightarrow> u8 list \<Rightarrow> u8 list" where
  "key_bytes [] acc = acc"
| "key_bytes (t # ts) acc = (if t > 0xFF then [] else key_bytes ts (acc @ [ucast t]))"

definition stash_slot :: "u32 \<Rightarrow> op_reply \<Rightarrow> op_reply \<times> bool" where
  "stash_slot seq r =
    (let q = r;
         q = (if seq \<noteq> 0 \<and> r_kind r = OP_REPLY_ERROR then
                let hd' = (r_ntail r \<ge> 2)
                in q\<lparr>r_has_detail := hd', r_detail := if hd' then r_tail r ! 0 else 0\<rparr>
              else q);
         q = (case r_text r of
                Some t \<Rightarrow> if r_kind r = OP_REPLY_INFO then q\<lparr>r_text := Some (take (OP_REPLY_TEXT_MAX - 1) t)\<rparr>
                          else q\<lparr>r_text := None\<rparr>
              | None \<Rightarrow> q\<lparr>r_text := None\<rparr>)
     in
     if r_kind r = OP_REPLY_INIT \<and> r_data r \<noteq> None \<and> r_data_len r > 0 then
       if seq \<noteq> 0 \<and> r_ntail r > 0 \<and> last_tail r \<noteq> seq then (q, False)
       else (q\<lparr>r_data := Some (take OP_REPLY_DATA_MAX (the (r_data r)))\<rparr>, True)
     else if r_kind r = OP_REPLY_INIT \<and> r_ntail r > 0 then
       if seq \<noteq> 0 \<and> last_tail r \<noteq> seq \<and> last_tail r > 0xFF then (q, False)
       else
         let ntok = (if seq \<noteq> 0 \<and> last_tail r = seq then r_ntail r - 1 else r_ntail r);
             bs = key_bytes (take ntok (r_tail r)) []
         in (q\<lparr>r_data := if bs = [] then None else Some bs\<rparr>, True)
     else (q\<lparr>r_data := None\<rparr>, True))"

definition stash_accepted :: "op_device \<Rightarrow> op_reply \<Rightarrow> op_device" where
  "stash_accepted d r =
    (let (q, valid) = stash_slot (seq_pending d) r
     in d\<lparr>reply := q, reply_valid := reply_valid d \<or> valid\<rparr>)"

definition stash_reply :: "op_device \<Rightarrow> op_reply \<Rightarrow> op_device" where
  "stash_reply d r =
    (if \<not> cmd_waiting d then d
     else if r_kind r = OP_REPLY_INIT \<and> cmd_verb d \<noteq> of_char CHR ''y'' \<and> cmd_verb d \<noteq> of_char CHR ''w'' then d
     else if seq_pending d \<noteq> 0 \<and> r_kind r \<noteq> OP_REPLY_INIT \<and> (r_kind r = OP_REPLY_INFO \<or> r_ntail r = 0) then d
     else if seq_pending d \<noteq> 0 \<and> r_kind r \<noteq> OP_REPLY_INIT \<and> last_tail r \<noteq> seq_pending d then d
     else stash_accepted d r)"

section \<open>The accumulator\<close>

function consume_loop :: "op_device \<Rightarrow> u8 list \<Rightarrow> op_device \<times> u8 list" where
  "consume_loop d buf =
    (if buf = [] then (d, [])
     else let (used, r) = op_parse buf in
       if used = 0 then (d, buf)
       else if r_kind r = OP_REPLY_FRAME then
         consume_loop (d\<lparr>ch := absorb_frame (ch d) r\<rparr>) (drop used buf)
       else if r_kind r = OP_REPLY_JUNK then
         let skip = op_resync_offset buf
         in consume_loop d (drop (if skip > used then skip else used) buf)
       else consume_loop (stash_reply d r) (drop used buf))"
  by pat_completeness auto
termination
  by (relation "measure (\<lambda>(d, buf). length buf)") (auto split: if_splits)

declare consume_loop.simps [simp del]

definition consume_accum :: "op_device \<Rightarrow> op_device" where
  "consume_accum d =
     (let (d', rest) = consume_loop d (accum d)
      in d'\<lparr>accum := if length rest = OP_ACCUM_CAP then [] else rest\<rparr>)"

text \<open>
  One turn of the loop of \<open>reader_main\<close>: \<open>st\<close> and \<open>got\<close> are what \<open>op_read\<close> gave. The pause
  after a failed read has no state.
\<close>

definition reader_turn :: "op_status \<Rightarrow> u8 list \<Rightarrow> op_device \<Rightarrow> op_device" where
  "reader_turn st got d =
    (if \<not> reader_started d \<or> reader_done d then d
     else if reader_stop d then d\<lparr>reader_done := True\<rparr>
     else if st = OP_ERR_TIMEOUT then d\<lparr>failures := 0\<rparr>
     else
       let d = (if st \<noteq> OP_ERR_NO_DEVICE \<and> st \<noteq> OP_OK then d\<lparr>failures := failures d + 1\<rparr> else d) in
       if st = OP_ERR_NO_DEVICE \<or> (st \<noteq> OP_OK \<and> failures d \<ge> 50) then
         d\<lparr>d_lost := True, reader_done := True\<rparr>
       else if st \<noteq> OP_OK \<or> got = [] then d
       else
         let d = d\<lparr>failures := 0\<rparr>;
             room = OP_ACCUM_CAP - length (accum d);
             take' = (if length got < room then length got else room)
         in consume_accum (d\<lparr>accum := accum d @ take take' got\<rparr>))"

section \<open>Channels\<close>

definition op_device_flush_channel :: "nat \<Rightarrow> op_device \<Rightarrow> op_device" where
  "op_device_flush_channel k d =
    (if k \<ge> OP_MAX_CHANNELS then d else d\<lparr>ch := (ch d)(k := flush_locked (ch d k))\<rparr>)"

text \<open>\<open>fresh\<close> is what \<open>malloc\<close> returns when the channel has no buffer yet.\<close>

definition op_device_open_channel :: "mem option \<Rightarrow> nat \<Rightarrow> u32 \<Rightarrow> op_device \<Rightarrow> op_status \<times> op_device" where
  "op_device_open_channel fresh k protocol d =
    (if k \<ge> OP_MAX_CHANNELS then (OP_ERR_PARAM, d)
     else
       let rq' = (if rq (ch d k) \<noteq> None then rq (ch d k) else fresh);
           c = channel0 rq';
           c = (if rq' \<noteq> None then c\<lparr>ch_open := True, ch_protocol := protocol\<rparr> else c)
       in (if rq' \<noteq> None then OP_OK else OP_ERR_IO, d\<lparr>ch := (ch d)(k := c)\<rparr>))"

definition op_device_close_channel :: "nat \<Rightarrow> op_device \<Rightarrow> op_device" where
  "op_device_close_channel k d =
    (if k \<ge> OP_MAX_CHANNELS then d
     else d\<lparr>ch := (ch d)(k := flush_locked ((ch d k)\<lparr>ch_open := False, nperiodic := 0\<rparr>))\<rparr>)"

definition op_device_take_dropped :: "nat \<Rightarrow> op_device \<Rightarrow> u32 \<times> op_device" where
  "op_device_take_dropped k d =
    (if \<not> d_open d \<or> k \<ge> OP_MAX_CHANNELS then (0, d)
     else (dropped (ch d k), d\<lparr>ch := (ch d)(k := (ch d k)\<lparr>dropped := 0\<rparr>)\<rparr>))"

section \<open>What a reply changes\<close>

lemma stash_reply_eq: "stash_reply d r = d\<lparr>reply := reply (stash_reply d r), reply_valid := reply_valid (stash_reply d r)\<rparr>"
  by (simp add: stash_reply_def stash_accepted_def split_beta)

lemma stash_reply_fields [simp]:
  "ch (stash_reply d r) = ch d" "accum (stash_reply d r) = accum d" "d_open (stash_reply d r) = d_open d"
  "d_lost (stash_reply d r) = d_lost d" "seq_next (stash_reply d r) = seq_next d"
  "seq_pending (stash_reply d r) = seq_pending d" "cmd_waiting (stash_reply d r) = cmd_waiting d"
  "cmd_verb (stash_reply d r) = cmd_verb d" "failures (stash_reply d r) = failures d"
  "reader_started (stash_reply d r) = reader_started d" "reader_stop (stash_reply d r) = reader_stop d"
  "reader_done (stash_reply d r) = reader_done d" "t_open (stash_reply d r) = t_open d"
  "pins_grounded (stash_reply d r) = pins_grounded d" "pins_powered (stash_reply d r) = pins_powered d"
  "fw_version (stash_reply d r) = fw_version d"
  by (subst stash_reply_eq, simp)+

text \<open>One parsed reply, however the loop came to it.\<close>

definition handle :: "op_reply \<Rightarrow> op_device \<Rightarrow> op_device" where
  "handle r d = (if r_kind r = OP_REPLY_FRAME then d\<lparr>ch := absorb_frame (ch d) r\<rparr> else stash_reply d r)"

lemma handle_fields [simp]:
  "accum (handle r d) = accum d" "d_open (handle r d) = d_open d" "d_lost (handle r d) = d_lost d"
  "seq_next (handle r d) = seq_next d" "seq_pending (handle r d) = seq_pending d"
  "cmd_waiting (handle r d) = cmd_waiting d" "cmd_verb (handle r d) = cmd_verb d"
  "failures (handle r d) = failures d" "reader_started (handle r d) = reader_started d"
  "reader_stop (handle r d) = reader_stop d" "reader_done (handle r d) = reader_done d"
  "t_open (handle r d) = t_open d" "pins_grounded (handle r d) = pins_grounded d"
  "pins_powered (handle r d) = pins_powered d" "fw_version (handle r d) = fw_version d"
  by (simp_all add: handle_def)

text \<open>
  A run of the loop is a run of \<open>handle\<close> over the replies it parsed, junk left out; the bytes
  left are an end of the buffer.
\<close>

lemma consume_loop_handles:
  "\<exists>rs k. consume_loop d buf = (fold handle rs d, drop k buf) \<and>
     (\<forall>r \<in> set rs. r_kind r \<noteq> OP_REPLY_JUNK)"
proof (induction d buf rule: consume_loop.induct)
  case (1 d buf)
  obtain used r where p: "op_parse buf = (used, r)" by force
  consider "buf = [] \<or> used = 0"
    | "buf \<noteq> []" "used \<noteq> 0" "r_kind r = OP_REPLY_JUNK"
    | "buf \<noteq> []" "used \<noteq> 0" "r_kind r \<noteq> OP_REPLY_JUNK"
    by blast
  then show ?case
  proof cases
    case 1
    then show ?thesis
      using p by (subst consume_loop.simps) (auto intro!: exI [of _ "[]"] exI [of _ 0])
  next
    case 2
    let ?n = "if op_resync_offset buf > used then op_resync_offset buf else used"
    from "1.IH"(2) [OF 2(1) p [symmetric] refl 2(2) _ 2(3) refl] 2(3)
    obtain rs k where "consume_loop d (drop ?n buf) = (fold handle rs d, drop k (drop ?n buf))"
      "\<forall>r \<in> set rs. r_kind r \<noteq> OP_REPLY_JUNK" by auto
    with 2 p show ?thesis
      by (subst consume_loop.simps) (auto simp: Let_def intro!: exI [of _ rs] exI [of _ "k + ?n"])
  next
    case 3
    have step: "consume_loop d buf = consume_loop (handle r d) (drop used buf)"
      using 3 p by (subst consume_loop.simps) (simp add: handle_def)
    have "\<exists>rs k. consume_loop (handle r d) (drop used buf) =
        (fold handle rs (handle r d), drop k (drop used buf)) \<and> (\<forall>r \<in> set rs. r_kind r \<noteq> OP_REPLY_JUNK)"
      using "1.IH"(1) [OF 3(1) p [symmetric] refl 3(2)] "1.IH"(3) [OF 3(1) p [symmetric] refl 3(2) _ 3(3)]
      by (cases "r_kind r = OP_REPLY_FRAME") (simp_all add: handle_def [of r d])
    then obtain rs k where "consume_loop (handle r d) (drop used buf) =
        (fold handle rs (handle r d), drop k (drop used buf))" "\<forall>r \<in> set rs. r_kind r \<noteq> OP_REPLY_JUNK" by blast
    with 3 show ?thesis
      unfolding step by (intro exI [of _ "r # rs"] exI [of _ "k + used"]) simp
  qed
qed

lemma consume_drain:
  "drain op_parse buf = (rs, rest) \<Longrightarrow> \<forall>r \<in> set rs. r_kind r \<noteq> OP_REPLY_JUNK \<Longrightarrow>
   consume_loop d buf = (fold handle rs d, rest)"
proof (induction "length buf" arbitrary: d buf rs rule: less_induct)
  case less
  obtain used r where p: "op_parse buf = (used, r)" by force
  show ?case
  proof (cases "buf = [] \<or> used = 0")
    case True
    then show ?thesis
      using less.prems(1) p by (subst consume_loop.simps, subst (asm) drain.simps) auto
  next
    case False
    then obtain rs' where rs: "rs = r # rs'" "drain op_parse (drop used buf) = (rs', rest)"
      using less.prems(1) p by (subst (asm) drain.simps) (auto split: prod.splits)
    have "length (drop used buf) < length buf" using False by (cases buf) auto
    from less.hyps [OF this rs(2)] less.prems(2) rs(1)
    have "consume_loop (handle r d) (drop used buf) = (fold handle rs' (handle r d), rest)" by simp
    moreover have "consume_loop d buf = consume_loop (handle r d) (drop used buf)"
      using False p less.prems(2) rs(1) by (subst consume_loop.simps) (simp add: handle_def)
    ultimately show ?thesis by (simp add: rs(1))
  qed
qed

section \<open>What the reader keeps\<close>

text \<open>
  The invariant of a session: every open channel is sound and the accumulator has room for at
  least one more byte.
\<close>

definition dev_ok :: "op_device \<Rightarrow> bool" where
  "dev_ok d \<longleftrightarrow> channels_ok (ch d) \<and> length (accum d) < OP_ACCUM_CAP"

lemma channels_ok_handle: "channels_ok (ch d) \<Longrightarrow> channels_ok (ch (handle r d))"
  by (simp add: handle_def channels_ok_absorb)

lemma channels_ok_handles: "channels_ok (ch d) \<Longrightarrow> channels_ok (ch (fold handle rs d))"
  by (induction rs arbitrary: d) (simp_all add: channels_ok_handle)

lemma dev_ok_consume:
  assumes "channels_ok (ch d)" and "length (accum d) \<le> OP_ACCUM_CAP"
  shows "dev_ok (consume_accum d)"
proof -
  obtain rs k where "consume_loop d (accum d) = (fold handle rs d, drop k (accum d))"
    using consume_loop_handles by blast
  then show ?thesis
    using channels_ok_handles [OF assms(1), of rs] assms(2)
    by (auto simp: dev_ok_def consume_accum_def OP_ACCUM_CAP_def)
qed

lemma dev_ok_reader_turn: "dev_ok d \<Longrightarrow> dev_ok (reader_turn st got d)"
  unfolding reader_turn_def Let_def
  by (auto intro!: dev_ok_consume) (auto simp: dev_ok_def)

lemma channels_ok_update: "channels_ok chs \<Longrightarrow> (ch_open c \<Longrightarrow> chan_ok c) \<Longrightarrow> channels_ok (chs(k := c))"
  by (auto simp: channels_ok_def)

lemma dev_ok_channels:
  "dev_ok d \<Longrightarrow> dev_ok (op_device_flush_channel k d)"
  "dev_ok d \<Longrightarrow> dev_ok (snd (op_device_open_channel fresh k p d))"
  "dev_ok d \<Longrightarrow> dev_ok (op_device_close_channel k d)"
  "dev_ok d \<Longrightarrow> dev_ok (snd (op_device_take_dropped k d))"
proof -
  assume ok: "dev_ok d"
  have flush: "chan_ok (flush_locked c)" if "chan_ok c" for c
    using that flush_rep [of c] by (auto simp: chan_ok_def flush_locked_def dest: chan_rep_rq)
  have open': "chan_ok (ch d k)" if "ch_open (ch d k)" for k
    using ok that by (simp add: dev_ok_def channels_ok_def)
  show "dev_ok (op_device_flush_channel k d)"
    using ok open' flush
    by (auto simp: dev_ok_def op_device_flush_channel_def flush_locked_def intro!: channels_ok_update)
  show "dev_ok (op_device_close_channel k d)"
    using ok by (auto simp: dev_ok_def op_device_close_channel_def flush_locked_def intro!: channels_ok_update)
  have "chan_ok ((ch d k)\<lparr>dropped := 0\<rparr>)" if "ch_open (ch d k)"
    using open' [OF that] chan_rep_frame [of "(ch d k)\<lparr>dropped := 0\<rparr>" "ch d k"] by (simp add: chan_ok_def)
  with ok show "dev_ok (snd (op_device_take_dropped k d))"
    by (auto simp: dev_ok_def op_device_take_dropped_def intro!: channels_ok_update)
  have "chan_ok ((channel0 (Some m))\<lparr>ch_open := True, ch_protocol := p\<rparr>)" for m
    using channel0_rep [of m] chan_rep_frame [of "(channel0 (Some m))\<lparr>ch_open := True, ch_protocol := p\<rparr>" "channel0 (Some m)"]
    by (auto simp: chan_ok_def channel0_def)
  with ok show "dev_ok (snd (op_device_open_channel fresh k p d))"
    by (auto simp: dev_ok_def op_device_open_channel_def Let_def channel0_def intro!: channels_ok_update)
qed

section \<open>The stream, however it is cut\<close>

lemma length_frame_bytes: "length (frame_bytes k st body) = 5 + length body"
  by (simp add: frame_bytes_def)

lemma length_frame:
  assumes "is_frame m" and "dev_wf m"
  shows "length (render m) \<le> 259"
proof (cases m)
  case (D_Stamped k st ts d)
  with assms(2) have "length d \<le> 250" by (simp only: dev_wf.simps)
  then show ?thesis unfolding D_Stamped render.simps length_frame_bytes by (simp add: be32_def)
next
  case (D_Plain k st d)
  with assms(2) have "length d \<le> 254" by (simp only: dev_wf.simps)
  then show ?thesis unfolding D_Plain render.simps length_frame_bytes by simp
qed (use assms(1) in \<open>simp_all only: is_frame.simps\<close>)

lemma length_render: "dev_fits m \<Longrightarrow> length (render m) \<le> 259"
  using length_frame [of m] by (auto simp: dev_fits_def)

lemma dev_record_length: "dev_record b r \<Longrightarrow> length b \<le> 259"
  by (auto simp: dev_record_def length_render)

lemma dev_record_kind: "dev_record b r \<Longrightarrow> r_kind r \<noteq> OP_REPLY_JUNK"
  using meaning_kind by (auto simp: dev_record_def)

lemma handles_fields [simp]:
  "accum (fold handle rs d) = accum d" "failures (fold handle rs d) = failures d"
  "reader_started (fold handle rs d) = reader_started d" "reader_stop (fold handle rs d) = reader_stop d"
  "reader_done (fold handle rs d) = reader_done d"
  by (induction rs arbitrary: d) simp_all

lemma stash_reply_accum: "stash_reply (d\<lparr>accum := x\<rparr>) r = (stash_reply d r)\<lparr>accum := x\<rparr>"
  by (simp add: stash_reply_def stash_accepted_def split_beta)

lemma handle_accum: "handle r (d\<lparr>accum := x\<rparr>) = (handle r d)\<lparr>accum := x\<rparr>"
  by (simp add: handle_def stash_reply_accum)

lemma handles_accum: "fold handle rs (d\<lparr>accum := x\<rparr>) = (fold handle rs d)\<lparr>accum := x\<rparr>"
  by (induction rs arbitrary: d) (simp_all add: handle_accum)

text \<open>The reader thread is running and its last read was good.\<close>

definition reading :: "op_device \<Rightarrow> bool" where
  "reading d \<longleftrightarrow> reader_started d \<and> \<not> reader_done d \<and> \<not> reader_stop d \<and> failures d = 0"

definition part_record :: "u8 list \<Rightarrow> bool" where
  "part_record p \<longleftrightarrow> p = [] \<or> (\<exists>q r. q \<noteq> [] \<and> dev_record (p @ q) r)"

lemma part_record_length: "part_record p \<Longrightarrow> length p \<le> 259"
  using dev_record_length by (fastforce simp: part_record_def)

lemma turn_records:
  assumes "reading d" and "got \<noteq> []" and "length got \<le> 1024" and "part_record (accum d)"
    and "accum d @ got = concat bs @ p" and "list_all2 dev_record bs rs" and "part_record p"
  shows "reader_turn OP_OK got d = (fold handle rs d)\<lparr>accum := p\<rparr>"
proof -
  have room: "length got < OP_ACCUM_CAP - length (accum d)"
    using part_record_length [OF assms(4)] assms(3) by (simp add: OP_ACCUM_CAP_def)
  have "drain op_parse (accum d @ got) = (rs, p)"
    unfolding assms(5) using assms(6,7) by (intro wire.drain_wholes) (simp_all add: part_record_def)
  moreover have "\<forall>r \<in> set rs. r_kind r \<noteq> OP_REPLY_JUNK"
    using assms(6) dev_record_kind by (metis in_set_conv_nth list_all2_conv_all_nth)
  ultimately have "consume_loop (d\<lparr>accum := accum d @ got\<rparr>) (accum d @ got) =
      ((fold handle rs d)\<lparr>accum := accum d @ got\<rparr>, p)"
    using consume_drain [of "accum d @ got" rs p] by (simp add: handles_accum)
  moreover have "length p \<noteq> OP_ACCUM_CAP"
    using part_record_length [OF assms(7)] by (simp add: OP_ACCUM_CAP_def)
  ultimately have consume: "consume_accum (d\<lparr>accum := accum d @ got\<rparr>) = (fold handle rs d)\<lparr>accum := p\<rparr>"
    by (simp add: consume_accum_def)
  have same: "d\<lparr>failures := 0, accum := x\<rparr> = d\<lparr>accum := x\<rparr>" for x
    using assms(1) by (cases d) (simp add: reading_def)
  have "reader_turn OP_OK got d = consume_accum (d\<lparr>failures := 0, accum := accum d @ got\<rparr>)"
    using assms(1,2) room by (simp add: reader_turn_def reading_def)
  then show ?thesis by (simp only: same consume)
qed

lemma turns_stream:
  "list_all2 dev_record bs rs \<Longrightarrow> reading d \<Longrightarrow> part_record (accum d) \<Longrightarrow>
   accum d @ concat cs = concat bs \<Longrightarrow> \<forall>c \<in> set cs. c \<noteq> [] \<and> length c \<le> 1024 \<Longrightarrow>
   fold (reader_turn OP_OK) cs d = (fold handle rs d)\<lparr>accum := []\<rparr>"
proof (induction cs arbitrary: d bs rs)
  case Nil
  then have "drain op_parse (concat bs @ []) = (rs, [])"
    by (intro wire.drain_wholes) auto
  moreover have "drain op_parse (accum d) = ([], accum d)"
    using Nil.prems(3) by (intro wire.drain_part) (simp add: part_record_def)
  ultimately have "rs = []" "accum d = []" using Nil.prems(4) by auto
  then show ?case by simp
next
  case (Cons c cs)
  from Cons.prems(4) have "(accum d @ c) @ concat cs = concat bs" by simp
  from wire.prefix_of_wholes [OF Cons.prems(1) this] obtain k p where
    k: "accum d @ c = concat (take k bs) @ p" "p @ concat cs = concat (drop k bs)" and p: "part_record p"
    by (auto simp: part_record_def)
  let ?d = "(fold handle (take k rs) d)\<lparr>accum := p\<rparr>"
  have turn: "reader_turn OP_OK c d = ?d"
    using Cons.prems k(1) p by (intro turn_records list_all2_takeI) auto
  have "reading ?d" using Cons.prems(2) by (simp add: reading_def)
  from Cons.IH [OF list_all2_dropI [OF Cons.prems(1)] this, of k] p k(2) Cons.prems(5)
  have "fold (reader_turn OP_OK) cs ?d = (fold handle (drop k rs) ?d)\<lparr>accum := []\<rparr>" by simp
  also have "\<dots> = (fold handle rs d)\<lparr>accum := []\<rparr>"
    unfolding handles_accum using fold_append [of handle "take k rs" "drop k rs"] by (simp add: comp_def)
  finally show ?case by (simp add: turn)
qed

section \<open>Properties\<close>

text \<open>C6. However the transport cuts the device's byte stream into reads, the session ends as if
  each message had been handled whole, in order, and nothing is left over: no frame and no reply
  is lost, doubled or torn at a read boundary.\<close>

theorem stream_independent_of_reads:
  assumes "list_all2 dev_record bs rs" and "concat cs = concat bs"
    and "\<forall>c \<in> set cs. c \<noteq> [] \<and> length c \<le> 1024" and "reading d" and "accum d = []"
  shows "fold (reader_turn OP_OK) cs d = (fold handle rs d)\<lparr>accum := []\<rparr>"
  using assms by (intro turns_stream [of bs rs d cs]) (simp_all add: part_record_def)

theorem stream_independent_of_reads_witness:
  "\<exists>d. d = fold (reader_turn OP_OK) [ascii ''ar'', ascii ''o'' @ [13], [10]]
       (g_device\<lparr>reader_started := True, cmd_waiting := True\<rparr>) \<and> reply_valid d \<and> accum d = []"
proof -
  have rec: "list_all2 dev_record [render (D_Ok [])] [meaning (D_Ok [])]"
    by (auto simp: dev_record_def dev_fits_def line_bytes_def text_simps intro!: exI [of _ "D_Ok []"])
  have "fold (reader_turn OP_OK) [ascii ''ar'', ascii ''o'' @ [13], [10]]
       (g_device\<lparr>reader_started := True, cmd_waiting := True\<rparr>) =
     (fold handle [meaning (D_Ok [])] (g_device\<lparr>reader_started := True, cmd_waiting := True\<rparr>))\<lparr>accum := []\<rparr>"
    by (rule stream_independent_of_reads [OF rec])
      (auto simp: line_bytes_def text_simps reading_def g_device_def)
  then show ?thesis
    by (simp add: handle_def stash_reply_def stash_accepted_def stash_slot_def g_device_def)
qed

text \<open>C31. While a numbered command waits, a reply that is no init reply becomes its answer
  exactly when it is not an information line and its last number is the command's.\<close>

theorem only_the_echo_answers:
  assumes "\<not> reply_valid d" and "seq_pending d \<noteq> 0" and "r_kind r \<noteq> OP_REPLY_INIT"
  shows "reply_valid (stash_reply d r) \<longleftrightarrow>
    cmd_waiting d \<and> r_kind r \<noteq> OP_REPLY_INFO \<and> r_tail r \<noteq> [] \<and> last (r_tail r) = seq_pending d"
  using assms
  by (auto simp: stash_reply_def stash_accepted_def stash_slot_def Let_def r_ntail_def last_tail_def last_conv_nth)

theorem only_the_echo_answers_witness:
  "reply_valid (stash_reply (g_device\<lparr>cmd_waiting := True, seq_pending := 300\<rparr>)
      ((reply0 OP_REPLY_OK)\<lparr>r_tail := [300]\<rparr>)) \<and>
   \<not> reply_valid (stash_reply (g_device\<lparr>cmd_waiting := True, seq_pending := 300\<rparr>)
      ((reply0 OP_REPLY_OK)\<lparr>r_tail := [299]\<rparr>))"
  using only_the_echo_answers [of "g_device\<lparr>cmd_waiting := True, seq_pending := 300\<rparr>"
      "(reply0 OP_REPLY_OK)\<lparr>r_tail := [300]\<rparr>"]
    only_the_echo_answers [of "g_device\<lparr>cmd_waiting := True, seq_pending := 300\<rparr>"
      "(reply0 OP_REPLY_OK)\<lparr>r_tail := [299]\<rparr>"]
  by (simp add: g_device_def)

text \<open>An init reply answers only a waiting \<open>aty\<close> or \<open>atw\<close>, and one that carries raw bytes
  and a number only the command of that number.\<close>

lemma init_reply_answers:
  assumes "\<not> reply_valid d" and "r_kind r = OP_REPLY_INIT" and "reply_valid (stash_reply d r)"
  shows "cmd_waiting d \<and> cmd_verb d \<in> {of_char CHR ''y'', of_char CHR ''w''} \<and>
    (seq_pending d \<noteq> 0 \<and> r_data_len r > 0 \<and> r_tail r \<noteq> [] \<longrightarrow> last (r_tail r) = seq_pending d)"
  using assms
  by (auto simp: stash_reply_def stash_accepted_def stash_slot_def Let_def r_ntail_def last_tail_def last_conv_nth
      r_data_len_def split: if_splits option.splits)

text \<open>A late init reply with another number is refused, but the refusal comes after the slot
  was overwritten: when the command's own answer was already in the slot and its thread has not
  yet run, the slot stays marked valid and now holds the stale reply.\<close>

lemma stale_init_overwrites:
  assumes "cmd_waiting d" and "reply_valid d" and "seq_pending d \<noteq> 0"
    and "cmd_verb d \<in> {of_char CHR ''y'', of_char CHR ''w''}"
    and "r_kind r = OP_REPLY_INIT" and "r_data_len r > 0" and "r_tail r \<noteq> []"
    and "last (r_tail r) \<noteq> seq_pending d"
  shows "reply_valid (stash_reply d r) \<and> r_data (reply (stash_reply d r)) = r_data r \<and>
    r_tail (reply (stash_reply d r)) = r_tail r"
proof -
  from assms(6) have "r_data r \<noteq> None" by (cases "r_data r") simp_all
  with assms show ?thesis
    by (auto simp: stash_reply_def stash_accepted_def stash_slot_def Let_def r_ntail_def last_tail_def last_conv_nth
        split: option.splits)
qed

lemma failing_turns:
  assumes "reader_started d" and "\<not> reader_done d" and "\<not> reader_stop d" and "\<not> d_lost d"
    and "\<forall>st \<in> set sts. st \<notin> {OP_OK, OP_ERR_TIMEOUT, OP_ERR_NO_DEVICE}"
    and "failures d + length sts < 50"
  shows "fold (\<lambda>st. reader_turn st []) sts d = d\<lparr>failures := failures d + length sts\<rparr>"
  using assms
proof (induction sts arbitrary: d)
  case Nil
  then show ?case by simp
next
  case (Cons st sts)
  have "reader_turn st [] d = d\<lparr>failures := failures d + 1\<rparr>"
    using Cons.prems by (simp add: reader_turn_def)
  with Cons.IH [of "d\<lparr>failures := failures d + 1\<rparr>"] Cons.prems show ?case by simp
qed

text \<open>A cable is given up exactly at the fiftieth failing read in a row; a transport that
  says the device is gone is believed at once.\<close>

lemma fifty_failures:
  assumes "reader_started d" and "\<not> reader_done d" and "\<not> reader_stop d" and "\<not> d_lost d"
    and "failures d = 0" and "\<forall>st \<in> set sts. st \<notin> {OP_OK, OP_ERR_TIMEOUT, OP_ERR_NO_DEVICE}"
    and "st \<notin> {OP_OK, OP_ERR_TIMEOUT}" and "length sts < 50"
  shows "d_lost (fold (\<lambda>st. reader_turn st []) (sts @ [st]) d) \<longleftrightarrow>
    st = OP_ERR_NO_DEVICE \<or> length sts = 49"
proof -
  have "fold (\<lambda>st. reader_turn st []) sts d = d\<lparr>failures := length sts\<rparr>"
    using failing_turns [of d sts] assms by simp
  with assms show ?thesis by (auto simp: reader_turn_def Let_def)
qed

end
