(* ===== verification/Exchange.thy ===== *)
theory Exchange
  imports Session Proto_Cmd
begin

text \<open>
  Command transactions and the lifecycle of the session (src/op_device.c): \<open>cmd_exchange\<close>,
  \<open>sync_device\<close>, \<open>op_device_open\<close>, \<open>op_device_close\<close>, \<open>op_device_pop\<close>.

  A thread that takes the lock between two steps of another is an event: a turn of the reader
  with what the transport gave it, or the first locked region of a close. Each operation that
  can wait consumes one record of the schedule \<open>sched\<close>, which says what the transport answered
  and which events fell between its locked regions and before each time its condition was
  checked again; the end of the list is the deadline. The theorems hold for every schedule.
\<close>

section \<open>Events and schedules\<close>

datatype dev_event = Rd op_status "u8 list" | Closing

fun apply_event :: "dev_event \<Rightarrow> op_device \<Rightarrow> op_device" where
  "apply_event (Rd st got) d = reader_turn st got d"
| "apply_event Closing d = d\<lparr>d_open := False\<rparr>"

abbreviation apply_events :: "dev_event list \<Rightarrow> op_device \<Rightarrow> op_device" where
  "apply_events \<equiv> fold apply_event"

record cmd_env =
  e_claim :: "dev_event list"
  e_write :: op_status
  e_during :: "dev_event list"
  e_wait :: "dev_event list list"

text \<open>Nothing happens: the write succeeds and the deadline passes.\<close>

definition env0 :: cmd_env where
  "env0 = \<lparr>e_claim = [], e_write = OP_OK, e_during = [], e_wait = []\<rparr>"

text \<open>
  The process: the session, what was handed to \<open>op_write\<close> (bytes and timeout), the schedule and
  the calling thread's error text.
\<close>

record world =
  dev :: op_device
  sent :: "(u8 list \<times> u32) list"
  sched :: "cmd_env list"
  err_text :: string

definition next_env :: "world \<Rightarrow> cmd_env \<times> world" where
  "next_env w = (case sched w of [] \<Rightarrow> (env0, w) | e # es \<Rightarrow> (e, w\<lparr>sched := es\<rparr>))"

definition on_dev :: "(op_device \<Rightarrow> op_device) \<Rightarrow> world \<Rightarrow> world" where
  "on_dev f w = w\<lparr>dev := f (dev w)\<rparr>"

lemma on_dev_sel [simp]:
  "dev (on_dev f w) = f (dev w)" "sent (on_dev f w) = sent w" "sched (on_dev f w) = sched w"
  "err_text (on_dev f w) = err_text w"
  by (simp_all add: on_dev_def)

lemma next_env_sel [simp]:
  "dev (snd (next_env w)) = dev w" "sent (snd (next_env w)) = sent w"
  "err_text (snd (next_env w)) = err_text w"
  by (simp_all add: next_env_def split: list.split)

section \<open>A command transaction\<close>

text \<open>The wait on \<open>reply_cv\<close>: the condition is checked again after each batch of events.\<close>

fun wait_reply :: "dev_event list list \<Rightarrow> op_device \<Rightarrow> op_device" where
  "wait_reply [] d = d"
| "wait_reply (b # bs) d =
     (if \<not> reply_valid d \<and> d_open d \<and> \<not> d_lost d then wait_reply bs (apply_events b d) else d)"

text \<open>The number a command gets, and the next one: never below 256.\<close>

definition take_seq :: "op_device \<Rightarrow> u32 \<times> op_device" where
  "take_seq d = (seq_next d, d\<lparr>seq_next := (if seq_next d + 1 < 256 then 256 else seq_next d + 1)\<rparr>)"

text \<open>The numbered line, \<open>[]\<close> where numbering fails, and the number it carries, 0 for none.\<close>

definition number_line :: "u8 list \<Rightarrow> op_device \<Rightarrow> u8 list \<times> u32 \<times> op_device" where
  "number_line line d =
     (if op_cmd_is_numbered line then
        let (seq, d) = take_seq d in (op_cmd_number line (OP_CMD_MAX + 16) seq, seq, d)
      else (line, 0, d))"

definition claim_slot :: "bool \<Rightarrow> u32 \<Rightarrow> u8 \<Rightarrow> op_device \<Rightarrow> op_device" where
  "claim_slot wait seq verb d =
     d\<lparr>reply_valid := False, cmd_waiting := wait, seq_pending := seq, cmd_verb := verb\<rparr>"

text \<open>What happens after the write succeeded and the command waits: the answer, and the slot freed.\<close>

definition await_reply :: "dev_event list list \<Rightarrow> op_device \<Rightarrow> op_status \<times> op_reply option \<times> op_device" where
  "await_reply bs d =
     (let d = wait_reply bs d in
      if reply_valid d then (OP_OK, Some (reply d), d\<lparr>reply_valid := False, cmd_waiting := False\<rparr>)
      else (if \<not> d_open d \<or> d_lost d then OP_ERR_NO_DEVICE else OP_ERR_TIMEOUT, None,
            d\<lparr>cmd_waiting := False\<rparr>))"

text \<open>The session after the claim of the slot and the write; then the rest, to the return.\<close>

definition claimed :: "bool \<Rightarrow> cmd_env \<Rightarrow> u8 list \<Rightarrow> u32 \<Rightarrow> op_device \<Rightarrow> op_device" where
  "claimed wait e numbered seq d =
     (let d = apply_events (e_claim e) d;
          d = claim_slot wait seq (numbered ! 2) d
      in apply_events (e_during e) d)"

definition exchange_locked ::
  "bool \<Rightarrow> cmd_env \<Rightarrow> u8 list \<Rightarrow> u32 \<Rightarrow> op_device \<Rightarrow> op_status \<times> op_reply option \<times> op_device" where
  "exchange_locked wait e numbered seq d =
     (let d = claimed wait e numbered seq d in
      if e_write e \<noteq> OP_OK \<or> \<not> wait then (e_write e, None, d\<lparr>cmd_waiting := False\<rparr>)
      else await_reply (e_wait e) d)"

definition cmd_exchange ::
  "u8 list \<Rightarrow> u8 list \<Rightarrow> u32 \<Rightarrow> bool \<Rightarrow> world \<Rightarrow> op_status \<times> op_reply option \<times> world" where
  "cmd_exchange line payload timeout_ms wait w =
    (if line = [] then (OP_ERR_PARAM, None, w)
     else if length line \<ge> OP_CMD_MAX + 16 - 16 \<or> length payload > OP_MSG_MAX then (OP_ERR_PARAM, None, w)
     else
       let timeout_ms = (if timeout_ms = 0 then 1000 else timeout_ms);
           (e, w) = next_env w in
       if \<not> d_open (dev w) \<or> d_lost (dev w) then (OP_ERR_NO_DEVICE, None, w)
       else
         let (numbered, seq, d) = number_line line (dev w) in
         if numbered = [] then (OP_ERR_PARAM, None, w\<lparr>dev := d\<rparr>)
         else
           let (st, r, d) = exchange_locked wait e numbered seq d
           in (st, r, w\<lparr>sent := sent w @ [(numbered @ payload, timeout_ms)], dev := d\<rparr>))"

definition op_device_cmd ::
  "u8 list \<Rightarrow> u8 list \<Rightarrow> u32 \<Rightarrow> world \<Rightarrow> op_status \<times> op_reply option \<times> world" where
  "op_device_cmd line payload timeout_ms w = cmd_exchange line payload timeout_ms True w"

definition op_device_send_nowait :: "u8 list \<Rightarrow> u8 list \<Rightarrow> world \<Rightarrow> op_status \<times> world" where
  "op_device_send_nowait line payload w =
     (let (st, r, w) = cmd_exchange line payload 1000 False w in (st, w))"

section \<open>Opening and closing\<close>

definition op_device_close :: "world \<Rightarrow> world" where
  "op_device_close w =
    (if \<not> d_open (dev w) then w
     else
       let w = on_dev (\<lambda>d. d\<lparr>d_open := False\<rparr>) w;
           (e, w) = next_env w
       in on_dev (\<lambda>d. (apply_events (e_during e) d)
                   \<lparr>reader_stop := True, reader_started := False, t_open := False\<rparr>) w)"

text \<open>
  The sync loop: \<open>n\<close> attempts are left. The device is always written to with the session open, so
  the terminator before the first command does not go through \<open>cmd_exchange\<close>.
\<close>

fun sync_resets :: "nat \<Rightarrow> world \<Rightarrow> op_status \<times> world" where
  "sync_resets 0 w = (OP_ERR_TIMEOUT, w)"
| "sync_resets (Suc n) w =
     (let (st, r, w) = op_device_cmd (op_cmd_reset OP_CMD_MAX) [] 1000 w
      in if st = OP_ERR_TIMEOUT then sync_resets n w else (st, w))"

definition sync_device :: "world \<Rightarrow> op_status \<times> world" where
  "sync_device w =
    (let (e, w) = next_env w;
         w = w\<lparr>sent := sent w @ [([13, 10, 13, 10], 200)]\<rparr>;
         w = on_dev (apply_events (e_during e)) w in
     if e_write e = OP_ERR_STALLED then (OP_ERR_STALLED, w)
     else
       let (st, w) = sync_resets 3 w;
           (st, w) = (if st = OP_OK then
                        let (st, r, w) = op_device_cmd (op_cmd_close_all OP_CMD_MAX) [] 1000 w
                        in (if st = OP_OK \<and> (case r of Some r \<Rightarrow> r_kind r \<noteq> OP_REPLY_OK | None \<Rightarrow> False)
                            then OP_ERR_PROTOCOL else st, w)
                      else (st, w))
       in (if st = OP_OK then OP_OK else if st = OP_ERR_TIMEOUT then OP_ERR_PROTOCOL else st, w))"

text \<open>What the environment does during an open: the factory, the clock and the new thread.\<close>

record open_env =
  o_factory :: op_status
  o_millis :: nat
  o_thread :: bool

definition reset_session :: "nat \<Rightarrow> op_device \<Rightarrow> op_device" where
  "reset_session millis d =
     d\<lparr>ch := (\<lambda>i. if i < OP_MAX_CHANNELS then channel0 (rq (ch d i)) else ch d i),
       pins_grounded := 0, pins_powered := 0, accum := [], reply_valid := False,
       cmd_waiting := False, d_lost := False,
       seq_next := 256 + of_nat (millis mod 900000), seq_pending := 0, reader_stop := False,
       fw_version := []\<rparr>"

definition op_device_open :: "open_env \<Rightarrow> world \<Rightarrow> op_status \<times> world" where
  "op_device_open oe w =
    (if d_open (dev w) then (OP_OK, w)
     else
       let w = on_dev (reset_session (o_millis oe)) w in
       if o_factory oe \<noteq> OP_OK then (o_factory oe, w)
       else if \<not> o_thread oe then (OP_ERR_IO, on_dev (\<lambda>d. d\<lparr>t_open := False\<rparr>) w)
       else
         let w = on_dev (\<lambda>d. d\<lparr>t_open := True, reader_started := True, reader_done := False,
                               failures := 0, d_open := True\<rparr>) w;
             (st, w) = sync_device w
         in if st \<noteq> OP_OK then (st, op_device_close w) else (OP_OK, w))"

section \<open>Taking a message\<close>

fun wait_message :: "nat \<Rightarrow> dev_event list list \<Rightarrow> op_device \<Rightarrow> op_device" where
  "wait_message k [] d = d"
| "wait_message k (b # bs) d =
     (if qcount (ch d k) = 0 \<and> d_open d \<and> \<not> d_lost d then wait_message k bs (apply_events b d) else d)"

definition op_device_pop :: "nat \<Rightarrow> u32 \<Rightarrow> world \<Rightarrow> op_status \<times> PASSTHRU_MSG option \<times> world" where
  "op_device_pop k timeout_ms w =
    (if k \<ge> OP_MAX_CHANNELS then (OP_ERR_PARAM, None, w)
     else
       let (e, w) = next_env w;
           d = (if timeout_ms > 0 then wait_message k (e_wait e) (dev w) else dev w) in
       if \<not> d_open d \<or> d_lost d then (OP_ERR_NO_DEVICE, None, w\<lparr>dev := d\<rparr>)
       else if qcount (ch d k) > 0 then
         let (m, c) = queue_pop (ch d k) in (OP_OK, Some m, w\<lparr>dev := d\<lparr>ch := (ch d)(k := c)\<rparr>\<rparr>)
       else (OP_ERR_TIMEOUT, None, w\<lparr>dev := d\<rparr>))"

section \<open>What events leave alone\<close>

text \<open>
  A fact about the session survives every turn of the reader when the handling of one reply and
  the reader's own bookkeeping keep it.
\<close>

lemma reader_turn_keeps:
  assumes handle: "\<And>r d. P d \<Longrightarrow> P (handle r d)"
    and book: "\<And>d x. P d \<Longrightarrow> P (d\<lparr>accum := x\<rparr>)" "\<And>d x. P d \<Longrightarrow> P (d\<lparr>failures := x\<rparr>)"
      "\<And>d x. P d \<Longrightarrow> P (d\<lparr>d_lost := x\<rparr>)" "\<And>d x. P d \<Longrightarrow> P (d\<lparr>reader_done := x\<rparr>)"
    and P: "P d"
  shows "P (reader_turn st got d)"
proof -
  have handles: "P (fold handle rs d)" if "P d" for rs d
    using that by (induction rs arbitrary: d) (simp_all add: handle)
  have consume: "P (consume_accum d)" if "P d" for d
  proof -
    obtain rs k where "consume_loop d (accum d) = (fold handle rs d, drop k (accum d))"
      using consume_loop_handles by blast
    then show ?thesis using handles [OF that, of rs] by (simp add: consume_accum_def book)
  qed
  have lost: "P (d\<lparr>d_lost := x, reader_done := y\<rparr>)" if "P d" for d x y
    using book(3) [OF that, of x] book(4) [of "d\<lparr>d_lost := x\<rparr>" y] by simp
  show ?thesis
    using P unfolding reader_turn_def Let_def by (auto intro!: book consume lost)
qed

lemma apply_event_keeps:
  assumes "\<And>r d. P d \<Longrightarrow> P (handle r d)"
    and "\<And>d x. P d \<Longrightarrow> P (d\<lparr>accum := x\<rparr>)" "\<And>d x. P d \<Longrightarrow> P (d\<lparr>failures := x\<rparr>)"
      "\<And>d x. P d \<Longrightarrow> P (d\<lparr>d_lost := x\<rparr>)" "\<And>d x. P d \<Longrightarrow> P (d\<lparr>reader_done := x\<rparr>)"
      "\<And>d x. P d \<Longrightarrow> P (d\<lparr>d_open := x\<rparr>)"
    and "P d"
  shows "P (apply_event e d)"
  using assms(7) by (cases e) (simp_all add: assms(6) reader_turn_keeps [where P = P, OF assms(1-5)])

lemma apply_events_keeps:
  "(\<And>e d. P d \<Longrightarrow> P (apply_event e d)) \<Longrightarrow> P d \<Longrightarrow> P (apply_events es d)"
  by (induction es arbitrary: d) simp_all

lemma wait_reply_keeps:
  "(\<And>e d. P d \<Longrightarrow> P (apply_event e d)) \<Longrightarrow> P d \<Longrightarrow> P (wait_reply bs d)"
  by (induction bs d rule: wait_reply.induct) (simp_all add: apply_events_keeps)

lemma wait_message_keeps:
  "(\<And>e d. P d \<Longrightarrow> P (apply_event e d)) \<Longrightarrow> P d \<Longrightarrow> P (wait_message k bs d)"
  by (induction k bs d rule: wait_message.induct) (simp_all add: apply_events_keeps)

lemma apply_event_fields [simp]:
  "seq_next (apply_event e d) = seq_next d" "seq_pending (apply_event e d) = seq_pending d"
  "cmd_waiting (apply_event e d) = cmd_waiting d" "cmd_verb (apply_event e d) = cmd_verb d"
  "pins_grounded (apply_event e d) = pins_grounded d" "pins_powered (apply_event e d) = pins_powered d"
  "t_open (apply_event e d) = t_open d" "fw_version (apply_event e d) = fw_version d"
  "reader_started (apply_event e d) = reader_started d" "reader_stop (apply_event e d) = reader_stop d"
  by (rule apply_event_keeps [where P = "\<lambda>d'. f d' = f d" for f]; simp)+

lemma apply_events_fields [simp]:
  "seq_next (apply_events es d) = seq_next d" "seq_pending (apply_events es d) = seq_pending d"
  "cmd_waiting (apply_events es d) = cmd_waiting d" "cmd_verb (apply_events es d) = cmd_verb d"
  "pins_grounded (apply_events es d) = pins_grounded d" "pins_powered (apply_events es d) = pins_powered d"
  "t_open (apply_events es d) = t_open d" "fw_version (apply_events es d) = fw_version d"
  "reader_started (apply_events es d) = reader_started d" "reader_stop (apply_events es d) = reader_stop d"
  by (induction es arbitrary: d) simp_all

lemma wait_reply_fields [simp]:
  "seq_next (wait_reply bs d) = seq_next d" "seq_pending (wait_reply bs d) = seq_pending d"
  "cmd_waiting (wait_reply bs d) = cmd_waiting d" "cmd_verb (wait_reply bs d) = cmd_verb d"
  "pins_grounded (wait_reply bs d) = pins_grounded d" "pins_powered (wait_reply bs d) = pins_powered d"
  by (induction bs d rule: wait_reply.induct) simp_all

section \<open>The slot\<close>

text \<open>
  A valid answer to a numbered command carries its number, unless it is an init reply; and that is an
  answer to an \<open>aty\<close> or \<open>atw\<close> only.
\<close>

definition init_verb :: "u8 \<Rightarrow> bool" where
  "init_verb v \<longleftrightarrow> v = of_char CHR ''y'' \<or> v = of_char CHR ''w''"

definition slot_ok :: "op_device \<Rightarrow> bool" where
  "slot_ok d \<longleftrightarrow> (reply_valid d \<and> seq_pending d \<noteq> 0 \<and> r_kind (reply d) \<noteq> OP_REPLY_INIT \<longrightarrow>
     r_kind (reply d) \<noteq> OP_REPLY_INFO \<and> r_tail (reply d) \<noteq> [] \<and> last (r_tail (reply d)) = seq_pending d) \<and>
     (reply_valid d \<and> r_kind (reply d) = OP_REPLY_INIT \<longrightarrow> init_verb (cmd_verb d))"

lemma stash_slot_kind [simp]:
  "r_kind (fst (stash_slot seq r)) = r_kind r" "r_tail (fst (stash_slot seq r)) = r_tail r"
  by (simp_all add: stash_slot_def Let_def split: option.split)

lemma slot_ok_stash: "slot_ok d \<Longrightarrow> slot_ok (stash_reply d r)"
  by (auto simp: slot_ok_def stash_reply_def stash_accepted_def split_beta r_ntail_def last_tail_def
      last_conv_nth init_verb_def)

lemma slot_ok_event: "slot_ok d \<Longrightarrow> slot_ok (apply_event e d)"
proof (rule apply_event_keeps [where P = slot_ok])
  fix r d
  assume "slot_ok d"
  then show "slot_ok (handle r d)"
    using slot_ok_stash [of d r] by (auto simp: handle_def) (simp add: slot_ok_def)
qed (simp_all add: slot_ok_def)

lemma dev_ok_event: "dev_ok d \<Longrightarrow> dev_ok (apply_event e d)"
  using dev_ok_reader_turn by (cases e) (auto simp: dev_ok_def)

text \<open>Nothing claims a slot no command waits for.\<close>

lemma idle_event:
  assumes "\<not> cmd_waiting d"
  shows "reply (apply_events es d) = reply d \<and> reply_valid (apply_events es d) = reply_valid d \<and>
    \<not> cmd_waiting (apply_events es d)"
  by (rule apply_events_keeps [where P = "\<lambda>d'. reply d' = reply d \<and> reply_valid d' = reply_valid d \<and>
      \<not> cmd_waiting d'"], rule apply_event_keeps [where P = "\<lambda>d'. reply d' = reply d \<and>
      reply_valid d' = reply_valid d \<and> \<not> cmd_waiting d'"])
    (use assms in \<open>simp_all add: handle_def stash_reply_def\<close>)

section \<open>One transaction\<close>

lemma claim_slot_ok [simp]: "slot_ok (claim_slot wait seq v d)"
  by (simp add: slot_ok_def claim_slot_def)

lemma claim_slot_fields [simp]:
  "seq_pending (claim_slot wait seq v d) = seq" "seq_next (claim_slot wait seq v d) = seq_next d"
  "cmd_waiting (claim_slot wait seq v d) = wait" "d_open (claim_slot wait seq v d) = d_open d"
  "d_lost (claim_slot wait seq v d) = d_lost d" "ch (claim_slot wait seq v d) = ch d"
  "accum (claim_slot wait seq v d) = accum d" "failures (claim_slot wait seq v d) = failures d"
  "pins_grounded (claim_slot wait seq v d) = pins_grounded d"
  "pins_powered (claim_slot wait seq v d) = pins_powered d"
  by (simp_all add: claim_slot_def)

lemma claimed_fields [simp]:
  "seq_pending (claimed wait e n seq d) = seq" "seq_next (claimed wait e n seq d) = seq_next d"
  "cmd_waiting (claimed wait e n seq d) = wait"
  "pins_grounded (claimed wait e n seq d) = pins_grounded d"
  "pins_powered (claimed wait e n seq d) = pins_powered d" "cmd_verb (claimed wait e n seq d) = n ! 2"
  by (simp_all add: claimed_def Let_def claim_slot_def)

lemma events_keep_ok:
  "slot_ok d \<Longrightarrow> slot_ok (apply_events es d)" "dev_ok d \<Longrightarrow> dev_ok (apply_events es d)"
  "slot_ok d \<Longrightarrow> slot_ok (wait_reply bs d)" "dev_ok d \<Longrightarrow> dev_ok (wait_reply bs d)"
  using apply_events_keeps [where P = slot_ok, OF slot_ok_event]
    apply_events_keeps [where P = dev_ok, OF dev_ok_event]
    wait_reply_keeps [where P = slot_ok, OF slot_ok_event]
    wait_reply_keeps [where P = dev_ok, OF dev_ok_event]
  by blast+

lemma claimed_slot_ok: "slot_ok (claimed wait e n seq d)"
  by (simp add: claimed_def Let_def events_keep_ok)

lemma claim_slot_dev_ok: "dev_ok (claim_slot wait seq v d) = dev_ok d"
  by (simp add: dev_ok_def)

lemma claimed_dev_ok: "dev_ok d \<Longrightarrow> dev_ok (claimed wait e n seq d)"
  by (simp add: claimed_def Let_def events_keep_ok claim_slot_dev_ok)

lemma await_cases:
  assumes "await_reply bs d = (st, r, d')"
  obtains "reply_valid (wait_reply bs d)" "st = OP_OK" "r = Some (reply (wait_reply bs d))"
      "d' = (wait_reply bs d)\<lparr>reply_valid := False, cmd_waiting := False\<rparr>"
    | "\<not> reply_valid (wait_reply bs d)" "st \<in> {OP_ERR_NO_DEVICE, OP_ERR_TIMEOUT}" "r = None"
      "d' = (wait_reply bs d)\<lparr>cmd_waiting := False\<rparr>"
  using assms by (cases "reply_valid (wait_reply bs d)") (auto simp: await_reply_def Let_def)

lemma await_answer:
  assumes "await_reply bs d = (st, Some r, d')" and "slot_ok d" and "seq_pending d \<noteq> 0"
  shows "st = OP_OK \<and> (r_kind r \<noteq> OP_REPLY_INIT \<longrightarrow>
      r_kind r \<noteq> OP_REPLY_INFO \<and> r_tail r \<noteq> [] \<and> last (r_tail r) = seq_pending d) \<and>
    (r_kind r = OP_REPLY_INIT \<longrightarrow> init_verb (cmd_verb d))"
  using assms(1)
proof (cases rule: await_cases)
  case 1
  with events_keep_ok(3) [OF assms(2), of bs] assms(3) show ?thesis
    unfolding slot_ok_def by simp
qed simp

lemma await_fields:
  assumes "await_reply bs d = (st, r, d')"
  shows "\<not> cmd_waiting d'" and "seq_next d' = seq_next d" and "pins_grounded d' = pins_grounded d"
    and "pins_powered d' = pins_powered d" and "st = OP_OK \<longleftrightarrow> r \<noteq> None" and "dev_ok d \<Longrightarrow> dev_ok d'"
  using assms events_keep_ok(4) [of d bs] by (auto elim!: await_cases simp: dev_ok_def)

text \<open>The two ways through the locked part.\<close>

lemma locked_cases:
  assumes "exchange_locked wait e n seq d = (st, r, d')"
  obtains "e_write e \<noteq> OP_OK \<or> \<not> wait" "st = e_write e" "r = None"
      "d' = (claimed wait e n seq d)\<lparr>cmd_waiting := False\<rparr>"
    | "wait" "e_write e = OP_OK" "await_reply (e_wait e) (claimed wait e n seq d) = (st, r, d')"
  using assms by (cases "e_write e \<noteq> OP_OK \<or> \<not> wait") (auto simp: exchange_locked_def Let_def)

lemma locked_answer:
  assumes "exchange_locked wait e n seq d = (st, Some r, d')" and "seq \<noteq> 0"
  shows "st = OP_OK \<and> (r_kind r \<noteq> OP_REPLY_INIT \<longrightarrow>
      r_kind r \<noteq> OP_REPLY_INFO \<and> r_tail r \<noteq> [] \<and> last (r_tail r) = seq) \<and>
    (r_kind r = OP_REPLY_INIT \<longrightarrow> init_verb (n ! 2))"
  using assms(1)
proof (cases rule: locked_cases)
  case 2
  from await_answer [OF 2(3) claimed_slot_ok] assms(2) show ?thesis by simp
qed simp

lemma locked_fields:
  assumes "exchange_locked wait e n seq d = (st, r, d')"
  shows "\<not> cmd_waiting d'" and "seq_next d' = seq_next d" and "pins_grounded d' = pins_grounded d"
    and "pins_powered d' = pins_powered d" and "st = OP_OK \<Longrightarrow> wait \<Longrightarrow> r \<noteq> None"
    and "st \<noteq> OP_OK \<Longrightarrow> r = None" and "dev_ok d \<Longrightarrow> dev_ok d'"
proof -
  have "\<not> cmd_waiting d' \<and> seq_next d' = seq_next d \<and> pins_grounded d' = pins_grounded d \<and>
    pins_powered d' = pins_powered d \<and> (st = OP_OK \<longrightarrow> wait \<longrightarrow> r \<noteq> None) \<and> (st \<noteq> OP_OK \<longrightarrow> r = None) \<and>
    (dev_ok d \<longrightarrow> dev_ok d')"
    using assms
  proof (cases rule: locked_cases)
    case 1
    then show ?thesis using claimed_dev_ok [of d wait e n seq] by (auto simp: dev_ok_def)
  next
    case 2
    from await_fields [OF 2(3)] claimed_dev_ok [of d wait e n seq] show ?thesis by simp
  qed
  then show "\<not> cmd_waiting d'" "seq_next d' = seq_next d" "pins_grounded d' = pins_grounded d"
    "pins_powered d' = pins_powered d" "st = OP_OK \<Longrightarrow> wait \<Longrightarrow> r \<noteq> None"
    "st \<noteq> OP_OK \<Longrightarrow> r = None" "dev_ok d \<Longrightarrow> dev_ok d'" by blast+
qed

text \<open>The transaction as a whole: refused without a write, or exactly one write.\<close>

definition refused :: "u8 list \<Rightarrow> world \<Rightarrow> op_status \<Rightarrow> op_reply option \<Rightarrow> world \<Rightarrow> bool" where
  "refused line w st r w' \<longleftrightarrow> st \<in> {OP_ERR_PARAM, OP_ERR_NO_DEVICE} \<and> r = None \<and> sent w' = sent w \<and>
     (dev w' = dev w \<or> d_open (dev w) \<and> op_cmd_is_numbered line \<and> dev w' = snd (take_seq (dev w)))"

lemma exchange_cases:
  assumes "cmd_exchange line payload t wait w = (st, r, w')"
  obtains "refused line w st r w'"
  | n seq d e where "d_open (dev w)" "\<not> d_lost (dev w)" "line \<noteq> []" "length line < 64"
      "length payload \<le> 4128" "number_line line (dev w) = (n, seq, d)" "n \<noteq> []"
      "exchange_locked wait e n seq d = (st, r, dev w')"
      "sent w' = sent w @ [(n @ payload, if t = 0 then 1000 else t)]" "err_text w' = err_text w"
proof (cases "line = [] \<or> 64 \<le> length line \<or> 4128 < length payload")
  case True
  then have "cmd_exchange line payload t wait w = (OP_ERR_PARAM, None, w)"
    by (elim disjE) (simp_all add: cmd_exchange_def)
  with assms have "refused line w st r w'" by (simp add: refused_def)
  then show thesis by (rule that(1))
next
  case False
  obtain e w1 where e: "next_env w = (e, w1)" by force
  then have w1: "dev w1 = dev w" "sent w1 = sent w" "err_text w1 = err_text w"
    using next_env_sel [of w] by simp_all
  obtain n seq d where n: "number_line line (dev w) = (n, seq, d)" by (metis prod_cases3)
  show thesis
  proof (cases "\<not> d_open (dev w) \<or> d_lost (dev w)")
    case True
    with False e w1 have "cmd_exchange line payload t wait w = (OP_ERR_NO_DEVICE, None, w1)"
      by (simp add: cmd_exchange_def)
    with assms w1 have "refused line w st r w'" by (simp add: refused_def)
    then show thesis by (rule that(1))
  next
    case live: False
    show thesis
    proof (cases "n = []")
      case True
      with False n have "op_cmd_is_numbered line" "d = snd (take_seq (dev w))"
        by (auto simp: number_line_def split_beta split: if_splits)
      moreover from False live e w1 n True
      have "cmd_exchange line payload t wait w = (OP_ERR_PARAM, None, w1\<lparr>dev := d\<rparr>)"
        by (simp add: cmd_exchange_def)
      ultimately have "refused line w st r w'" using assms live w1 by (auto simp: refused_def)
      then show thesis by (rule that(1))
    next
      case nonempty: False
      obtain st2 r2 d2 where x: "exchange_locked wait e n seq d = (st2, r2, d2)" by (metis prod_cases3)
      have "cmd_exchange line payload t wait w =
          (st2, r2, w1\<lparr>sent := sent w1 @ [(n @ payload, if t = 0 then 1000 else t)], dev := d2\<rparr>)"
        using False live e w1 n nonempty x by (simp add: cmd_exchange_def Let_def)
      with assms live False n nonempty x w1 show thesis by (intro that(2) [of n seq d e]) auto
    qed
  qed
qed

section \<open>A run of numbered commands\<close>

lemma numbered_step:
  assumes "cmd_exchange line payload t wait w = (st, r, w')" and "op_cmd_is_numbered line"
    and "st \<notin> {OP_ERR_PARAM, OP_ERR_NO_DEVICE}"
  shows "sent w' = sent w @ [(op_cmd_number line (OP_CMD_MAX + 16) (seq_next (dev w)) @ payload,
                              if t = 0 then 1000 else t)] \<and>
    seq_next (dev w') = seq_next (snd (take_seq (dev w)))"
  using assms(1)
proof (cases rule: exchange_cases)
  case 1
  with assms(3) show ?thesis by (auto simp: refused_def)
next
  case (2 n seq d e)
  with assms(2) locked_fields(2) [OF 2(8)] show ?thesis
    by (auto simp: number_line_def split_beta take_seq_def)
qed

text \<open>What holds between two transactions.\<close>

definition world_ok :: "world \<Rightarrow> bool" where
  "world_ok w \<longleftrightarrow> dev_ok (dev w) \<and> \<not> cmd_waiting (dev w) \<and>
     (d_open (dev w) \<longrightarrow> 256 \<le> seq_next (dev w))"

lemma take_seq_ok: "256 \<le> seq_next (snd (take_seq d))"
  by (simp add: take_seq_def not_less [symmetric])

lemma take_seq_fields [simp]:
  "dev_ok (snd (take_seq d)) = dev_ok d" "cmd_waiting (snd (take_seq d)) = cmd_waiting d"
  by (simp_all add: take_seq_def dev_ok_def)

lemma exchange_world_ok:
  assumes "world_ok w" and "cmd_exchange line payload t wait w = (st, r, w')"
  shows "world_ok w'"
  using assms(2)
proof (cases rule: exchange_cases)
  case 1
  with assms(1) take_seq_ok [of "dev w"] show ?thesis
    by (auto simp: refused_def world_ok_def)
next
  case (2 n seq d e)
  then have "d = dev w \<or> d = snd (take_seq (dev w))"
    by (auto simp: number_line_def split_beta split: if_splits)
  with assms(1) take_seq_ok [of "dev w"] 2(1) have "dev_ok d" "256 \<le> seq_next d"
    by (auto simp: world_ok_def)
  with locked_fields [OF 2(8)] show ?thesis by (simp add: world_ok_def)
qed

lemma cmd_world_ok: "world_ok w \<Longrightarrow> op_device_cmd line payload t w = (st, r, w') \<Longrightarrow> world_ok w'"
  unfolding op_device_cmd_def by (rule exchange_world_ok)

lemma nowait_world_ok: "world_ok w \<Longrightarrow> op_device_send_nowait line payload w = (st, w') \<Longrightarrow> world_ok w'"
  unfolding op_device_send_nowait_def
  by (auto simp: split_beta prod_eq_iff intro: exchange_world_ok)

section \<open>An answer that arrives is taken\<close>

text \<open>A reply that cannot answer the waiting command, and a frame.\<close>

definition foreign :: "u32 \<Rightarrow> op_reply \<Rightarrow> bool" where
  "foreign seq r \<longleftrightarrow> r_kind r = OP_REPLY_FRAME \<or>
     r_kind r \<noteq> OP_REPLY_INIT \<and> (r_kind r = OP_REPLY_INFO \<or> r_tail r = [] \<or> last (r_tail r) \<noteq> seq)"

lemma foreign_handle:
  assumes "foreign (seq_pending d) r" and "seq_pending d \<noteq> 0"
  shows "reply (handle r d) = reply d \<and> reply_valid (handle r d) = reply_valid d"
  using assms
  by (auto simp: handle_def foreign_def stash_reply_def r_ntail_def last_tail_def last_conv_nth)

lemma foreign_handles:
  "\<forall>r \<in> set rs. foreign (seq_pending d) r \<Longrightarrow> seq_pending d \<noteq> 0 \<Longrightarrow>
   reply (fold handle rs d) = reply d \<and> reply_valid (fold handle rs d) = reply_valid d"
  by (induction rs arbitrary: d) (simp_all add: foreign_handle)

lemma handles_slot_fields [simp]:
  "seq_pending (fold handle rs d) = seq_pending d" "cmd_waiting (fold handle rs d) = cmd_waiting d"
  "cmd_verb (fold handle rs d) = cmd_verb d"
  by (induction rs arbitrary: d) simp_all

lemma echo_handle:
  assumes "cmd_waiting d" and "seq_pending d \<noteq> 0"
    and "r_kind r \<notin> {OP_REPLY_FRAME, OP_REPLY_INIT, OP_REPLY_INFO}"
    and "r_tail r \<noteq> []" and "last (r_tail r) = seq_pending d"
  shows "reply_valid (handle r d) \<and> reply (handle r d) = fst (stash_slot (seq_pending d) r)"
  using assms
  by (auto simp: handle_def stash_reply_def stash_accepted_def stash_slot_def Let_def r_ntail_def
      last_tail_def last_conv_nth)

lemma handles_answer:
  assumes "cmd_waiting d" and "seq_pending d \<noteq> 0"
    and "r_kind r \<notin> {OP_REPLY_FRAME, OP_REPLY_INIT, OP_REPLY_INFO}"
    and "r_tail r \<noteq> []" and "last (r_tail r) = seq_pending d"
    and "\<forall>x \<in> set (pre @ post). foreign (seq_pending d) x"
  shows "reply_valid (fold handle (pre @ r # post) d) \<and>
    reply (fold handle (pre @ r # post) d) = fst (stash_slot (seq_pending d) r)"
proof -
  let ?d = "fold handle pre d"
  have "reply_valid (handle r ?d)" "reply (handle r ?d) = fst (stash_slot (seq_pending d) r)"
    using echo_handle [of ?d r] assms by simp_all
  with foreign_handles [of post "handle r ?d"] assms(2,6) show ?thesis by simp
qed

lemma stash_slot_fields [simp]:
  "r_a (fst (stash_slot seq r)) = r_a r" "r_b (fst (stash_slot seq r)) = r_b r"
  "r_channel (fst (stash_slot seq r)) = r_channel r"
  "r_error_code (fst (stash_slot seq r)) = r_error_code r"
  by (simp_all add: stash_slot_def Let_def split: option.split)

lemma wait_reply_valid: "reply_valid d \<Longrightarrow> wait_reply bs d = d"
  by (cases bs) simp_all

lemma apply_events_reads: "apply_events (map (Rd OP_OK) cs) d = fold (reader_turn OP_OK) cs d"
  by (induction cs arbitrary: d) simp_all

lemma handles_live [simp]:
  "d_open (fold handle rs d) = d_open d" "d_lost (fold handle rs d) = d_lost d"
  "seq_next (fold handle rs d) = seq_next d"
  by (induction rs arbitrary: d) simp_all

lemma exchange_finds_answer:
  assumes "d_open (dev w)" and "\<not> d_lost (dev w)" and "reading (dev w)" and "accum (dev w) = []"
    and "256 \<le> seq_next (dev w)"
    and "sched w = env0\<lparr>e_wait := map (Rd OP_OK) cs # later\<rparr> # es"
    and "line = s @ crlf" and "2 \<le> length s" and "length line < OP_CMD_MAX" and "op_cmd_is_numbered line"
    and "length payload \<le> OP_MSG_MAX"
    and "list_all2 dev_record bs (pre @ r # post)" and "concat cs = concat bs"
    and "\<forall>c \<in> set cs. c \<noteq> [] \<and> length c \<le> 1024"
    and "r_kind r \<notin> {OP_REPLY_FRAME, OP_REPLY_INIT, OP_REPLY_INFO}"
    and "r_tail r \<noteq> []" and "last (r_tail r) = seq_next (dev w)"
    and "\<forall>x \<in> set (pre @ post). foreign (seq_next (dev w)) x"
  shows "\<exists>r' w'. cmd_exchange line payload t True w = (OP_OK, Some r', w') \<and> r_kind r' = r_kind r \<and>
    r_a r' = r_a r \<and> r_b r' = r_b r \<and> r_channel r' = r_channel r \<and> r_error_code r' = r_error_code r \<and>
    d_open (dev w') \<and> d_lost (dev w') = d_lost (dev w) \<and> reading (dev w') \<and> accum (dev w') = [] \<and>
    seq_next (dev w') = seq_next (snd (take_seq (dev w))) \<and> sched w' = es"
proof -
  let ?seq = "seq_next (dev w)"
  define d0 where "d0 = snd (take_seq (dev w))"
  define n where "n = op_cmd_number line (OP_CMD_MAX + 16) ?seq"
  define d1 where "d1 = claim_slot True ?seq (n ! 2) d0"
  have nz: "?seq \<noteq> 0" using assms(5) by (auto simp: word_le_nat_alt)
  have n: "n \<noteq> []"
    unfolding n_def using assms(7-9) by (subst op_cmd_number_line [of _ s]) (simp_all add: crlf_def)
  have d1: "reading d1" "accum d1 = []" "cmd_waiting d1" "seq_pending d1 = ?seq" "d_open d1" "\<not> d_lost d1"
      "\<not> reply_valid d1"
    using assms(1-4) by (simp_all add: d1_def d0_def take_seq_def claim_slot_def reading_def)
  define d2 where "d2 = (fold handle (pre @ r # post) d1)\<lparr>accum := []\<rparr>"
  have events: "apply_events (map (Rd OP_OK) cs) d1 = d2"
    unfolding apply_events_reads d2_def
    using assms(12-14) d1(1,2) by (intro turns_stream [of bs]) (simp_all add: part_record_def)
  have d2: "reply_valid d2" "reply d2 = fst (stash_slot ?seq r)"
    using handles_answer [of d1 r pre post] d1 nz assms(15-18) by (simp_all add: d2_def)
  have wait: "wait_reply (map (Rd OP_OK) cs # later) d1 = d2"
    using d1 events d2 by (simp add: wait_reply_valid)
  have env: "next_env w = (env0\<lparr>e_wait := map (Rd OP_OK) cs # later\<rparr>, w\<lparr>sched := es\<rparr>)"
    using assms(6) by (simp add: next_env_def)
  have num: "number_line line (dev w) = (n, ?seq, d0)"
    using assms(10) by (simp add: number_line_def take_seq_def n_def d0_def)
  have locked: "exchange_locked True (env0\<lparr>e_wait := map (Rd OP_OK) cs # later\<rparr>) n ?seq d0 =
      (OP_OK, Some (reply d2), d2\<lparr>reply_valid := False, cmd_waiting := False\<rparr>)"
    using wait d2(1) by (simp add: exchange_locked_def claimed_def await_reply_def env0_def d1_def)
  have "line \<noteq> []" using assms(7) by (simp add: crlf_def)
  then have "cmd_exchange line payload t True w = (OP_OK, Some (reply d2),
      w\<lparr>sched := es, sent := sent w @ [(n @ payload, if t = 0 then 1000 else t)],
        dev := d2\<lparr>reply_valid := False, cmd_waiting := False\<rparr>\<rparr>)"
    using assms(1,2,9,11) n by (simp add: cmd_exchange_def env num locked)
  moreover have "d_open d2" "d_lost d2 = d_lost (dev w)" "reading d2" "accum d2 = []"
    "seq_next d2 = seq_next (snd (take_seq (dev w)))"
    using d1 assms(2) by (simp_all add: d2_def reading_def handles_live) (simp add: d1_def d0_def)
  ultimately show ?thesis by (auto simp: d2(2) reading_def)
qed

text \<open>A session to try things on: open, the reader running, one answer to come.\<close>

definition answering_world :: world where
  "answering_world = \<lparr>dev = g_device\<lparr>d_open := True, reader_started := True, seq_next := 256\<rparr>,
     sent = [], sched = [env0\<lparr>e_wait := map (Rd OP_OK) [ascii ''aro 2'', ascii ''56'' @ crlf] # []\<rparr>],
     err_text = []\<rparr>"

lemma dev_record_ok: "length (render (D_Ok vs)) \<le> 257 \<Longrightarrow>
    dev_record (render (D_Ok vs)) (meaning (D_Ok vs))"
  by (auto simp: dev_record_def dev_fits_def intro!: exI [of _ "D_Ok vs"])

text \<open>A command answered with a plain acknowledgement, in one read or two.\<close>

definition acknowledged :: "u32 \<Rightarrow> u8 list list \<Rightarrow> cmd_env" where
  "acknowledged seq cs = env0\<lparr>e_wait := [map (Rd OP_OK) cs]\<rparr>"

definition ready :: "world \<Rightarrow> bool" where
  "ready w \<longleftrightarrow> d_open (dev w) \<and> \<not> d_lost (dev w) \<and> reading (dev w) \<and> accum (dev w) = []"

lemma acknowledged_step:
  assumes "ready w" and "256 \<le> seq_next (dev w)"
    and "sched w = acknowledged (seq_next (dev w)) cs # es"
    and "concat cs = render (D_Ok [seq_next (dev w)])" and "\<forall>c \<in> set cs. c \<noteq> [] \<and> length c \<le> 1024"
    and "line = s @ crlf" and "2 \<le> length s" and "length line < OP_CMD_MAX" and "op_cmd_is_numbered line"
  shows "\<exists>r w'. cmd_exchange line [] t True w = (OP_OK, Some r, w') \<and> r_kind r = OP_REPLY_OK \<and>
    ready w' \<and> seq_next (dev w') = seq_next (snd (take_seq (dev w))) \<and> sched w' = es"
proof -
  let ?m = "D_Ok [seq_next (dev w)]"
  have rec: "dev_record (render ?m) (meaning ?m)"
    using length_dec_u32 [of "seq_next (dev w)"]
    by (intro dev_record_ok) (simp add: line_bytes_def num_def)
  have "\<exists>r' w'. cmd_exchange line [] t True w = (OP_OK, Some r', w') \<and>
     r_kind r' = r_kind (meaning ?m) \<and> r_a r' = r_a (meaning ?m) \<and>
     r_b r' = r_b (meaning ?m) \<and> r_channel r' = r_channel (meaning ?m) \<and>
     r_error_code r' = r_error_code (meaning ?m) \<and>
     d_open (dev w') \<and> d_lost (dev w') = d_lost (dev w) \<and> reading (dev w') \<and> accum (dev w') = [] \<and>
     seq_next (dev w') = seq_next (snd (take_seq (dev w))) \<and> sched w' = es"
    using assms rec
    by (intro exchange_finds_answer [where bs = "[render ?m]" and pre = "[]" and post = "[]" and cs = cs
          and later = "[]" and s = s]) (simp_all add: ready_def acknowledged_def)
  then show ?thesis using assms(1) by (auto simp: ready_def)
qed

lemma answering_world_answers:
  "\<exists>r w'. cmd_exchange (ascii ''atz'' @ crlf) [] 1000 True answering_world = (OP_OK, Some r, w')"
proof -
  have b: "render (D_Ok [256]) = ascii ''aro 256'' @ crlf"
    by (simp add: line_bytes_def text_simps crlf_def num_def dec.simps)
  have "\<exists>r w'. cmd_exchange (ascii ''atz'' @ crlf) [] 1000 True answering_world = (OP_OK, Some r, w') \<and>
     r_kind r = OP_REPLY_OK \<and> ready w' \<and>
     seq_next (dev w') = seq_next (snd (take_seq (dev answering_world))) \<and> sched w' = []"
    by (rule acknowledged_step [where cs = "[ascii ''aro 2'', ascii ''56'' @ crlf]" and s = "ascii ''atz''"])
      (simp_all add: answering_world_def acknowledged_def ready_def g_device_def reading_def line_bytes_def
        op_cmd_is_numbered_def text_simps crlf_def num_def dec.simps)
  then show ?thesis by blast
qed

section \<open>Properties\<close>

text \<open>C3. Whatever the device, the reader and other threads do meanwhile: when a numbered command
  returns an answer, the command was written once, with the next sequence number as its last
  token, and the answer carries that number as its last token, unless it is an init reply, which the
  code accepts without a number; and an init reply answers only the two K-line inits, \<open>aty\<close> and \<open>atw\<close>.\<close>

theorem answer_echoes_number:
  assumes "cmd_exchange line payload t wait w = (st, Some r, w')" and "op_cmd_is_numbered line"
    and "256 \<le> seq_next (dev w)"
  shows "st = OP_OK \<and>
    sent w' = sent w @ [(op_cmd_number line (OP_CMD_MAX + 16) (seq_next (dev w)) @ payload,
                         if t = 0 then 1000 else t)] \<and>
    (r_kind r \<noteq> OP_REPLY_INIT \<longrightarrow> r_tail r \<noteq> [] \<and> last (r_tail r) = seq_next (dev w)) \<and>
    (r_kind r = OP_REPLY_INIT \<longrightarrow>
       op_cmd_number line (OP_CMD_MAX + 16) (seq_next (dev w)) ! 2 \<in> {of_char CHR ''y'', of_char CHR ''w''})"
  using assms(1)
proof (cases rule: exchange_cases)
  case 1
  then show ?thesis by (simp add: refused_def)
next
  case (2 n seq d e)
  have nz: "seq_next (dev w) \<noteq> 0" using assms(3) by (auto simp: word_le_nat_alt)
  from 2(6) assms(2) have n: "n = op_cmd_number line (OP_CMD_MAX + 16) (seq_next (dev w))"
    "seq = seq_next (dev w)"
    by (auto simp: number_line_def take_seq_def)
  show ?thesis using locked_answer [OF 2(8)] 2(9) nz n by (auto simp: init_verb_def)
qed

theorem answer_echoes_number_witness:
  "\<exists>r w'. cmd_exchange (ascii ''atz'' @ crlf) [] 1000 True answering_world = (OP_OK, Some r, w') \<and>
     sent w' = [(ascii ''atz 256'' @ crlf, 1000)]"
proof -
  obtain r w' where x: "cmd_exchange (ascii ''atz'' @ crlf) [] 1000 True answering_world = (OP_OK, Some r, w')"
    using answering_world_answers by blast
  from answer_echoes_number [OF x] x show ?thesis
    by (simp add: answering_world_def op_cmd_is_numbered_def op_cmd_number_def text_simps crlf_def
        Let_def dec.simps)
qed

text \<open>A device that is closed or lost is never written to: every transaction is refused
  and the session is left as it was.\<close>

lemma closed_device_silent:
  assumes "\<not> d_open (dev w) \<or> d_lost (dev w)"
    and "cmd_exchange line payload t wait w = (st, r, w')"
  shows "st \<in> {OP_ERR_PARAM, OP_ERR_NO_DEVICE} \<and> r = None \<and> sent w' = sent w \<and>
    d_open (dev w') = d_open (dev w) \<and> ch (dev w') = ch (dev w)"
  using assms(2)
proof (cases rule: exchange_cases)
  case 1
  then show ?thesis by (auto simp: refused_def take_seq_def)
next
  case (2 n seq d e)
  with assms(1) show ?thesis by simp
qed

text \<open>C30. Once a transaction has returned, whatever its outcome, no later reply can claim the
  slot: whatever events follow, the slot stays as it is until the next command claims it.\<close>

theorem late_reply_discarded:
  assumes "world_ok w" and "cmd_exchange line payload t wait w = (st, r, w')"
  shows "reply (apply_events es (dev w')) = reply (dev w') \<and>
    reply_valid (apply_events es (dev w')) = reply_valid (dev w') \<and>
    \<not> cmd_waiting (apply_events es (dev w'))"
  using exchange_world_ok [OF assms] by (intro idle_event) (simp add: world_ok_def)

text \<open>C4. The answer is found: when the write succeeds and the bytes that arrive, cut into reads
  in any way, hold the reply that echoes the command's number among frames and replies to
  other commands, the transaction returns it.\<close>

theorem exchange_answered:
  assumes "d_open (dev w)" and "\<not> d_lost (dev w)" and "reading (dev w)" and "accum (dev w) = []"
    and "256 \<le> seq_next (dev w)"
    and "sched w = env0\<lparr>e_wait := map (Rd OP_OK) cs # later\<rparr> # es"
    and "line = s @ crlf" and "2 \<le> length s" and "length line < OP_CMD_MAX" and "op_cmd_is_numbered line"
    and "length payload \<le> OP_MSG_MAX"
    and "list_all2 dev_record bs (pre @ r # post)" and "concat cs = concat bs"
    and "\<forall>c \<in> set cs. c \<noteq> [] \<and> length c \<le> 1024"
    and "r_kind r \<notin> {OP_REPLY_FRAME, OP_REPLY_INIT, OP_REPLY_INFO}"
    and "r_tail r \<noteq> []" and "last (r_tail r) = seq_next (dev w)"
    and "\<forall>x \<in> set (pre @ post). foreign (seq_next (dev w)) x"
  shows "\<exists>r' w'. cmd_exchange line payload t True w = (OP_OK, Some r', w') \<and> r_kind r' = r_kind r \<and>
    r_a r' = r_a r \<and> r_b r' = r_b r \<and> r_channel r' = r_channel r \<and> r_error_code r' = r_error_code r"
  using exchange_finds_answer [OF assms] by blast

theorem exchange_answered_witness:
  "\<exists>r w'. cmd_exchange (ascii ''atz'' @ crlf) [] 1000 True answering_world = (OP_OK, Some r, w') \<and>
     r_kind r = OP_REPLY_OK"
proof -
  have b: "render (D_Ok [256]) = ascii ''aro 256'' @ crlf"
    by (simp add: line_bytes_def text_simps crlf_def num_def dec.simps)
  have "\<exists>r' w'. cmd_exchange (ascii ''atz'' @ crlf) [] 1000 True answering_world = (OP_OK, Some r', w') \<and>
     r_kind r' = r_kind (meaning (D_Ok [256])) \<and> r_a r' = r_a (meaning (D_Ok [256])) \<and>
     r_b r' = r_b (meaning (D_Ok [256])) \<and> r_channel r' = r_channel (meaning (D_Ok [256])) \<and>
     r_error_code r' = r_error_code (meaning (D_Ok [256]))"
  proof (rule exchange_answered [where s = "ascii ''atz''" and bs = "[render (D_Ok [256])]" and pre = "[]"
        and post = "[]" and cs = "[ascii ''aro 2'', ascii ''56'' @ crlf]" and later = "[]" and es = "[]"])
    show "list_all2 dev_record [render (D_Ok [256])] ([] @ meaning (D_Ok [256]) # [])"
      using dev_record_ok [of "[256]"] unfolding b by (simp add: crlf_def)
    show "concat [ascii ''aro 2'', ascii ''56'' @ crlf] = concat [render (D_Ok [256])]"
      unfolding b by (simp add: text_simps)
  qed (simp_all add: answering_world_def g_device_def reading_def op_cmd_is_numbered_def text_simps crlf_def)
  then show ?thesis by auto
qed

lemma answering_world_ok: "world_ok answering_world"
  by (simp add: world_ok_def answering_world_def dev_ok_def channels_ok_def g_device_def channel0_def
      OP_ACCUM_CAP_def)

theorem late_reply_discarded_witness:
  "\<exists>r w'. cmd_exchange (ascii ''atz'' @ crlf) [] 1000 True answering_world = (OP_OK, Some r, w') \<and>
     \<not> cmd_waiting (apply_events [Rd OP_OK (ascii ''aro 256'' @ crlf)] (dev w'))"
proof -
  obtain r w' where x: "cmd_exchange (ascii ''atz'' @ crlf) [] 1000 True answering_world = (OP_OK, Some r, w')"
    using answering_world_answers by blast
  from late_reply_discarded [OF answering_world_ok x] x show ?thesis by blast
qed

section \<open>Opening, closing, taking a message\<close>

lemma next_env_ok [simp]: "world_ok (snd (next_env w)) = world_ok w"
  by (simp add: world_ok_def)

text \<open>Channels that no frame can open.\<close>

lemma event_ch_open: "ch_open (ch (apply_event e d) k) = ch_open (ch d k)"
  by (rule apply_event_keeps [where P = "\<lambda>d'. ch_open (ch d' k) = ch_open (ch d k)"])
    (simp_all add: handle_def)

lemma events_ch_open [simp]: "ch_open (ch (apply_events es d) k) = ch_open (ch d k)"
  by (induction es arbitrary: d) (simp_all add: event_ch_open)

lemma wait_reply_ch_open [simp]: "ch_open (ch (wait_reply bs d) k) = ch_open (ch d k)"
  by (induction bs d rule: wait_reply.induct) simp_all

lemma locked_ch_open:
  assumes "exchange_locked wait e n seq d = (st, r, d')"
  shows "ch_open (ch d' k) = ch_open (ch d k)"
  using assms
proof (cases rule: locked_cases)
  case 2
  from 2(3) show ?thesis by (cases rule: await_cases) (simp_all add: claimed_def)
qed (simp add: claimed_def)

lemma exchange_ch_open:
  assumes "cmd_exchange line payload t wait w = (st, r, w')"
  shows "ch_open (ch (dev w') k) = ch_open (ch (dev w) k)"
  using assms
proof (cases rule: exchange_cases)
  case 1
  then show ?thesis by (auto simp: refused_def take_seq_def)
next
  case (2 n seq d e)
  then have "ch d = ch (dev w)"
    by (auto simp: number_line_def take_seq_def split: if_splits)
  with locked_ch_open [OF 2(8), of k] show ?thesis by simp
qed

text \<open>The same for the pins: no event and no transaction changes the session's records of them.\<close>

lemma exchange_pins:
  assumes "cmd_exchange line payload t wait w = (st, r, w')"
  shows "pins_grounded (dev w') = pins_grounded (dev w) \<and> pins_powered (dev w') = pins_powered (dev w)"
  using assms
proof (cases rule: exchange_cases)
  case 1
  then show ?thesis by (auto simp: refused_def take_seq_def)
next
  case (2 n seq d e)
  then have "pins_grounded d = pins_grounded (dev w)" "pins_powered d = pins_powered (dev w)"
    by (auto simp: number_line_def take_seq_def split: if_splits)
  with locked_fields(3,4) [OF 2(8)] show ?thesis by simp
qed

definition numbered_line :: "u8 list \<Rightarrow> u32 \<Rightarrow> u8 list" where
  "numbered_line line seq = op_cmd_number line (OP_CMD_MAX + 16) seq"

lemma cmd_step:
  assumes "op_device_cmd line [] 1000 w = (st, r, w')" and "op_cmd_is_numbered line"
    and "st \<in> {OP_OK, OP_ERR_TIMEOUT}" and "256 \<le> unat (seq_next (dev w))"
    and "unat (seq_next (dev w)) + 1 < 2 ^ 32"
  shows "sent w' = sent w @ [(numbered_line line (seq_next (dev w)), 1000)] \<and>
    unat (seq_next (dev w')) = unat (seq_next (dev w)) + 1"
proof -
  have "unat (seq_next (dev w) + 1) = unat (seq_next (dev w)) + 1"
    using assms(5) by (simp add: unat_plus_if')
  then show ?thesis
    using numbered_step [of line "[]" 1000 True w st r w'] assms
    by (auto simp: op_device_cmd_def numbered_line_def take_seq_def word_less_nat_alt)
qed

text \<open>The resets of \<open>sync_device\<close>: consecutive numbers, one write for each.\<close>

definition reset_line :: "u8 list" where "reset_line = op_cmd_reset OP_CMD_MAX"
definition close_all_line :: "u8 list" where "close_all_line = op_cmd_close_all OP_CMD_MAX"

lemma sync_lines_numbered [simp]:
  "op_cmd_is_numbered reset_line" "op_cmd_is_numbered close_all_line"
  by (simp_all add: reset_line_def close_all_line_def op_cmd_reset_def op_cmd_close_all_def emit_def
      text_simps crlf_def op_cmd_is_numbered_def)

definition numbered_run :: "u8 list \<Rightarrow> nat \<Rightarrow> nat \<Rightarrow> (u8 list \<times> u32) list" where
  "numbered_run line s0 n = map (\<lambda>i. (numbered_line line (of_nat i), 1000)) [s0..<s0 + n]"

lemma numbered_run_Suc:
  "numbered_run line s0 (Suc n) = (numbered_line line (of_nat s0), 1000) # numbered_run line (Suc s0) n"
  by (simp add: numbered_run_def upt_conv_Cons del: upt_Suc)

lemma sync_resets_run:
  assumes "sync_resets n w = (st, w')" and "st = OP_OK" and "256 \<le> unat (seq_next (dev w))"
    and "unat (seq_next (dev w)) + n < 2 ^ 32"
  shows "\<exists>m. 1 \<le> m \<and> m \<le> n \<and> sent w' = sent w @ numbered_run reset_line (unat (seq_next (dev w))) m \<and>
    unat (seq_next (dev w')) = unat (seq_next (dev w)) + m"
  using assms
proof (induction n arbitrary: w)
  case 0
  then show ?case by simp
next
  case (Suc n)
  let ?s = "unat (seq_next (dev w))"
  obtain st1 r1 w1 where cmd: "op_device_cmd reset_line [] 1000 w = (st1, r1, w1)" by (metis prod_cases3)
  from Suc.prems(1,2) cmd have "st1 \<in> {OP_OK, OP_ERR_TIMEOUT}"
    by (auto simp: reset_line_def split: if_splits)
  from cmd_step [OF cmd _ this] Suc.prems(3,4)
  have step: "sent w1 = sent w @ [(numbered_line reset_line (of_nat ?s), 1000)]"
    "unat (seq_next (dev w1)) = Suc ?s" by simp_all
  show ?case
  proof (cases "st1 = OP_ERR_TIMEOUT")
    case True
    with Suc.prems(1) cmd have "sync_resets n w1 = (st, w')" by (simp add: reset_line_def)
    from Suc.IH [OF this Suc.prems(2)] step Suc.prems(3,4) obtain m where
      "m \<le> n" "sent w' = sent w1 @ numbered_run reset_line (Suc ?s) m"
      "unat (seq_next (dev w')) = Suc ?s + m" by auto
    with step show ?thesis by (intro exI [of _ "Suc m"]) (simp add: numbered_run_Suc)
  next
    case False
    with Suc.prems(1) cmd have "w' = w1" by (simp add: reset_line_def)
    with step show ?thesis
      by (intro exI [of _ 1]) (simp add: numbered_run_def)
  qed
qed

lemma sync_resets_keeps:
  assumes "\<And>line p t w st r w'. P w \<Longrightarrow> op_device_cmd line p t w = (st, r, w') \<Longrightarrow> P w'" and "P w"
  shows "P (snd (sync_resets n w))"
  using assms(2)
proof (induction n arbitrary: w)
  case (Suc n)
  obtain st1 r1 w1 where cmd: "op_device_cmd (op_cmd_reset OP_CMD_MAX) [] 1000 w = (st1, r1, w1)"
    by (metis prod_cases3)
  with Suc assms(1) [OF Suc.prems cmd] show ?case by simp
qed simp

lemma sync_device_keeps:
  assumes "\<And>line p t w st r w'. P w \<Longrightarrow> op_device_cmd line p t w = (st, r, w') \<Longrightarrow> P w'"
    and "P (on_dev (apply_events (e_during (fst (next_env w))))
          ((snd (next_env w))\<lparr>sent := sent w @ [([13, 10, 13, 10], 200)]\<rparr>))"
  shows "P (snd (sync_device w))"
proof -
  let ?w = "on_dev (apply_events (e_during (fst (next_env w))))
          ((snd (next_env w))\<lparr>sent := sent w @ [([13, 10, 13, 10], 200)]\<rparr>)"
  have resets: "P (snd (sync_resets 3 ?w))" by (rule sync_resets_keeps [where P = P, OF assms])
  obtain st1 w1 where r: "sync_resets 3 ?w = (st1, w1)" by force
  obtain st2 r2 w2 where c: "op_device_cmd (op_cmd_close_all OP_CMD_MAX) [] 1000 w1 = (st2, r2, w2)"
    by (metis prod_cases3)
  have "P w1" "P w2" using resets r assms(1) [OF _ c] by simp_all
  with assms(2) r c show ?thesis by (simp add: sync_device_def split_beta Let_def)
qed

text \<open>A successful sync: the terminator, one to three resets, the close-all.\<close>

lemma sync_device_run:
  assumes "sync_device w = (OP_OK, w')" and "256 \<le> unat (seq_next (dev w))"
    and "unat (seq_next (dev w)) + 4 < 2 ^ 32"
  shows "\<exists>m. 1 \<le> m \<and> m \<le> 3 \<and>
    sent w' = sent w @ ([13, 10, 13, 10], 200) # numbered_run reset_line (unat (seq_next (dev w))) m @
      numbered_run close_all_line (unat (seq_next (dev w)) + m) 1"
proof -
  let ?w = "on_dev (apply_events (e_during (fst (next_env w))))
          ((snd (next_env w))\<lparr>sent := sent w @ [([13, 10, 13, 10], 200)]\<rparr>)"
  let ?s = "unat (seq_next (dev w))"
  obtain st1 w1 where r: "sync_resets 3 ?w = (st1, w1)" by force
  obtain st2 r2 w2 where c: "op_device_cmd close_all_line [] 1000 w1 = (st2, r2, w2)"
    by (metis prod_cases3)
  from assms(1) r c have ok: "st1 = OP_OK" "st2 = OP_OK" "w' = w2"
    by (auto simp: sync_device_def close_all_line_def split_beta Let_def split: if_splits)
  have w: "seq_next (dev ?w) = seq_next (dev w)" "sent ?w = sent w @ [([13, 10, 13, 10], 200)]"
    by simp_all
  from sync_resets_run [OF r ok(1)] assms(2,3) w obtain m where m: "1 \<le> m" "m \<le> 3"
    "sent w1 = sent w @ ([13, 10, 13, 10], 200) # numbered_run reset_line ?s m"
    "unat (seq_next (dev w1)) = ?s + m" by auto
  have lo: "256 \<le> unat (seq_next (dev w1))" and hi: "unat (seq_next (dev w1)) + 1 < 2 ^ 32"
    using m assms(2,3) by simp_all
  have "of_nat (unat (seq_next (dev w1))) = seq_next (dev w1)" by simp
  with cmd_step [OF c _ _ lo hi] ok(2) m(4)
  have "sent w2 = sent w1 @ [(numbered_line close_all_line (of_nat (?s + m)), 1000)]" by (simp del: of_nat_unat)
  with m ok(3) show ?thesis
    by (intro exI [of _ m]) (simp add: numbered_run_def)
qed

lemma channel0_closed [simp]: "\<not> ch_open (channel0 r)"
  by (simp add: channel0_def)

lemma world_ok_frame: "dev w' = dev w \<Longrightarrow> world_ok w' = world_ok w"
  by (simp add: world_ok_def)

lemma reset_session_ok:
  assumes "dev_ok d"
  shows "dev_ok (reset_session millis d)"
proof -
  have "\<not> ch_open (ch (reset_session millis d) k) \<or> ch (reset_session millis d) k = ch d k" for k
    by (simp add: reset_session_def)
  with assms show ?thesis
    by (auto simp: dev_ok_def channels_ok_def reset_session_def OP_ACCUM_CAP_def)
qed

lemma start_seq: "unat (256 + of_nat (millis mod 900000) :: u32) = 256 + millis mod 900000"
proof -
  have "millis mod 900000 < 900000" by simp
  then have "unat (of_nat (millis mod 900000) :: u32) = millis mod 900000"
    by (simp add: unat_of_nat)
  with \<open>millis mod 900000 < 900000\<close> show ?thesis by (simp add: unat_word_ariths)
qed

lemma reader_turn_open [simp]: "d_open (reader_turn st got d) = d_open d"
  by (rule reader_turn_keeps [where P = "\<lambda>d'. d_open d' = d_open d"]) simp_all

lemma events_closed: "\<not> d_open d \<Longrightarrow> \<not> d_open (apply_events es d)"
proof (induction es arbitrary: d)
  case (Cons e es)
  then show ?case by (cases e) simp_all
qed simp

lemma close_fields [simp]:
  "\<not> d_open (dev (op_device_close w))" "sent (op_device_close w) = sent w"
  "err_text (op_device_close w) = err_text w"
  using events_closed
  by (simp_all add: op_device_close_def Let_def split_beta)

lemma close_world_ok: "world_ok w \<Longrightarrow> world_ok (op_device_close w)"
  using events_keep_ok(2) [of "(dev w)\<lparr>d_open := False\<rparr>"] events_closed [of "(dev w)\<lparr>d_open := False\<rparr>"]
  by (simp add: op_device_close_def Let_def split_beta world_ok_def) (simp add: dev_ok_def)

lemma on_dev_events_ok: "world_ok w \<Longrightarrow> world_ok (on_dev (apply_events es) w)"
  using events_keep_ok(2) [of "dev w" es] events_closed [of "dev w" es] by (auto simp: world_ok_def)

lemma sync_world_ok: "world_ok w \<Longrightarrow> world_ok (snd (sync_device w))"
  by (rule sync_device_keeps [where P = world_ok, OF cmd_world_ok])
    (auto intro!: on_dev_events_ok simp: world_ok_frame [of "snd (next_env w)\<lparr>sent := x\<rparr>" w for x])

lemma open_world_ok:
  assumes "world_ok w" and "op_device_open oe w = (st, w')"
  shows "world_ok w'"
proof -
  let ?r = "on_dev (reset_session (o_millis oe)) w"
  let ?w = "on_dev (\<lambda>d. d\<lparr>t_open := True, reader_started := True, reader_done := False,
      failures := 0, d_open := True\<rparr>) ?r"
  have reset: "dev_ok (reset_session (o_millis oe) (dev w))"
    using assms(1) reset_session_ok by (simp add: world_ok_def)
  have "256 \<le> seq_next (reset_session (o_millis oe) (dev w))"
    using start_seq [of "o_millis oe"] by (simp add: reset_session_def word_le_nat_alt)
  with reset have w: "world_ok ?w" and r: "d_open (dev w) \<or> world_ok ?r"
    by (simp_all add: world_ok_def dev_ok_def reset_session_def)
  from r have r': "\<not> d_open (dev w) \<Longrightarrow> world_ok (on_dev (\<lambda>d. d\<lparr>t_open := False\<rparr>) ?r)"
    by (auto simp: world_ok_def dev_ok_def)
  show ?thesis
    using assms r r' sync_world_ok [OF w] close_world_ok [OF sync_world_ok [OF w]]
    by (auto simp: op_device_open_def Let_def split_beta split: if_splits)
qed

lemma wait_message_ok: "dev_ok d \<Longrightarrow> dev_ok (wait_message k bs d)"
  using wait_message_keeps [where P = dev_ok, OF dev_ok_event] by blast

lemma wait_message_fields [simp]:
  "seq_next (wait_message k bs d) = seq_next d" "cmd_waiting (wait_message k bs d) = cmd_waiting d"
  by (induction k bs d rule: wait_message.induct) simp_all

lemma wait_message_closed: "\<not> d_open d \<Longrightarrow> wait_message k bs d = d"
  by (cases bs) simp_all

lemma pop_cases:
  assumes "op_device_pop k t w = (st, r, w')" and "k < 10"
  defines "d \<equiv> (if t > 0 then wait_message k (e_wait (fst (next_env w))) (dev w) else dev w)"
  obtains "\<not> d_open d \<or> d_lost d" "st = OP_ERR_NO_DEVICE" "r = None" "dev w' = d" "sent w' = sent w"
      "err_text w' = err_text w"
    | "d_open d" "\<not> d_lost d" "qcount (ch d k) = 0" "st = OP_ERR_TIMEOUT" "r = None" "dev w' = d"
      "sent w' = sent w" "err_text w' = err_text w"
    | "d_open d" "\<not> d_lost d" "0 < qcount (ch d k)" "st = OP_OK" "r = Some (fst (queue_pop (ch d k)))"
      "dev w' = d\<lparr>ch := (ch d)(k := snd (queue_pop (ch d k)))\<rparr>" "sent w' = sent w" "err_text w' = err_text w"
proof -
  obtain e w1 where e: "next_env w = (e, w1)" by force
  then have w1: "dev w1 = dev w" "sent w1 = sent w" "err_text w1 = err_text w"
    using next_env_sel [of w] by simp_all
  have d: "d = (if t > 0 then wait_message k (e_wait e) (dev w) else dev w)"
    by (simp add: d_def e)
  have "op_device_pop k t w =
     (let d = (if t > 0 then wait_message k (e_wait e) (dev w) else dev w) in
       if \<not> d_open d \<or> d_lost d then (OP_ERR_NO_DEVICE, None, w1\<lparr>dev := d\<rparr>)
       else if qcount (ch d k) > 0 then
         (OP_OK, Some (fst (queue_pop (ch d k))), w1\<lparr>dev := d\<lparr>ch := (ch d)(k := snd (queue_pop (ch d k)))\<rparr>\<rparr>)
       else (OP_ERR_TIMEOUT, None, w1\<lparr>dev := d\<rparr>))"
    using assms(2) by (simp add: op_device_pop_def e w1 split_beta Let_def)
  note step = this [folded d, unfolded Let_def]
  show thesis
    using assms(1) w1 unfolding step
    by (cases "\<not> d_open d \<or> d_lost d"; cases "qcount (ch d k) > 0") (auto intro: that)
qed

lemma queue_pop_fields [simp]:
  "ch_open (snd (queue_pop c)) = ch_open c" "partial (snd (queue_pop c)) = partial c"
  "partial_active (snd (queue_pop c)) = partial_active c" "ch_protocol (snd (queue_pop c)) = ch_protocol c"
  by (simp_all add: queue_pop_def ring_get_def Let_def split_beta)

lemma pop_dev_ok:
  assumes "dev_ok d" and "0 < qcount (ch d k)"
  shows "dev_ok (d\<lparr>ch := (ch d)(k := snd (queue_pop (ch d k)))\<rparr>)"
proof -
  have "chan_ok (snd (queue_pop (ch d k)))" if "ch_open (ch d k)"
  proof -
    from assms(1) that have ok: "chan_ok (ch d k)" by (simp add: dev_ok_def channels_ok_def)
    then obtain ms where rep: "chan_rep (ch d k) ms" by (auto simp: chan_ok_def)
    with assms(2) obtain m ms' where "ms = m # ms'" by (cases ms) (auto simp: chan_rep_def)
    with pop_first [of "ch d k" m ms'] rep ok show ?thesis by (auto simp: chan_ok_def)
  qed
  with assms(1) show ?thesis by (auto simp: dev_ok_def intro!: channels_ok_update)
qed

lemma pop_world_ok:
  assumes "world_ok w" and "op_device_pop k t w = (st, r, w')"
  shows "world_ok w'"
proof (cases "k < 10")
  case False
  with assms show ?thesis by (simp add: op_device_pop_def)
next
  case True
  let ?d = "if t > 0 then wait_message k (e_wait (fst (next_env w))) (dev w) else dev w"
  have d: "dev_ok ?d" "\<not> cmd_waiting ?d" "seq_next ?d = seq_next (dev w)"
    using assms(1) wait_message_ok [of "dev w"] by (simp_all add: world_ok_def)
  have open': "d_open ?d \<Longrightarrow> d_open (dev w)"
    by (cases "d_open (dev w)") (simp_all add: wait_message_closed split: if_splits)
  from assms(2) True show ?thesis
  proof (cases rule: pop_cases)
    case 3
    with pop_dev_ok [OF d(1) 3(3)] d open' assms(1) show ?thesis by (simp add: world_ok_def)
  qed (use d open' assms(1) in \<open>simp_all add: world_ok_def\<close>)
qed

text \<open>C29. A successful open has spoken to the device in exactly this order: the terminator, one to
  three resets and a close-all, each with its own number, consecutive from one that is at least
  256; it leaves no channel open and no pin marked.\<close>

theorem open_sequence:
  assumes "\<not> d_open (dev w)" and "op_device_open oe w = (OP_OK, w')"
  shows "\<exists>m. 1 \<le> m \<and> m \<le> 3 \<and>
    sent w' = sent w @ ([13, 10, 13, 10], 200) #
      numbered_run reset_line (256 + o_millis oe mod 900000) m @
      numbered_run close_all_line (256 + o_millis oe mod 900000 + m) 1 \<and>
    pins_grounded (dev w') = 0 \<and> pins_powered (dev w') = 0 \<and>
    (\<forall>k < OP_MAX_CHANNELS. \<not> ch_open (ch (dev w') k))"
proof -
  let ?s = "256 + o_millis oe mod 900000"
  let ?w = "on_dev (\<lambda>d. d\<lparr>t_open := True, reader_started := True, reader_done := False,
      failures := 0, d_open := True\<rparr>) (on_dev (reset_session (o_millis oe)) w)"
  from assms have sync: "sync_device ?w = (OP_OK, w')"
    by (auto simp: op_device_open_def Let_def split_beta prod_eq_iff split: if_splits)
  have seq: "unat (seq_next (dev ?w)) = ?s"
    using start_seq [of "o_millis oe"] by (simp add: reset_session_def)
  have "o_millis oe mod 900000 < 900000" by simp
  then have "?s + 4 < 2 ^ 32" by simp
  with sync_device_run [OF sync] seq obtain m where m: "1 \<le> m" "m \<le> 3"
    "sent w' = sent w @ ([13, 10, 13, 10], 200) # numbered_run reset_line ?s m @
      numbered_run close_all_line (?s + m) 1" by auto
  let ?P = "\<lambda>w. pins_grounded (dev w) = 0 \<and> pins_powered (dev w) = 0 \<and> (\<forall>k<10. \<not> ch_open (ch (dev w) k))"
  have "?P (snd (sync_device ?w))"
  proof (rule sync_device_keeps [where P = ?P])
    fix line p t w st r w'
    assume "?P w" and "op_device_cmd line p t w = (st, r, w')"
    then show "?P w'"
      using exchange_ch_open exchange_pins by (simp add: op_device_cmd_def)
  qed (simp add: reset_session_def)
  with m sync show ?thesis by auto
qed

text \<open>An open that fails, for whatever reason, leaves the session closed.\<close>

lemma open_failure_closed:
  assumes "\<not> d_open (dev w)" and "op_device_open oe w = (st, w')" and "st \<noteq> OP_OK"
  shows "\<not> d_open (dev w')"
  using assms
  by (auto simp: op_device_open_def Let_def split_beta reset_session_def split: if_splits)

text \<open>A read takes the oldest message, times out only when the queue is empty, and reports the
  device gone when it was closed or lost, however long it waited and whatever arrived.\<close>

lemma pop_spec:
  assumes "op_device_pop k t w = (st, r, w')" and "k < OP_MAX_CHANNELS"
    and "d = (if t > 0 then wait_message k (e_wait (fst (next_env w))) (dev w) else dev w)"
    and "chan_rep (ch d k) ms"
  shows "if \<not> d_open d \<or> d_lost d then st = OP_ERR_NO_DEVICE \<and> r = None \<and> dev w' = d
    else case ms of [] \<Rightarrow> st = OP_ERR_TIMEOUT \<and> r = None \<and> dev w' = d
      | m # ms' \<Rightarrow> st = OP_OK \<and> r = Some (stored m) \<and> chan_rep (ch (dev w') k) ms'"
proof -
  have k: "k < 10" using assms(2) by simp
  have q: "qcount (ch d k) = length ms" using assms(4) by (simp add: chan_rep_def)
  show ?thesis
    using assms(1) k
  proof (cases rule: pop_cases)
    case 1
    then show ?thesis by (simp add: assms(3))
  next
    case 2
    then show ?thesis using q by (simp add: assms(3))
  next
    case 3
    then have "ms \<noteq> []" using q by (auto simp: assms(3))
    then obtain m ms' where ms: "ms = m # ms'" by (cases ms) auto
    from pop_first [OF assms(4) [unfolded ms]] 3 ms show ?thesis by (simp add: assms(3))
  qed
qed

definition opening_world :: world where
  "opening_world = \<lparr>dev = g_device, sent = [],
     sched = [env0, acknowledged 256 [ascii ''aro 256'' @ crlf], acknowledged 257 [ascii ''aro 257'' @ crlf]],
     err_text = []\<rparr>"

definition opening_env :: open_env where
  "opening_env = \<lparr>o_factory = OP_OK, o_millis = 0, o_thread = True\<rparr>"

text \<open>A device that acknowledges the resets of the open; \<open>es\<close> is what the environment goes on with.\<close>

lemma opening_runs:
  assumes "sched w = sched opening_world @ es" and "dev w = g_device"
  shows "\<exists>w'. op_device_open opening_env w = (OP_OK, w') \<and> ready w' \<and> seq_next (dev w') = 258 \<and> sched w' = es"
proof -
  let ?w = "on_dev (\<lambda>d. d\<lparr>t_open := True, reader_started := True, reader_done := False,
      failures := 0, d_open := True\<rparr>) (on_dev (reset_session 0) w)"
  define v where "v = on_dev (apply_events (e_during (fst (next_env ?w))))
          ((snd (next_env ?w))\<lparr>sent := sent ?w @ [([13, 10, 13, 10], 200)]\<rparr>)"
  have v: "ready v" "seq_next (dev v) = 256"
    "sched v = acknowledged 256 [ascii ''aro 256'' @ crlf] # acknowledged 257 [ascii ''aro 257'' @ crlf] # es"
    "e_write (fst (next_env ?w)) = OP_OK"
    using assms
    by (simp_all add: v_def opening_world_def next_env_def env0_def ready_def reading_def g_device_def reset_session_def)
  have lines: "reset_line = ascii ''atz'' @ crlf" "close_all_line = ascii ''ata'' @ crlf"
    by (simp_all add: reset_line_def close_all_line_def op_cmd_reset_def op_cmd_close_all_def emit_def crlf_def)
  have "\<exists>r w'. cmd_exchange reset_line [] 1000 True v = (OP_OK, Some r, w') \<and> r_kind r = OP_REPLY_OK \<and>
    ready w' \<and> seq_next (dev w') = seq_next (snd (take_seq (dev v))) \<and>
    sched w' = acknowledged 257 [ascii ''aro 257'' @ crlf] # es"
    by (rule acknowledged_step [where cs = "[ascii ''aro 256'' @ crlf]" and s = "ascii ''atz''"], unfold v(2,3))
      (use v(1) in \<open>simp_all add: lines(1)\<close>, simp_all add: line_bytes_def op_cmd_is_numbered_def text_simps crlf_def num_def dec.simps)
  then obtain r1 w1 where 1: "cmd_exchange reset_line [] 1000 True v = (OP_OK, Some r1, w1)"
    "ready w1" "seq_next (dev w1) = 257" "sched w1 = acknowledged 257 [ascii ''aro 257'' @ crlf] # es"
    using v(2) by (auto simp: take_seq_def)
  have "\<exists>r w'. cmd_exchange close_all_line [] 1000 True w1 = (OP_OK, Some r, w') \<and> r_kind r = OP_REPLY_OK \<and>
    ready w' \<and> seq_next (dev w') = seq_next (snd (take_seq (dev w1))) \<and> sched w' = es"
    by (rule acknowledged_step [where cs = "[ascii ''aro 257'' @ crlf]" and s = "ascii ''ata''"], unfold 1(3,4))
      (use 1(2) in \<open>simp_all add: lines(2)\<close>, simp_all add: line_bytes_def op_cmd_is_numbered_def text_simps crlf_def num_def dec.simps)
  then obtain r2 w2 where 2: "cmd_exchange close_all_line [] 1000 True w1 = (OP_OK, Some r2, w2)"
    "r_kind r2 = OP_REPLY_OK" "ready w2" "seq_next (dev w2) = 258" "sched w2 = es"
    using 1(3) by (auto simp: take_seq_def)
  have resets: "sync_resets 3 v = (OP_OK, w1)"
    using 1(1) by (simp add: numeral_3_eq_3 reset_line_def op_device_cmd_def)
  have "sync_device ?w = (OP_OK, w2)"
    using v(4) resets 2 unfolding v_def by (simp add: sync_device_def split_beta Let_def close_all_line_def op_device_cmd_def)
  moreover have "\<not> d_open (dev w)" by (simp add: assms(2) g_device_def)
  ultimately show ?thesis using 2(3-5) by (simp add: op_device_open_def opening_env_def Let_def split_beta)
qed

lemma opening_succeeds: "fst (op_device_open opening_env opening_world) = OP_OK"
proof -
  have "dev opening_world = g_device" by (simp add: opening_world_def)
  with opening_runs [of opening_world "[]"] show ?thesis by auto
qed

theorem open_sequence_witness:
  "\<exists>w' m. op_device_open opening_env opening_world = (OP_OK, w') \<and> m \<in> {1..3} \<and>
     sent w' = ([13, 10, 13, 10], 200) # numbered_run reset_line 256 m @ numbered_run close_all_line (256 + m) 1"
proof -
  obtain w' where x: "op_device_open opening_env opening_world = (OP_OK, w')"
    using opening_succeeds by (metis prod.collapse)
  from open_sequence [OF _ x] x show ?thesis
    by (auto simp: opening_world_def opening_env_def g_device_def)
qed

end
