(* ===== verification/Api_Core.thy ===== *)
theory Api_Core
  imports Exchange
begin

text \<open>
  The entry points of the J2534 library, first part (src/op_j2534.c): error reasons, one command
  and its return code, opening and closing the device, connecting and disconnecting a channel.

  An entry point is a function on the process \<open>world\<close>; its result is the return code, what it
  stores through the caller's pointers, and the new world. A pointer argument that may be NULL is
  a Boolean (not NULL) when only its target is written, an option when it is read. Call recording
  (\<open>rec_line\<close> and its kin) and the log write files and are left out.
\<close>

section \<open>Texts\<close>

definition set_err :: "string \<Rightarrow> world \<Rightarrow> world" where
  "set_err s w = w\<lparr>err_text := op_err_set s\<rparr>"

definition clear_err :: "world \<Rightarrow> world" where
  "clear_err w = w\<lparr>err_text := op_err_clear\<rparr>"

definition fail :: "int \<Rightarrow> string \<Rightarrow> world \<Rightarrow> int \<times> world" where
  "fail code what w =
    (let name = op_err_name code in
     if op_err_is_set (err_text w) then (code, w)
     else if name = ''ERR_UNKNOWN'' then (code, set_err (what @ '': error '' @ show_int code) w)
     else (code, set_err (what @ '': '' @ name) w))"

definition failed :: "int \<Rightarrow> string \<Rightarrow> world \<Rightarrow> int \<times> world" where
  "failed code what w = (if code = STATUS_NOERROR then (code, w) else fail code what w)"

section \<open>One command\<close>

definition OP_DEVICE_ID :: u64 where [simp]: "OP_DEVICE_ID = 1"
definition OP_DEFAULT_CMD_MS :: u32 where [simp]: "OP_DEFAULT_CMD_MS = 1000"
definition OP_PIN_PROG_VOLTAGE :: u32 where [simp]: "OP_PIN_PROG_VOLTAGE = 12"
definition OP_PIN_VBATT :: u32 where [simp]: "OP_PIN_VBATT = 16"
definition OP_PIN_K :: u64 where [simp]: "OP_PIN_K = 7"
definition OP_PIN_L :: u64 where [simp]: "OP_PIN_L = 15"
definition OP_VERSION_MAX :: nat where [simp]: "OP_VERSION_MAX = 64"

definition device_error :: "u32 \<Rightarrow> int" where
  "device_error code =
    (if uint code \<le> ERR_J2534_HIGHEST \<or> uint code = ERR_OEM_VOLTAGE_TOO_HIGH \<or>
        uint code = ERR_OEM_VOLTAGE_TOO_LOW then uint code
     else ERR_FAILED)"

definition reply_to_status :: "op_reply \<Rightarrow> int" where
  "reply_to_status r = (if r_kind r = OP_REPLY_ERROR then device_error (r_error_code r) else STATUS_NOERROR)"

text \<open>The reply is \<open>None\<close> where \<open>*out\<close> is not assigned.\<close>

definition simple_cmd :: "u8 list \<Rightarrow> u8 list \<Rightarrow> u32 \<Rightarrow> world \<Rightarrow> int \<times> op_reply option \<times> world" where
  "simple_cmd line payload timeout_ms w =
    (let (st, r, w) = op_device_cmd line payload timeout_ms w in
     if st \<noteq> OP_OK then (op_status_to_j2534 st, None, w)
     else case r of Some r \<Rightarrow> (reply_to_status r, Some r, w) | None \<Rightarrow> (STATUS_NOERROR, None, w))"

section \<open>Channels and pins\<close>

definition channel_valid :: "u64 \<Rightarrow> bool" where
  "channel_valid cid \<longleftrightarrow> cid < of_nat OP_MAX_CHANNELS"

text \<open>\<open>channel_of\<close> is not \<open>NULL\<close>; the channel is then number \<open>unat cid\<close>.\<close>

definition channel_of :: "op_device \<Rightarrow> u64 \<Rightarrow> bool" where
  "channel_of d cid \<longleftrightarrow> channel_valid cid \<and> ch_open (ch d (unat cid))"

definition protocol_uses_pin :: "u64 \<Rightarrow> u64 \<Rightarrow> bool" where
  "protocol_uses_pin protocol pin =
    (let k = op_protocol_channel protocol in
     if k = 3 \<or> k = 4 then pin = OP_PIN_K
     else if k = 7 \<or> k = 8 then pin = OP_PIN_L
     else False)"

definition on_chan :: "nat \<Rightarrow> (op_channel \<Rightarrow> op_channel) \<Rightarrow> world \<Rightarrow> world" where
  "on_chan k f = on_dev (\<lambda>d. d\<lparr>ch := (ch d)(k := f (ch d k))\<rparr>)"

definition periodic_stop :: "u64 \<Rightarrow> nat \<Rightarrow> world \<Rightarrow> int \<times> world" where
  "periodic_stop channel slot w =
    (let k = unat channel;
         line = op_cmd_periodic_stop OP_CMD_MAX (ucast channel) (periodic (ch (dev w) k) slot);
         (rc, r, w) = simple_cmd line [] OP_DEFAULT_CMD_MS w in
     (rc, if rc = STATUS_NOERROR \<or> rc = ERR_INVALID_MSG_ID then
            on_chan k (\<lambda>c. let n = nperiodic c - 1
                           in c\<lparr>nperiodic := n, periodic := (periodic c)(slot := periodic c n)\<rparr>) w
          else w))"

section \<open>Open and close\<close>

text \<open>
  The code and the reason of a failed open; \<open>detail\<close> is what \<open>op_transport_last_detail\<close> gives.
\<close>

definition open_failed :: "op_status \<Rightarrow> string option \<Rightarrow> world \<Rightarrow> int \<times> world" where
  "open_failed st detail w =
    (let code = (if st = OP_ERR_ACCESS then ERR_DEVICE_IN_USE
                 else if st = OP_ERR_STALLED then ERR_DEVICE_NOT_CONNECTED
                 else if st = OP_ERR_PROTOCOL then ERR_FAILED
                 else ERR_DEVICE_NOT_CONNECTED);
         detail = (if st = OP_ERR_STALLED then
                     Some ''The OpenPort takes no USB data; its firmware has stopped. Replug its USB.''
                   else if st = OP_ERR_PROTOCOL then None
                   else detail);
         w = (if st = OP_ERR_PROTOCOL then
                set_err ''Device found but it is not answering the protocol correctly (stream may be corrupt).'' w
              else w);
         w = (case detail of
                Some s \<Rightarrow> set_err s w
              | None \<Rightarrow> if code \<noteq> ERR_FAILED then set_err (''PassThruOpen: '' @ op_err_name code) w else w)
     in (code, w))"

text \<open>The version exchange that ends a successful open.\<close>

definition open_identify :: "world \<Rightarrow> int \<times> world" where
  "open_identify w =
    (let (rc, r, w) = simple_cmd (op_cmd_version OP_CMD_MAX) [] OP_DEFAULT_CMD_MS w in
     if rc \<noteq> STATUS_NOERROR then
       fail rc ''PassThruOpen: device did not identify'' (op_device_close w)
     else if (case r of Some r \<Rightarrow> r_kind r \<noteq> OP_REPLY_INFO | None \<Rightarrow> True) then
       (ERR_FAILED, set_err ''PassThruOpen: device replies are out of step'' (op_device_close w))
     else
       let (ok, v) = op_parse_version (r_text (the r)) OP_VERSION_MAX;
           w = on_dev (\<lambda>d. d\<lparr>fw_version := v\<rparr>) w in
       if \<not> ok then (ERR_FAILED, set_err ''PassThruOpen: unrecognised version reply'' (op_device_close w))
       else (STATUS_NOERROR, w))"

text \<open>The second result is what is stored in \<open>*pDeviceID\<close>.\<close>

definition PassThruOpen ::
  "open_env \<Rightarrow> string option \<Rightarrow> bool \<Rightarrow> world \<Rightarrow> int \<times> u64 option \<times> world" where
  "PassThruOpen oe detail pDeviceID w =
    (let w = clear_err w in
     if \<not> pDeviceID then
       let (rc, w) = fail ERR_NULL_PARAMETER ''PassThruOpen(pDeviceID)'' w in (rc, None, w)
     else if d_open (dev w) \<and> \<not> d_lost (dev w) then
       let (rc, w) = fail ERR_DEVICE_IN_USE ''PassThruOpen'' w in (rc, None, w)
     else
       let w = (if d_open (dev w) then op_device_close w else w);
           (st, w) = op_device_open oe w in
       if st \<noteq> OP_OK then let (rc, w) = open_failed st detail w in (rc, None, w)
       else
         let (rc, w) = open_identify w
         in (rc, if rc = STATUS_NOERROR then Some OP_DEVICE_ID else None, w))"

definition PassThruClose :: "u64 \<Rightarrow> world \<Rightarrow> int \<times> world" where
  "PassThruClose DeviceID w =
    (let w = clear_err w in
     if \<not> d_open (dev w) \<or> DeviceID \<noteq> OP_DEVICE_ID then fail ERR_INVALID_DEVICE_ID ''PassThruClose'' w
     else
       let (rc, r, w) = simple_cmd (op_cmd_reset OP_CMD_MAX) [] OP_DEFAULT_CMD_MS w
       in failed rc ''PassThruClose: reset'' (op_device_close w))"

section \<open>Connect and disconnect\<close>

definition line_partner :: "int \<Rightarrow> int" where
  "line_partner fw = (if fw = 3 then 4 else if fw = 4 then 3 else if fw = 7 then 8 else if fw = 8 then 7 else -1)"

text \<open>The first pin the session shorted to ground that the protocol uses.\<close>

definition grounded_pin :: "op_device \<Rightarrow> u64 \<Rightarrow> nat option" where
  "grounded_pin d protocol =
     find (\<lambda>pin. bit (pins_grounded d) pin \<and> protocol_uses_pin protocol (of_nat pin)) [0..<32]"

text \<open>The command and the channel, once the arguments are accepted; \<open>fresh\<close> is what \<open>malloc\<close> gives.\<close>

definition connect_channel ::
  "mem option \<Rightarrow> int \<Rightarrow> u64 \<Rightarrow> u64 \<Rightarrow> u64 \<Rightarrow> world \<Rightarrow> int \<times> world" where
  "connect_channel fresh fw Protocol Flags BaudRate w =
    (let line = op_cmd_open OP_CMD_MAX (of_int fw) (ucast Flags) (ucast BaudRate) in
     if line = [] then fail ERR_FAILED ''PassThruConnect: command too long'' w
     else
       let (rc, r, w) = simple_cmd line [] OP_DEFAULT_CMD_MS w in
       if rc \<noteq> STATUS_NOERROR then fail rc ''PassThruConnect'' w
       else
         let (st, d) = op_device_open_channel fresh (nat fw) (ucast Protocol) (dev w);
             w = w\<lparr>dev := d\<rparr> in
         if st \<noteq> OP_OK then
           let (rc, r, w) = simple_cmd (op_cmd_close OP_CMD_MAX (of_int fw)) [] OP_DEFAULT_CMD_MS w
           in (ERR_FAILED, set_err ''PassThruConnect: no memory for the receive queue'' w)
         else (STATUS_NOERROR, w))"

text \<open>The second result is what is stored in \<open>*pChannelID\<close>.\<close>

definition PassThruConnect ::
  "mem option \<Rightarrow> u64 \<Rightarrow> u64 \<Rightarrow> u64 \<Rightarrow> u64 \<Rightarrow> bool \<Rightarrow> world \<Rightarrow> int \<times> u64 option \<times> world" where
  "PassThruConnect fresh DeviceID Protocol Flags BaudRate pChannelID w =
    (let w = clear_err w; d = dev w; fw = op_protocol_channel Protocol;
         failing = (\<lambda>code what w. let (rc, w) = fail code what w in (rc, None, w)) in
     if \<not> d_open d \<or> DeviceID \<noteq> OP_DEVICE_ID then failing ERR_INVALID_DEVICE_ID ''PassThruConnect'' w
     else if \<not> pChannelID then failing ERR_NULL_PARAMETER ''PassThruConnect(pChannelID)'' w
     else if fw < 0 then failing ERR_INVALID_PROTOCOL_ID ''PassThruConnect'' w
     else if ch_open (ch d (nat fw)) then failing ERR_CHANNEL_IN_USE ''PassThruConnect'' w
     else if line_partner fw \<ge> 0 \<and> ch_open (ch d (nat (line_partner fw))) then
       (ERR_CHANNEL_IN_USE, None,
        set_err (''PassThruConnect: channel '' @ show_int (line_partner fw) @ '' holds the same line'') w)
     else if BaudRate = 0 then failing ERR_INVALID_BAUDRATE ''PassThruConnect'' w
     else case grounded_pin d Protocol of
       Some pin \<Rightarrow>
         (ERR_CHANNEL_IN_USE, None,
          set_err (''PassThruConnect: pin '' @ show_nat pin @ '' is shorted to ground'') w)
     | None \<Rightarrow>
         let (rc, w) = connect_channel fresh fw Protocol Flags BaudRate w
         in (rc, if rc = STATUS_NOERROR then Some (of_int fw) else None, w))"

definition PassThruDisconnect :: "u64 \<Rightarrow> world \<Rightarrow> int \<times> world" where
  "PassThruDisconnect ChannelID w =
    (let w = clear_err w in
     if \<not> d_open (dev w) then fail ERR_INVALID_DEVICE_ID ''PassThruDisconnect'' w
     else if \<not> channel_of (dev w) ChannelID then fail ERR_INVALID_CHANNEL_ID ''PassThruDisconnect'' w
     else
       let (rc, r, w) = simple_cmd (op_cmd_close OP_CMD_MAX (ucast ChannelID)) [] OP_DEFAULT_CMD_MS w
       in failed rc ''PassThruDisconnect'' (on_dev (op_device_close_channel (unat ChannelID)) w))"

end
