(* ===== verification/Api_Msgs.thy ===== *)
theory Api_Msgs
  imports Api_Core
begin

text \<open>
  Reading and writing messages, periodic messages and filters (src/op_j2534.c).

  \<open>gettimeofday\<close> is a list of readings: the milliseconds since the start of the call, one for
  each turn of the loop; a reading may be negative, as the clock of the source may step back.
\<close>

section \<open>Reading\<close>

text \<open>What is left of the caller's timeout, clamped to 32 bits.\<close>

definition read_remaining :: "int \<Rightarrow> u64 \<Rightarrow> u32" where
  "read_remaining elapsed Timeout =
    (let elapsed = (if elapsed < 0 then 0 else elapsed) in
     if (of_int elapsed :: u64) < Timeout then
       let left = Timeout - of_int elapsed
       in (if left > 0xFFFFFFFF then 0xFFFFFFFF else ucast left)
     else 0)"

text \<open>
  The loop: the messages read so far and whether it was left by \<open>goto closed\<close>. \<open>None\<close>: the
  readings ran out before the loop ended.
\<close>

fun read_loop ::
  "int list \<Rightarrow> u64 \<Rightarrow> u64 \<Rightarrow> u64 \<Rightarrow> PASSTHRU_MSG list \<Rightarrow> world \<Rightarrow>
   (PASSTHRU_MSG list \<times> bool \<times> world) option" where
  "read_loop [] ChannelID want Timeout got w = None"
| "read_loop (e # es) ChannelID want Timeout got w =
    (let remaining = read_remaining e Timeout;
         (st, m, w) = op_device_pop (unat ChannelID) remaining w in
     if st = OP_OK then
       let got = got @ (case m of Some m \<Rightarrow> [m] | None \<Rightarrow> []) in
       if of_nat (length got) \<ge> want then Some (got, False, w)
       else read_loop es ChannelID want Timeout got w
     else if st \<noteq> OP_ERR_TIMEOUT then Some (got, True, w)
     else if remaining = 0 then Some (got, False, w)
     else read_loop es ChannelID want Timeout got w)"

text \<open>After the loop: the loss count, then how many messages there were.\<close>

definition read_result :: "u64 \<Rightarrow> u64 \<Rightarrow> u64 \<Rightarrow> nat \<Rightarrow> world \<Rightarrow> int \<times> world" where
  "read_result ChannelID want Timeout got w =
    (let (lost, d) = op_device_take_dropped (unat ChannelID) (dev w);
         w = w\<lparr>dev := d\<rparr> in
     if lost > 0 then
       (ERR_BUFFER_OVERFLOW, set_err (''PassThruReadMsgs: '' @ show_nat (unat lost) @
          '' message(s) dropped; the receive queue overran. Read more often or in larger batches.'') w)
     else if got = 0 then
       (ERR_BUFFER_EMPTY, set_err (''PassThruReadMsgs: no messages within '' @ show_nat (unat Timeout) @ '' ms'') w)
     else if Timeout \<noteq> 0 \<and> of_nat got < want then
       (ERR_TIMEOUT, set_err (''PassThruReadMsgs: '' @ show_nat got @ '' of '' @ show_nat (unat want) @
          '' message(s) within '' @ show_nat (unat Timeout) @ '' ms'') w)
     else (STATUS_NOERROR, w))"

text \<open>
  \<open>pMsg\<close> says whether the array is given, \<open>pNumMsgs\<close> is the number of messages asked for. The
  results: the return code, the number stored in \<open>*pNumMsgs\<close> (\<open>None\<close>: not written), and the
  messages stored in the array.
\<close>

definition PassThruReadMsgs ::
  "int list \<Rightarrow> u64 \<Rightarrow> bool \<Rightarrow> u64 option \<Rightarrow> u64 \<Rightarrow> world \<Rightarrow>
   (int \<times> nat option \<times> PASSTHRU_MSG list \<times> world) option" where
  "PassThruReadMsgs clk ChannelID pMsg pNumMsgs Timeout w =
    (let w = clear_err w;
         failing = (\<lambda>num code what w. let (rc, w) = fail code what w in Some (rc, num, [], w)) in
     if \<not> d_open (dev w) then failing None ERR_INVALID_DEVICE_ID ''PassThruReadMsgs'' w
     else case pNumMsgs of
       None \<Rightarrow> failing None ERR_NULL_PARAMETER ''PassThruReadMsgs(pNumMsgs)'' w
     | Some want \<Rightarrow>
         if \<not> pMsg \<and> want > 0 then failing (Some 0) ERR_NULL_PARAMETER ''PassThruReadMsgs(pMsg)'' w
         else if \<not> channel_of (dev w) ChannelID then failing (Some 0) ERR_INVALID_CHANNEL_ID ''PassThruReadMsgs'' w
         else if want = 0 then Some (STATUS_NOERROR, Some 0, [], w)
         else case read_loop clk ChannelID want Timeout [] w of
           None \<Rightarrow> None
         | Some (got, closed, w) \<Rightarrow>
             let (rc, w) =
               (if closed then
                  if d_open (dev w) then fail ERR_DEVICE_NOT_CONNECTED ''PassThruReadMsgs: cable lost'' w
                  else fail ERR_INVALID_DEVICE_ID ''PassThruReadMsgs: device closed'' w
                else read_result ChannelID want Timeout (length got) w)
             in Some (rc, Some (length got), got, w))"

section \<open>Writing\<close>

text \<open>The size limits of a protocol, and the check of a message against its channel.\<close>

definition msg_limits :: "u64 \<Rightarrow> PASSTHRU_MSG \<Rightarrow> nat \<times> nat" where
  "msg_limits proto m =
    (if proto = CAN then (4, 12)
     else if proto = ISO15765 then
       (if TxFlags m AND ISO15765_ADDR_TYPE \<noteq> 0 then (5, 4100) else (4, 4099))
     else (1, J2534_MSG_DATA_MAX))"

definition chan_base :: "op_device \<Rightarrow> u64 \<Rightarrow> u64" where
  "chan_base d channel = op_protocol_base (ucast (ch_protocol (ch d (unat channel))))"

definition msg_ok :: "u64 \<Rightarrow> PASSTHRU_MSG \<Rightarrow> world \<Rightarrow> int \<times> world" where
  "msg_ok channel m w =
    (let proto = chan_base (dev w) channel; (lo, hi) = msg_limits proto m in
     if op_protocol_base (ProtocolID m) \<noteq> proto then
       (ERR_MSG_PROTOCOL_ID, set_err (''message protocol '' @ show_nat (unat (ProtocolID m)) @
          '' on a channel of protocol '' @ show_nat (unat (ch_protocol (ch (dev w) (unat channel))))) w)
     else if msg_size m < lo \<or> msg_size m > hi then
       (ERR_INVALID_MSG, set_err (''message of '' @ show_nat (msg_size m) @ '' bytes is outside the '' @
          show_nat lo @ ''-'' @ show_nat hi @ '' range this protocol allows'') w)
     else (STATUS_NOERROR, w))"

definition write_budget :: "op_device \<Rightarrow> u64 \<Rightarrow> u32 \<Rightarrow> u32" where
  "write_budget d channel timeout_ms =
    (if timeout_ms \<noteq> 0 then
       (if timeout_ms > 4294967 then 4294967295 else timeout_ms * 1000)
     else if chan_base d channel = CAN then 50000
     else if channel = 9 then 0 else 1000000)"

definition write_one :: "u64 \<Rightarrow> PASSTHRU_MSG \<Rightarrow> u32 \<Rightarrow> world \<Rightarrow> int \<times> world" where
  "write_one channel m timeout_ms w =
    (let (rc, w) = msg_ok channel m w in
     if rc \<noteq> STATUS_NOERROR then (rc, w)
     else
       let line = op_cmd_transmit OP_CMD_MAX (ucast channel) (msg_size m) (ucast (TxFlags m))
                    (write_budget (dev w) channel timeout_ms) in
       if line = [] then (ERR_INVALID_MSG, w)
       else if timeout_ms = 0 then
         let (st, w) = op_device_send_nowait line (msg_bytes m) w in (op_status_to_j2534 st, w)
       else
         let (rc, r, w) = simple_cmd line (msg_bytes m) timeout_ms w in (rc, w))"

text \<open>
  The loop over the messages; \<open>n\<close> counts those written, \<open>want\<close> is for the text only. A
  reading of the clock for each turn, 0 when there are no more. What is left of the timeout is
  cut to the 32 bits of \<open>write_one\<close>'s argument.
\<close>

definition write_left :: "int list \<Rightarrow> u64 \<Rightarrow> int" where
  "write_left clk Timeout =
     sint Timeout - (case clk of [] \<Rightarrow> 0 | e # es \<Rightarrow> if e < 0 then 0 else e)"

definition write_timeout :: "int list \<Rightarrow> u64 \<Rightarrow> u32" where
  "write_timeout clk Timeout = (if Timeout = 0 then 0 else of_int (write_left clk Timeout))"

fun write_loop ::
  "int list \<Rightarrow> u64 \<Rightarrow> PASSTHRU_MSG list \<Rightarrow> u64 \<Rightarrow> u64 \<Rightarrow> nat \<Rightarrow> world \<Rightarrow> int \<times> nat \<times> world" where
  "write_loop clk ChannelID [] want Timeout n w = (STATUS_NOERROR, n, w)"
| "write_loop clk ChannelID (m # ms) want Timeout n w =
    (if Timeout \<noteq> 0 \<and> write_left clk Timeout \<le> 0 then
       (ERR_TIMEOUT, n, set_err (''PassThruWriteMsgs: '' @ show_nat n @ '' of '' @ show_nat (unat want) @
          '' sent before the '' @ show_nat (unat Timeout) @ '' ms budget expired'') w)
     else
       let (rc, w) = write_one ChannelID m (write_timeout clk Timeout) w in
       if rc \<noteq> STATUS_NOERROR then
         let (rc, w) = fail rc ''PassThruWriteMsgs'' w in (rc, n, w)
       else write_loop (drop 1 clk) ChannelID ms want Timeout (Suc n) w)"

text \<open>\<open>pMsg\<close> is the array, with at least \<open>*pNumMsgs\<close> messages.\<close>

definition PassThruWriteMsgs ::
  "int list \<Rightarrow> u64 \<Rightarrow> PASSTHRU_MSG list option \<Rightarrow> u64 option \<Rightarrow> u64 \<Rightarrow> world \<Rightarrow>
   int \<times> nat option \<times> world" where
  "PassThruWriteMsgs clk ChannelID pMsg pNumMsgs Timeout w =
    (let w = clear_err w;
         failing = (\<lambda>num code what w. let (rc, w) = fail code what w in (rc, num, w)) in
     if \<not> d_open (dev w) then failing None ERR_INVALID_DEVICE_ID ''PassThruWriteMsgs'' w
     else case pNumMsgs of
       None \<Rightarrow> failing None ERR_NULL_PARAMETER ''PassThruWriteMsgs(pNumMsgs)'' w
     | Some want \<Rightarrow>
         if pMsg = None \<and> want > 0 then failing (Some 0) ERR_NULL_PARAMETER ''PassThruWriteMsgs(pMsg)'' w
         else if \<not> channel_of (dev w) ChannelID then failing (Some 0) ERR_INVALID_CHANNEL_ID ''PassThruWriteMsgs'' w
         else if want = 0 then (STATUS_NOERROR, Some 0, w)
         else
           let (rc, n, w) = write_loop clk ChannelID (take (unat want) (the pMsg)) want Timeout 0 w
           in (rc, Some n, w))"

section \<open>Periodic messages\<close>

text \<open>From the limit check to the return, for a message that is acceptable.\<close>

definition start_periodic :: "u64 \<Rightarrow> PASSTHRU_MSG \<Rightarrow> u64 \<Rightarrow> world \<Rightarrow> int \<times> u64 option \<times> world" where
  "start_periodic ChannelID m TimeInterval w =
    (let k = unat ChannelID;
         failing = (\<lambda>code what w. let (rc, w) = fail code what w in (rc, None, w)) in
     if nperiodic (ch (dev w) k) \<ge> OP_PERIODIC_PER_CH then
       failing ERR_EXCEEDED_LIMIT ''PassThruStartPeriodicMsg'' w
     else
       let line = op_cmd_periodic_start OP_CMD_MAX (ucast ChannelID) (ucast TimeInterval * 1000)
                    (ucast (TxFlags m)) (msg_size m) in
       if line = [] then failing ERR_INVALID_MSG ''PassThruStartPeriodicMsg'' w
       else
         let (rc, r, w) = simple_cmd line (msg_bytes m) OP_DEFAULT_CMD_MS w in
         if rc \<noteq> STATUS_NOERROR then failing rc ''PassThruStartPeriodicMsg'' w
         else (case r of
             Some r \<Rightarrow>
               if r_kind r \<noteq> OP_REPLY_PERIODIC then
                 failing ERR_FAILED ''PassThruStartPeriodicMsg: unexpected reply'' w
               else (STATUS_NOERROR, Some (ucast (r_a r)),
                     on_chan k (\<lambda>c. c\<lparr>periodic := (periodic c)(nperiodic c := r_a r),
                                       nperiodic := nperiodic c + 1\<rparr>) w)
           | None \<Rightarrow> failing ERR_FAILED ''PassThruStartPeriodicMsg: unexpected reply'' w))"

definition PassThruStartPeriodicMsg ::
  "u64 \<Rightarrow> PASSTHRU_MSG option \<Rightarrow> bool \<Rightarrow> u64 \<Rightarrow> world \<Rightarrow> int \<times> u64 option \<times> world" where
  "PassThruStartPeriodicMsg ChannelID pMsg pMsgID TimeInterval w =
    (let w = clear_err w;
         failing = (\<lambda>code what w. let (rc, w) = fail code what w in (rc, None, w)) in
     if \<not> d_open (dev w) then failing ERR_INVALID_DEVICE_ID ''PassThruStartPeriodicMsg'' w
     else case pMsg of
       None \<Rightarrow> failing ERR_NULL_PARAMETER ''PassThruStartPeriodicMsg'' w
     | Some m \<Rightarrow>
         if \<not> pMsgID then failing ERR_NULL_PARAMETER ''PassThruStartPeriodicMsg'' w
         else if \<not> channel_of (dev w) ChannelID then failing ERR_INVALID_CHANNEL_ID ''PassThruStartPeriodicMsg'' w
         else if TimeInterval = 0 \<or> TimeInterval > 4294967 then
           failing ERR_INVALID_TIME_INTERVAL ''PassThruStartPeriodicMsg'' w
         else
           let (rc, w) = msg_ok ChannelID m w in
           if rc \<noteq> STATUS_NOERROR then failing rc ''PassThruStartPeriodicMsg'' w
           else start_periodic ChannelID m TimeInterval w)"

text \<open>The first slot that holds the id, the number of slots when none does.\<close>

definition periodic_slot :: "op_channel \<Rightarrow> u32 \<Rightarrow> nat" where
  "periodic_slot c mid =
    (case find (\<lambda>i. periodic c i = mid) [0..<nperiodic c] of Some i \<Rightarrow> i | None \<Rightarrow> nperiodic c)"

definition PassThruStopPeriodicMsg :: "u64 \<Rightarrow> u64 \<Rightarrow> world \<Rightarrow> int \<times> world" where
  "PassThruStopPeriodicMsg ChannelID MsgID w =
    (let w = clear_err w in
     if \<not> d_open (dev w) then fail ERR_INVALID_DEVICE_ID ''PassThruStopPeriodicMsg'' w
     else if \<not> channel_of (dev w) ChannelID then fail ERR_INVALID_CHANNEL_ID ''PassThruStopPeriodicMsg'' w
     else
       let c = ch (dev w) (unat ChannelID); i = periodic_slot c (ucast MsgID) in
       if i = nperiodic c then fail ERR_INVALID_MSG_ID ''PassThruStopPeriodicMsg'' w
       else
         let (rc, w) = periodic_stop ChannelID i w in failed rc ''PassThruStopPeriodicMsg'' w)"

section \<open>Filters\<close>

text \<open>The loop that gathers the payload: \<open>None\<close> where a length differs.\<close>

fun filter_payload :: "nat \<Rightarrow> PASSTHRU_MSG list \<Rightarrow> u8 list \<Rightarrow> u8 list option" where
  "filter_payload each [] acc = Some acc"
| "filter_payload each (m # ms) acc =
     (if msg_size m \<noteq> each then None else filter_payload each ms (acc @ mem_read (Data m) 0 each))"

text \<open>From the flow-control rule to the return; \<open>need\<close> is 2 or 3, \<open>flow\<close> given where it is 3.\<close>

definition start_filter ::
  "u64 \<Rightarrow> u64 \<Rightarrow> nat \<Rightarrow> PASSTHRU_MSG \<Rightarrow> PASSTHRU_MSG \<Rightarrow> PASSTHRU_MSG option \<Rightarrow> world \<Rightarrow>
   int \<times> u64 option \<times> world" where
  "start_filter ChannelID FilterType need mask_msg pattern_msg pFlowControlMsg w =
    (let flow = (if need = 2 then None else pFlowControlMsg);
         each = msg_size mask_msg;
         failing = (\<lambda>code what w. let (rc, w) = fail code what w in (rc, None, w)) in
     if each = 0 \<or> each > 255 then failing ERR_INVALID_MSG ''PassThruStartMsgFilter: mask length'' w
     else if (case flow of None \<Rightarrow> False
              | Some f \<Rightarrow> op_protocol_base (ProtocolID f) \<noteq> chan_base (dev w) ChannelID) then
       failing ERR_MSG_PROTOCOL_ID ''PassThruStartMsgFilter: flow-control protocol'' w
     else case filter_payload each (take need [mask_msg, pattern_msg, the flow]) [] of
       None \<Rightarrow> failing ERR_INVALID_MSG ''PassThruStartMsgFilter: message lengths differ'' w
     | Some payload \<Rightarrow>
         let line = op_cmd_filter OP_CMD_MAX (ucast ChannelID) (ucast FilterType)
                      (ucast (case flow of Some f \<Rightarrow> TxFlags f | None \<Rightarrow> TxFlags mask_msg)) each in
         if line = [] then failing ERR_FAILED ''PassThruStartMsgFilter: command too long'' w
         else
           let (rc, r, w) = simple_cmd line payload OP_DEFAULT_CMD_MS w in
           if rc \<noteq> STATUS_NOERROR then failing rc ''PassThruStartMsgFilter'' w
           else (case r of
               Some r \<Rightarrow> if r_kind r \<noteq> OP_REPLY_FILTER then
                           failing ERR_FAILED ''PassThruStartMsgFilter: unexpected reply'' w
                         else (STATUS_NOERROR, Some (ucast (r_a r)), w)
             | None \<Rightarrow> failing ERR_FAILED ''PassThruStartMsgFilter: unexpected reply'' w))"

definition PassThruStartMsgFilter ::
  "u64 \<Rightarrow> u64 \<Rightarrow> PASSTHRU_MSG option \<Rightarrow> PASSTHRU_MSG option \<Rightarrow> PASSTHRU_MSG option \<Rightarrow> bool \<Rightarrow>
   world \<Rightarrow> int \<times> u64 option \<times> world" where
  "PassThruStartMsgFilter ChannelID FilterType pMaskMsg pPatternMsg pFlowControlMsg pFilterID w =
    (let w = clear_err w; need = op_filter_msg_count (ucast FilterType);
         failing = (\<lambda>code what w. let (rc, w) = fail code what w in (rc, None, w)) in
     if \<not> d_open (dev w) then failing ERR_INVALID_DEVICE_ID ''PassThruStartMsgFilter'' w
     else if \<not> channel_of (dev w) ChannelID then failing ERR_INVALID_CHANNEL_ID ''PassThruStartMsgFilter'' w
     else if \<not> pFilterID then failing ERR_NULL_PARAMETER ''PassThruStartMsgFilter(pFilterID)'' w
     else if need = 0 then failing ERR_INVALID_MSG ''PassThruStartMsgFilter: filter type'' w
     else if pMaskMsg = None \<or> pPatternMsg = None then
       failing ERR_NULL_PARAMETER ''PassThruStartMsgFilter(mask/pattern)'' w
     else if need = 3 \<and> pFlowControlMsg = None then
       failing ERR_NULL_PARAMETER ''PassThruStartMsgFilter(flow control)'' w
     else start_filter ChannelID FilterType need (the pMaskMsg) (the pPatternMsg) pFlowControlMsg w)"

definition PassThruStopMsgFilter :: "u64 \<Rightarrow> u64 \<Rightarrow> world \<Rightarrow> int \<times> world" where
  "PassThruStopMsgFilter ChannelID FilterID w =
    (let w = clear_err w in
     if \<not> d_open (dev w) then fail ERR_INVALID_DEVICE_ID ''PassThruStopMsgFilter'' w
     else if \<not> channel_of (dev w) ChannelID then fail ERR_INVALID_CHANNEL_ID ''PassThruStopMsgFilter'' w
     else
       let (rc, r, w) = simple_cmd (op_cmd_stop_filter OP_CMD_MAX (ucast ChannelID) (ucast FilterID)) []
                          OP_DEFAULT_CMD_MS w
       in failed rc ''PassThruStopMsgFilter'' w)"

section \<open>The cases of a filter\<close>

text \<open>What \<open>start_filter\<close> does: it refuses without a word to the device, or sends the filter.\<close>

lemma start_filter_cases:
  obtains (refused) code what where "code \<in> {ERR_INVALID_MSG, ERR_MSG_PROTOCOL_ID, ERR_FAILED}"
      "start_filter c ft need a b f w = (fst (fail code what w), None, snd (fail code what w))"
  | (asked) line fl p rc r w1 what where "line = op_cmd_filter OP_CMD_MAX (ucast c) (ucast ft) fl (msg_size a)"
      "fl = ucast (case if need = 2 then None else f of Some f \<Rightarrow> TxFlags f | None \<Rightarrow> TxFlags a)"
      "filter_payload (msg_size a) (take need [a, b, the (if need = 2 then None else f)]) [] = Some p"
      "line \<noteq> []" "msg_size a \<noteq> 0" "msg_size a \<le> 255"
      "simple_cmd line p OP_DEFAULT_CMD_MS w = (rc, r, w1)"
      "start_filter c ft need a b f w =
        (if rc \<noteq> STATUS_NOERROR then (fst (fail rc what w1), None, snd (fail rc what w1))
         else if (case r of Some r \<Rightarrow> r_kind r = OP_REPLY_FILTER | None \<Rightarrow> False)
           then (STATUS_NOERROR, Some (ucast (r_a (the r))), w1)
         else (fst (fail ERR_FAILED what w1), None, snd (fail ERR_FAILED what w1)))"
proof -
  let ?flow = "if need = 2 then None else f"
  let ?each = "msg_size a"
  let ?line = "op_cmd_filter OP_CMD_MAX (ucast c) (ucast ft)
    (ucast (case ?flow of Some f \<Rightarrow> TxFlags f | None \<Rightarrow> TxFlags a)) ?each"
  define bad where "bad = (case ?flow of None \<Rightarrow> False
    | Some f \<Rightarrow> op_protocol_base (ProtocolID f) \<noteq> chan_base (dev w) c)"
  define pay where "pay = filter_payload ?each (take need [a, b, the ?flow]) []"
  define line where "line = ?line"
  have d: "start_filter c ft need a b f w =
     (let failing = (\<lambda>code what w. let (rc, w) = fail code what w in (rc, None, w)) in
     if ?each = 0 \<or> ?each > 255 then failing ERR_INVALID_MSG ''PassThruStartMsgFilter: mask length'' w
     else if bad then failing ERR_MSG_PROTOCOL_ID ''PassThruStartMsgFilter: flow-control protocol'' w
     else case pay of
       None \<Rightarrow> failing ERR_INVALID_MSG ''PassThruStartMsgFilter: message lengths differ'' w
     | Some payload \<Rightarrow>
         if line = [] then failing ERR_FAILED ''PassThruStartMsgFilter: command too long'' w
         else
           let (rc, r, w) = simple_cmd line payload OP_DEFAULT_CMD_MS w in
           if rc \<noteq> STATUS_NOERROR then failing rc ''PassThruStartMsgFilter'' w
           else (case r of
               Some r \<Rightarrow> if r_kind r \<noteq> OP_REPLY_FILTER then
                           failing ERR_FAILED ''PassThruStartMsgFilter: unexpected reply'' w
                         else (STATUS_NOERROR, Some (ucast (r_a r)), w)
             | None \<Rightarrow> failing ERR_FAILED ''PassThruStartMsgFilter: unexpected reply'' w))"
    unfolding start_filter_def bad_def pay_def line_def Let_def by (rule refl)
  show thesis
  proof (cases "(?each = 0 \<or> ?each > 255) \<or> bad \<or> pay = None \<or> line = []")
    case True
    then consider "?each = 0 \<or> ?each > 255" | "\<not> (?each = 0 \<or> ?each > 255)" bad
      | "\<not> (?each = 0 \<or> ?each > 255)" "\<not> bad" "pay = None"
      | p where "\<not> (?each = 0 \<or> ?each > 255)" "\<not> bad" "pay = Some p" "line = []"
      by (cases pay; blast)
    then show thesis
    proof cases
      case 1
      then show thesis
        by (intro refused [of ERR_INVALID_MSG "''PassThruStartMsgFilter: mask length''"]) (simp_all add: d split_beta)
    next
      case 2
      then show thesis
        by (intro refused [of ERR_MSG_PROTOCOL_ID "''PassThruStartMsgFilter: flow-control protocol''"])
          (simp_all add: d split_beta)
    next
      case 3
      then show thesis
        by (intro refused [of ERR_INVALID_MSG "''PassThruStartMsgFilter: message lengths differ''"])
          (simp_all add: d split_beta)
    next
      case 4
      then show thesis
        by (intro refused [of ERR_FAILED "''PassThruStartMsgFilter: command too long''"]) (simp_all add: d split_beta)
    qed
  next
    case False
    then obtain p where p: "pay = Some p" by (cases pay) simp_all
    obtain rc r w1 where x: "simple_cmd line p OP_DEFAULT_CMD_MS w = (rc, r, w1)" by (metis prod_cases3)
    show thesis
    proof (rule asked [OF line_def refl _ _ _ _ x])
      show "start_filter c ft need a b f w =
        (if rc \<noteq> STATUS_NOERROR then (fst (fail rc (if rc \<noteq> STATUS_NOERROR then ''PassThruStartMsgFilter''
             else ''PassThruStartMsgFilter: unexpected reply'') w1), None, snd (fail rc (if rc \<noteq> STATUS_NOERROR then ''PassThruStartMsgFilter''
             else ''PassThruStartMsgFilter: unexpected reply'') w1))
         else if (case r of Some r \<Rightarrow> r_kind r = OP_REPLY_FILTER | None \<Rightarrow> False)
           then (STATUS_NOERROR, Some (ucast (r_a (the r))), w1)
         else (fst (fail ERR_FAILED (if rc \<noteq> STATUS_NOERROR then ''PassThruStartMsgFilter''
             else ''PassThruStartMsgFilter: unexpected reply'') w1), None, snd (fail ERR_FAILED (if rc \<noteq> STATUS_NOERROR then ''PassThruStartMsgFilter''
             else ''PassThruStartMsgFilter: unexpected reply'') w1)))"
        using False x by (simp add: d p split_beta split: option.split)
    qed (use False p in \<open>simp_all add: pay_def\<close>)
  qed
qed

end
