(* ===== verification/Api_Ioctl.thy ===== *)
theory Api_Ioctl
  imports Api_Msgs
begin

text \<open>
  Programming voltage, version, last error and the I/O controls (src/op_j2534.c).
\<close>

section \<open>Programming voltage\<close>

text \<open>The first open channel that uses the pin.\<close>

definition channel_on_pin :: "op_device \<Rightarrow> u64 \<Rightarrow> nat option" where
  "channel_on_pin d pin =
     find (\<lambda>i. ch_open (ch d i) \<and> protocol_uses_pin (ucast (ch_protocol (ch d i))) pin) [0..<OP_MAX_CHANNELS]"

text \<open>The line of \<open>snprintf\<close>: the pin unsigned, the voltage as a signed 32-bit number.\<close>

definition voltage_line :: "u64 \<Rightarrow> u64 \<Rightarrow> u8 list" where
  "voltage_line PinNumber Voltage =
     ascii ''atv '' @ dec (unat PinNumber) @ 32 # dec_int (sint (ucast Voltage :: u32)) @ crlf"

text \<open>The session's record of the pin, after the device took the command.\<close>

definition record_pin :: "nat \<Rightarrow> u64 \<Rightarrow> op_device \<Rightarrow> op_device" where
  "record_pin pin Voltage d =
    (let b = push_bit pin 1;
         d = d\<lparr>pins_grounded := pins_grounded d AND NOT b, pins_powered := pins_powered d AND NOT b\<rparr> in
     if Voltage = SHORT_TO_GROUND then d\<lparr>pins_grounded := pins_grounded d OR b\<rparr>
     else if Voltage \<noteq> VOLTAGE_OFF then d\<lparr>pins_powered := pins_powered d OR b\<rparr>
     else d)"

definition set_voltage :: "u64 \<Rightarrow> u64 \<Rightarrow> world \<Rightarrow> int \<times> world" where
  "set_voltage PinNumber Voltage w =
    (if length (voltage_line PinNumber Voltage) \<ge> OP_CMD_MAX then
       fail ERR_FAILED ''PassThruSetProgrammingVoltage'' w
     else
       let (rc, r, w) = simple_cmd (voltage_line PinNumber Voltage) [] OP_DEFAULT_CMD_MS w in
       if rc \<noteq> STATUS_NOERROR then fail rc ''PassThruSetProgrammingVoltage'' w
       else
         (STATUS_NOERROR,
          if PinNumber < 32 then on_dev (record_pin (unat PinNumber) Voltage) w else w))"

definition PassThruSetProgrammingVoltage :: "u64 \<Rightarrow> u64 \<Rightarrow> u64 \<Rightarrow> world \<Rightarrow> int \<times> world" where
  "PassThruSetProgrammingVoltage DeviceID PinNumber Voltage w =
    (let w = clear_err w; d = dev w; pin = unat PinNumber in
     if \<not> d_open d \<or> DeviceID \<noteq> OP_DEVICE_ID then
       fail ERR_INVALID_DEVICE_ID ''PassThruSetProgrammingVoltage'' w
     else if Voltage \<noteq> VOLTAGE_OFF \<and> Voltage \<noteq> SHORT_TO_GROUND \<and> PinNumber < 32 \<and>
        pins_powered d AND NOT (push_bit pin 1) \<noteq> 0 then
       (ERR_PIN_INVALID, set_err (''PassThruSetProgrammingVoltage: another pin already has '' @
          ''voltage, and all pins share one supply; switch it off first'') w)
     else case (if Voltage = SHORT_TO_GROUND then channel_on_pin d PinNumber else None) of
       Some i \<Rightarrow>
         (ERR_CHANNEL_IN_USE, set_err (''PassThruSetProgrammingVoltage: pin '' @ show_nat pin @
            '' carries open channel '' @ show_nat i) w)
     | None \<Rightarrow> set_voltage PinNumber Voltage w)"

section \<open>Version and last error\<close>

text \<open>
  The caller's buffers hold 80 bytes. \<open>openport_version\<close> is the version the build defines. The
  second result: the firmware, library and interface versions, where they are written.
\<close>

definition PassThruReadVersion ::
  "string \<Rightarrow> u64 \<Rightarrow> bool \<Rightarrow> bool \<Rightarrow> bool \<Rightarrow> world \<Rightarrow> int \<times> (u8 list \<times> u8 list \<times> u8 list) option \<times> world" where
  "PassThruReadVersion openport_version DeviceID pFirmwareVersion pDllVersion pApiVersion w =
    (let w = clear_err w;
         failing = (\<lambda>code what w. let (rc, w) = fail code what w in (rc, None, w)) in
     if \<not> d_open (dev w) \<or> DeviceID \<noteq> OP_DEVICE_ID then failing ERR_INVALID_DEVICE_ID ''PassThruReadVersion'' w
     else if d_lost (dev w) then failing ERR_DEVICE_NOT_CONNECTED ''PassThruReadVersion'' w
     else if \<not> pFirmwareVersion \<or> \<not> pDllVersion \<or> \<not> pApiVersion then
       failing ERR_NULL_PARAMETER ''PassThruReadVersion'' w
     else
       (STATUS_NOERROR,
        Some (take 79 (if fw_version (dev w) \<noteq> [] then fw_version (dev w) else ascii ''unknown''),
              take 79 (ascii ''openport-j2534 '' @ ascii openport_version),
              take 79 (ascii ''04.04'')), w))"

definition PassThruGetLastError :: "bool \<Rightarrow> world \<Rightarrow> int \<times> string option \<times> world" where
  "PassThruGetLastError pErrorDescription w =
    (if \<not> pErrorDescription then (ERR_NULL_PARAMETER, None, w)
     else (STATUS_NOERROR, Some (take (OP_ERR_TEXT_MAX - 1) (op_err_get (err_text w))), w))"

section \<open>I/O controls\<close>

text \<open>A configuration list: the count and the array of parameter and value, or \<open>NULL\<close>.\<close>

type_synonym sconfig = "(u64 \<times> u64) list"

record SCONFIG_LIST =
  NumOfParams :: u64
  ConfigPtr :: "sconfig option"

record SBYTE_ARRAY =
  NumOfBytes :: u64
  BytePtr :: "u8 list option"

text \<open>
  The loops over the \<open>NumOfParams\<close> parameters (the caller's array has that many): the status of
  the last one, and for a read the array with the values filled in.
\<close>

fun get_config_loop :: "u64 \<Rightarrow> sconfig \<Rightarrow> int \<Rightarrow> world \<Rightarrow> int \<times> sconfig \<times> world" where
  "get_config_loop ChannelID [] rc w = (rc, [], w)"
| "get_config_loop ChannelID ((p, v) # ps) rc w =
    (let (rc, r, w) = simple_cmd (op_cmd_get_config OP_CMD_MAX (ucast ChannelID) (ucast p)) []
                        OP_DEFAULT_CMD_MS w;
         rc = (if rc = STATUS_NOERROR \<and> (case r of Some r \<Rightarrow> r_kind r \<noteq> OP_REPLY_CONFIG | None \<Rightarrow> True)
               then ERR_FAILED else rc);
         v = (if rc = STATUS_NOERROR then (case r of Some r \<Rightarrow> ucast (r_b r) | None \<Rightarrow> v) else v);
         (rc', qs, w) = get_config_loop ChannelID ps rc w
     in (rc', (p, v) # qs, w))"

definition ioctl_get_config :: "u64 \<Rightarrow> SCONFIG_LIST option \<Rightarrow> world \<Rightarrow> int \<times> sconfig \<times> world" where
  "ioctl_get_config ChannelID list w =
    (case list of None \<Rightarrow> (ERR_NULL_PARAMETER, [], w)
     | Some l \<Rightarrow>
         if NumOfParams l > 0 \<and> ConfigPtr l = None then (ERR_NULL_PARAMETER, [], w)
         else get_config_loop ChannelID
                (take (unat (NumOfParams l)) (case ConfigPtr l of Some a \<Rightarrow> a | None \<Rightarrow> [])) STATUS_NOERROR w)"

fun set_config_loop :: "u64 \<Rightarrow> sconfig \<Rightarrow> int \<Rightarrow> world \<Rightarrow> int \<times> world" where
  "set_config_loop ChannelID [] rc w = (rc, w)"
| "set_config_loop ChannelID ((p, v) # ps) rc w =
    (let (rc, r, w) = simple_cmd (op_cmd_set_config OP_CMD_MAX (ucast ChannelID) (ucast p) (ucast v)) []
                        OP_DEFAULT_CMD_MS w
     in set_config_loop ChannelID ps rc w)"

definition ioctl_set_config :: "u64 \<Rightarrow> SCONFIG_LIST option \<Rightarrow> world \<Rightarrow> int \<times> world" where
  "ioctl_set_config ChannelID list w =
    (case list of None \<Rightarrow> (ERR_NULL_PARAMETER, w)
     | Some l \<Rightarrow>
         if NumOfParams l > 0 \<and> ConfigPtr l = None then (ERR_NULL_PARAMETER, w)
         else set_config_loop ChannelID
                (take (unat (NumOfParams l)) (case ConfigPtr l of Some a \<Rightarrow> a | None \<Rightarrow> [])) STATUS_NOERROR w)"

definition ioctl_read_pin :: "u32 \<Rightarrow> bool \<Rightarrow> world \<Rightarrow> int \<times> u64 option \<times> world" where
  "ioctl_read_pin pin out w =
    (if \<not> out then (ERR_NULL_PARAMETER, None, w)
     else
       let (rc, r, w) = simple_cmd (op_cmd_read_pin OP_CMD_MAX pin) [] OP_DEFAULT_CMD_MS w in
       if rc \<noteq> STATUS_NOERROR then (rc, None, w)
       else (case r of
           Some r \<Rightarrow> if r_kind r \<noteq> OP_REPLY_PIN then (ERR_FAILED, None, w)
                     else (STATUS_NOERROR, Some (ucast (r_b r)), w)
         | None \<Rightarrow> (ERR_FAILED, None, w)))"

text \<open>The end of \<open>ioctl_init\<close>: the command sent, and the answer the ECU must have given.\<close>

definition init_exchange :: "u8 list \<Rightarrow> u8 list \<Rightarrow> world \<Rightarrow> int \<times> u8 list \<times> world" where
  "init_exchange line payload w =
    (if line = [] then (ERR_FAILED, [], w)
     else
       let (rc, r, w) = simple_cmd line payload 5000 w in
       if rc \<noteq> STATUS_NOERROR then (rc, [], w)
       else (case r of
           Some r \<Rightarrow>
             if r_kind r \<noteq> OP_REPLY_INIT \<or> r_data_len r = 0 then
               (ERR_INIT_FAILED, [], set_err (''K-line init: no answer from the ECU (device '' @
                  (if r_kind r = OP_REPLY_INIT then ''returned an empty result''
                   else ''acknowledged without initialising'') @ '')'') w)
             else (STATUS_NOERROR, r_bytes r, w)
         | None \<Rightarrow> (ERR_INIT_FAILED, [], w)))"

text \<open>Five-baud: the key bytes stored, as many as the caller has room for.\<close>

definition ioctl_five_baud ::
  "u64 \<Rightarrow> SBYTE_ARRAY option \<Rightarrow> SBYTE_ARRAY option \<Rightarrow> world \<Rightarrow> int \<times> u8 list option \<times> world" where
  "ioctl_five_baud ChannelID pInput pOutput w =
    (case pInput of
       None \<Rightarrow> (ERR_NULL_PARAMETER, None, w)
     | Some i \<Rightarrow>
         (case BytePtr i of
            None \<Rightarrow> (ERR_NULL_PARAMETER, None, w)
          | Some address \<Rightarrow>
              if NumOfBytes i < 1 then (ERR_NULL_PARAMETER, None, w)
              else (case pOutput of
                  None \<Rightarrow> (ERR_NULL_PARAMETER, None, w)
                | Some out \<Rightarrow>
                    if BytePtr out = None then (ERR_NULL_PARAMETER, None, w)
                    else
                      let (rc, d, w) = init_exchange (op_cmd_five_baud OP_CMD_MAX (ucast ChannelID)
                                                        (ucast (hd address))) [] w in
                      if rc \<noteq> STATUS_NOERROR then (rc, None, w)
                      else (STATUS_NOERROR, Some (take (unat (NumOfBytes out)) d), w))))"

text \<open>Fast init: the request may be absent, the response message may be unwanted.\<close>

definition ioctl_fast_init ::
  "u64 \<Rightarrow> PASSTHRU_MSG option \<Rightarrow> bool \<Rightarrow> world \<Rightarrow> int \<times> PASSTHRU_MSG option \<times> world" where
  "ioctl_fast_init ChannelID pInput pOutput w =
    (if (case pInput of Some m \<Rightarrow> DataSize m > 255 | None \<Rightarrow> False) then (ERR_INVALID_MSG, None, w)
     else
       let payload = (case pInput of Some m \<Rightarrow> msg_bytes m | None \<Rightarrow> []);
           (rc, d, w) = init_exchange (op_cmd_fast_init OP_CMD_MAX (ucast ChannelID) (length payload)) payload w in
       if rc \<noteq> STATUS_NOERROR then (rc, None, w)
       else if \<not> pOutput then (STATUS_NOERROR, None, w)
       else
         let take' = (if length d > J2534_MSG_DATA_MAX then J2534_MSG_DATA_MAX else length d)
         in (STATUS_NOERROR,
             Some (msg0\<lparr>ProtocolID := ucast (ch_protocol (ch (dev w) (unat ChannelID))),
                     Data := mem_write (\<lambda>_. 0) 0 (take take' d), DataSize := of_nat take',
                     ExtraDataIndex := of_nat take'\<rparr>), w))"

text \<open>
  A control with the arguments the standard gives it; \<open>Io_Other\<close> is every other id. The result
  beside the return code: the values, bytes or message stored through the caller's pointers.
\<close>

datatype ioctl =
    Io_Get_Config "SCONFIG_LIST option"
  | Io_Set_Config "SCONFIG_LIST option"
  | Io_Read_Vbatt bool
  | Io_Read_Prog_Voltage "u64 option" bool
  | Io_Five_Baud_Init "SBYTE_ARRAY option" "SBYTE_ARRAY option"
  | Io_Fast_Init "PASSTHRU_MSG option" bool
  | Io_Clear_Tx_Buffer
  | Io_Clear_Rx_Buffer
  | Io_Clear_Periodic_Msgs
  | Io_Clear_Msg_Filters
  | Io_Other u64

datatype ioctl_out =
    Out_Nothing
  | Out_Config sconfig
  | Out_Value u64
  | Out_Bytes "u8 list"
  | Out_Msg PASSTHRU_MSG

definition needs_channel :: "ioctl \<Rightarrow> string option" where
  "needs_channel io =
    (case io of
       Io_Get_Config _ \<Rightarrow> Some ''GET_CONFIG''
     | Io_Set_Config _ \<Rightarrow> Some ''SET_CONFIG''
     | Io_Five_Baud_Init _ _ \<Rightarrow> Some ''FIVE_BAUD_INIT''
     | Io_Fast_Init _ _ \<Rightarrow> Some ''FAST_INIT''
     | Io_Clear_Tx_Buffer \<Rightarrow> Some ''CLEAR_TX_BUFFER''
     | Io_Clear_Rx_Buffer \<Rightarrow> Some ''CLEAR_RX_BUFFER''
     | Io_Clear_Periodic_Msgs \<Rightarrow> Some ''CLEAR_PERIODIC_MSGS''
     | Io_Clear_Msg_Filters \<Rightarrow> Some ''CLEAR_MSG_FILTERS''
     | _ \<Rightarrow> None)"

definition ioctl_text :: "string \<Rightarrow> string" where
  "ioctl_text name = ''PassThruIoctl('' @ name @ '')''"

definition run_ioctl :: "u64 \<Rightarrow> ioctl \<Rightarrow> world \<Rightarrow> int \<times> ioctl_out \<times> world" where
  "run_ioctl ChannelID io w =
    (let done = (\<lambda>name out rc w. let (rc, w) = failed rc (ioctl_text name) w in (rc, out, w));
         k = unat ChannelID in
     case io of
       Io_Get_Config l \<Rightarrow>
         let (rc, ps, w) = ioctl_get_config ChannelID l w in done ''GET_CONFIG'' (Out_Config ps) rc w
     | Io_Set_Config l \<Rightarrow>
         let (rc, w) = ioctl_set_config ChannelID l w in done ''SET_CONFIG'' Out_Nothing rc w
     | Io_Read_Vbatt out \<Rightarrow>
         let (rc, v, w) = ioctl_read_pin OP_PIN_VBATT out w in
         done ''READ_VBATT'' (case v of Some v \<Rightarrow> Out_Value v | None \<Rightarrow> Out_Nothing) rc w
     | Io_Read_Prog_Voltage pin out \<Rightarrow>
         let (rc, v, w) = ioctl_read_pin (case pin of Some p \<Rightarrow> ucast p | None \<Rightarrow> OP_PIN_PROG_VOLTAGE) out w in
         done ''READ_PROG_VOLTAGE'' (case v of Some v \<Rightarrow> Out_Value v | None \<Rightarrow> Out_Nothing) rc w
     | Io_Five_Baud_Init i out \<Rightarrow>
         let (rc, b, w) = ioctl_five_baud ChannelID i out w in
         done ''FIVE_BAUD_INIT'' (case b of Some b \<Rightarrow> Out_Bytes b | None \<Rightarrow> Out_Nothing) rc w
     | Io_Fast_Init i out \<Rightarrow>
         let (rc, m, w) = ioctl_fast_init ChannelID i out w in
         done ''FAST_INIT'' (case m of Some m \<Rightarrow> Out_Msg m | None \<Rightarrow> Out_Nothing) rc w
     | Io_Clear_Tx_Buffer \<Rightarrow> (STATUS_NOERROR, Out_Nothing, w)
     | Io_Clear_Rx_Buffer \<Rightarrow> (STATUS_NOERROR, Out_Nothing, on_dev (op_device_flush_channel k) w)
     | Io_Clear_Periodic_Msgs \<Rightarrow>
         let (rc, r, w) = simple_cmd (op_cmd_clear_periodic OP_CMD_MAX (ucast ChannelID)) [] OP_DEFAULT_CMD_MS w in
         done ''CLEAR_PERIODIC_MSGS'' Out_Nothing rc
           (if rc = STATUS_NOERROR then on_chan k (\<lambda>c. c\<lparr>nperiodic := 0\<rparr>) w else w)
     | Io_Clear_Msg_Filters \<Rightarrow>
         let (rc, r, w) = simple_cmd (op_cmd_clear_filters OP_CMD_MAX (ucast ChannelID)) [] OP_DEFAULT_CMD_MS w in
         done ''CLEAR_MSG_FILTERS'' Out_Nothing rc w
     | Io_Other n \<Rightarrow>
         let (rc, w) =
           (if n \<in> {CLEAR_FUNCT_MSG_LOOKUP_TABLE, ADD_TO_FUNCT_MSG_LOOKUP_TABLE, DELETE_FROM_FUNCT_MSG_LOOKUP_TABLE}
            then fail ERR_NOT_SUPPORTED ''PassThruIoctl: functional message table'' w
            else fail ERR_INVALID_IOCTL_ID ''PassThruIoctl'' w)
         in (rc, Out_Nothing, w))"

definition PassThruIoctl :: "u64 \<Rightarrow> ioctl \<Rightarrow> world \<Rightarrow> int \<times> ioctl_out \<times> world" where
  "PassThruIoctl ChannelID io w =
    (let w = clear_err w;
         failing = (\<lambda>code what w. let (rc, w) = fail code what w in (rc, Out_Nothing, w)) in
     if \<not> d_open (dev w) then failing ERR_INVALID_DEVICE_ID ''PassThruIoctl'' w
     else case needs_channel io of
       Some name \<Rightarrow>
         if \<not> channel_of (dev w) ChannelID then failing ERR_INVALID_CHANNEL_ID (ioctl_text name) w
         else run_ioctl ChannelID io w
     | None \<Rightarrow> run_ioctl ChannelID io w)"

end
