(* ===== verification/Api_Safety.thy ===== *)
theory Api_Safety
  imports Api_Ioctl
begin

text \<open>
  What every sequence of calls keeps, in any interleaving with the reader thread: the interface
  \<open>passive\<close> names what a fact about the process must survive to survive the entry points that
  leave the configuration alone, and the invariant \<open>safe\<close> is carried through all of them by
  rule induction on \<open>reachable\<close>.
\<close>

section \<open>Facts the plain calls keep\<close>

locale steady =
  fixes P :: "world \<Rightarrow> bool"
  assumes exchange: "P w \<Longrightarrow> P (snd (snd (cmd_exchange l p t wt w)))"
    and pop: "P w \<Longrightarrow> P (snd (snd (op_device_pop k t w)))"
    and dropped: "P w \<Longrightarrow> P (w\<lparr>dev := snd (op_device_take_dropped k (dev w))\<rparr>)"
    and flush: "P w \<Longrightarrow> P (on_dev (op_device_flush_channel k) w)"
    and set_text: "P w \<Longrightarrow> P (set_err s w)"
    and clear_text: "P w \<Longrightarrow> P (clear_err w)"
begin

lemma simple_cmd: "P w \<Longrightarrow> P (snd (snd (simple_cmd l p t w)))"
  using exchange [of w l p t True]
  by (simp add: simple_cmd_def op_device_cmd_def split_beta split: option.split)

lemma nowait: "P w \<Longrightarrow> P (snd (op_device_send_nowait l p w))"
  using exchange by (simp add: op_device_send_nowait_def split_beta)

lemma fail: "P w \<Longrightarrow> P (snd (fail c s w))"
  by (simp add: fail_def Let_def set_text)

lemma failed: "P w \<Longrightarrow> P (snd (failed c s w))"
  by (simp add: failed_def fail)

lemma msg_ok: "P w \<Longrightarrow> P (snd (msg_ok c m w))"
  by (simp add: msg_ok_def Let_def split_beta set_text)

lemma write_one: "P w \<Longrightarrow> P (snd (write_one c m t w))"
  using msg_ok [of w c m]
  by (simp add: write_one_def Let_def split_beta simple_cmd nowait)

lemma write_loop: "P w \<Longrightarrow> P (snd (snd (write_loop clk c ms want T n w)))"
  by (induction ms arbitrary: clk n w) (auto simp: Let_def split_beta write_one fail set_text)

lemma write_msgs: "P w \<Longrightarrow> P (snd (snd (PassThruWriteMsgs clk c ms n T w)))"
  by (simp add: PassThruWriteMsgs_def Let_def split_beta clear_text fail write_loop split: option.split)

lemma read_loop: "P w \<Longrightarrow> read_loop clk c want T got w = Some (got', cl, w') \<Longrightarrow> P w'"
proof (induction clk c want T got w rule: read_loop.induct)
  case (2 e es c want T got w)
  obtain st m w1 where x: "op_device_pop (unat c) (read_remaining e T) w = (st, m, w1)"
    by (metis prod_cases3)
  have "P w1" using pop [OF 2(3), of "unat c" "read_remaining e T"] x by simp
  with 2 x show ?case by (auto simp: Let_def split: if_splits)
qed simp

lemma read_result: "P w \<Longrightarrow> P (snd (read_result c want T n w))"
  by (simp add: read_result_def Let_def split_beta set_text dropped)

lemma read_msgs:
  assumes "P w" and "PassThruReadMsgs clk c pm n T w = Some (rc, cnt, got, w')"
  shows "P w'"
proof -
  have "P (clear_err w)" using assms(1) by (rule clear_text)
  moreover from this have "P w1" if "read_loop clk c want T [] (clear_err w) = Some (g, cl, w1)" for want g cl w1
    using that by (rule read_loop)
  ultimately show ?thesis
    using assms(2) fail read_result
    by (auto simp: PassThruReadMsgs_def Let_def split_beta split: if_splits option.splits)
qed

lemma start_filter:
  assumes "P w"
  shows "P (snd (snd (start_filter c ft need a b f w)))"
proof (cases rule: start_filter_cases [of c ft need a b f w])
  case (asked line fl p rc r w1 what)
  with simple_cmd [OF assms, of line p OP_DEFAULT_CMD_MS] fail show ?thesis by simp
qed (use assms fail in simp)

lemma start_msg_filter: "P w \<Longrightarrow> P (snd (snd (PassThruStartMsgFilter c ft a b f i w)))"
  by (simp add: PassThruStartMsgFilter_def Let_def split_beta fail clear_text start_filter split: option.split)

lemma stop_msg_filter: "P w \<Longrightarrow> P (snd (PassThruStopMsgFilter c i w))"
  by (simp add: PassThruStopMsgFilter_def Let_def split_beta fail failed clear_text simple_cmd)

lemma read_version: "P w \<Longrightarrow> P (snd (snd (PassThruReadVersion v i a b c w)))"
  by (simp add: PassThruReadVersion_def Let_def split_beta fail clear_text)

lemma last_error: "P w \<Longrightarrow> P (snd (snd (PassThruGetLastError b w)))"
  by (simp add: PassThruGetLastError_def)

lemma get_config_loop: "P w \<Longrightarrow> P (snd (snd (get_config_loop c ps rc w)))"
  by (induction ps arbitrary: rc w) (simp, simp add: split_paired_all Let_def split_beta simple_cmd)

lemma set_config_loop: "P w \<Longrightarrow> P (snd (set_config_loop c ps rc w))"
  by (induction ps arbitrary: rc w) (simp, simp add: split_paired_all Let_def split_beta simple_cmd)

lemma ioctl_parts:
  assumes "P w"
  shows "P (snd (snd (ioctl_get_config c l w)))" and "P (snd (ioctl_set_config c l w))"
    and "P (snd (snd (ioctl_read_pin pin b w)))" and "P (snd (snd (init_exchange line pl w)))"
    and "P (snd (snd (ioctl_five_baud c i out w)))" and "P (snd (snd (ioctl_fast_init c m b w)))"
proof -
  show init: "P (snd (snd (init_exchange line pl w)))" for line pl
    using assms by (simp add: init_exchange_def Let_def split_beta simple_cmd set_text split: option.split)
  show "P (snd (snd (ioctl_get_config c l w)))" "P (snd (ioctl_set_config c l w))"
    "P (snd (snd (ioctl_read_pin pin b w)))"
    using assms by (simp_all add: ioctl_get_config_def ioctl_set_config_def ioctl_read_pin_def Let_def
        split_beta get_config_loop set_config_loop simple_cmd split: option.split)
  show "P (snd (snd (ioctl_five_baud c i out w)))" "P (snd (snd (ioctl_fast_init c m b w)))"
    using assms init by (simp_all add: ioctl_five_baud_def ioctl_fast_init_def Let_def split_beta split: option.split)
qed

lemma run_ioctl: "P w \<Longrightarrow> io \<noteq> Io_Clear_Periodic_Msgs \<Longrightarrow> P (snd (snd (run_ioctl c io w)))"
  by (cases io) (simp_all add: run_ioctl_def Let_def split_beta failed fail simple_cmd ioctl_parts flush)

lemma ioctl: "P w \<Longrightarrow> io \<noteq> Io_Clear_Periodic_Msgs \<Longrightarrow> P (snd (snd (PassThruIoctl c io w)))"
  by (simp add: PassThruIoctl_def Let_def split_beta clear_text fail run_ioctl split: option.split)

end

section \<open>The configuration\<close>

text \<open>Which channels are open on what, their periodic messages, and the pins.\<close>

definition same_chan :: "op_channel \<Rightarrow> op_channel \<Rightarrow> bool" where
  "same_chan c c' \<longleftrightarrow> ch_open c' = ch_open c \<and> ch_protocol c' = ch_protocol c \<and>
     nperiodic c' = nperiodic c \<and> periodic c' = periodic c"

definition same_conf :: "op_device \<Rightarrow> op_device \<Rightarrow> bool" where
  "same_conf d d' \<longleftrightarrow> (\<forall>k. same_chan (ch d k) (ch d' k)) \<and> pins_grounded d' = pins_grounded d \<and>
     pins_powered d' = pins_powered d"

lemma same_conf_refl [simp]: "same_conf d d"
  by (simp add: same_conf_def same_chan_def)

lemma same_conf_trans: "same_conf a b \<Longrightarrow> same_conf b c \<Longrightarrow> same_conf a c"
  by (simp add: same_conf_def same_chan_def)

lemma same_chan_absorb: "same_chan (chs k) (absorb_frame chs r k)"
  by (auto simp: same_chan_def absorb_frame_def Let_def queue_frame_def)

lemma same_conf_event: "same_conf d d' \<Longrightarrow> same_conf d (apply_event e d')"
proof (rule apply_event_keeps [where P = "same_conf d"])
  fix r d'
  assume "same_conf d d'"
  then show "same_conf d (handle r d')"
    using same_chan_absorb [of "ch d'" _ r] by (auto simp: same_conf_def handle_def same_chan_def)
qed (simp_all add: same_conf_def)

lemma same_conf_events: "same_conf d (apply_events es d)"
  by (rule apply_events_keeps [where P = "same_conf d"]) (simp_all add: same_conf_event)

lemma same_conf_wait: "same_conf d (wait_reply bs d)" "same_conf d (wait_message k bs d)"
  by (rule wait_reply_keeps [where P = "same_conf d"] wait_message_keeps [where P = "same_conf d"],
      simp_all add: same_conf_event)+

lemma same_conf_claimed: "same_conf d (claimed wt e n seq d)"
proof -
  have "same_conf d (claim_slot wt seq (n ! 2) (apply_events (e_claim e) d))"
    using same_conf_events [of d "e_claim e"] by (simp add: same_conf_def)
  from same_conf_trans [OF this same_conf_events] show ?thesis by (simp add: claimed_def)
qed

lemma same_conf_locked:
  assumes "exchange_locked wt e n seq d = (st, r, d')"
  shows "same_conf d d'"
  using assms
proof (cases rule: locked_cases)
  case 1
  then show ?thesis using same_conf_claimed [of d wt e n seq] by (simp add: same_conf_def)
next
  case 2
  note conf = same_conf_trans [OF same_conf_claimed [of d wt e n seq] same_conf_wait(1) [of _ "e_wait e"]]
  from 2(3) show ?thesis
    by (cases rule: await_cases) (use conf in \<open>simp_all add: same_conf_def\<close>)
qed

lemma same_conf_exchange: "same_conf (dev w) (dev (snd (snd (cmd_exchange l p t wt w))))"
proof -
  obtain st r w' where x: "cmd_exchange l p t wt w = (st, r, w')" by (metis prod_cases3)
  then show ?thesis
  proof (cases rule: exchange_cases)
    case 1
    with x show ?thesis by (auto simp: refused_def take_seq_def same_conf_def same_chan_def)
  next
    case (2 n seq d e)
    then have "same_conf (dev w) d"
      by (auto simp: number_line_def take_seq_def same_conf_def same_chan_def split: if_splits)
    from same_conf_trans [OF this same_conf_locked [OF 2(8)]] x show ?thesis by simp
  qed
qed

lemma same_conf_pop: "same_conf (dev w) (dev (snd (snd (op_device_pop k t w))))"
proof (cases "k < 10")
  case False
  then show ?thesis by (simp add: op_device_pop_def)
next
  case True
  obtain st r w' where x: "op_device_pop k t w = (st, r, w')" by (metis prod_cases3)
  let ?d = "if t > 0 then wait_message k (e_wait (fst (next_env w))) (dev w) else dev w"
  have wait: "same_conf (dev w) ?d" using same_conf_wait(2) by simp
  have pop: "same_conf d (d\<lparr>ch := (ch d)(k := snd (queue_pop (ch d k)))\<rparr>)" for d
    by (simp add: same_conf_def same_chan_def queue_pop_def ring_get_def Let_def split_beta)
  from x True show ?thesis
  proof (cases rule: pop_cases)
    case 3
    from same_conf_trans [OF wait pop] 3 x show ?thesis by simp
  qed (use wait x in simp_all)
qed

text \<open>What the plain calls keep: soundness, the configuration and the size of the error text.\<close>

definition quiet :: "world \<Rightarrow> world \<Rightarrow> bool" where
  "quiet v w \<longleftrightarrow> (world_ok v \<longrightarrow> world_ok w) \<and> same_conf (dev v) (dev w) \<and>
     (length (err_text v) < OP_ERR_TEXT_MAX \<longrightarrow> length (err_text w) < OP_ERR_TEXT_MAX)"

lemma quiet_refl [simp]: "quiet w w"
  by (simp add: quiet_def)

lemma quiet_trans: "quiet u v \<Longrightarrow> quiet v w \<Longrightarrow> quiet u w"
  using same_conf_trans by (auto simp: quiet_def)

lemma exchange_err_text: "err_text (snd (snd (cmd_exchange l p t wt w))) = err_text w"
  by (simp add: cmd_exchange_def Let_def split_beta)

lemma pop_err_text: "err_text (snd (snd (op_device_pop k t w))) = err_text w"
  by (simp add: op_device_pop_def Let_def split_beta)

lemma quiet_steps:
  shows "quiet w (snd (snd (cmd_exchange l p t wt w)))" and "quiet w (snd (snd (op_device_pop k t w)))"
    and "quiet w (w\<lparr>dev := snd (op_device_take_dropped k (dev w))\<rparr>)"
    and "quiet w (on_dev (op_device_flush_channel k) w)"
    and "quiet w (set_err s w)" and "quiet w (clear_err w)"
proof -
  show "quiet w (snd (snd (cmd_exchange l p t wt w)))"
    using same_conf_exchange exchange_world_ok [of w l p t wt] exchange_err_text
    by (metis prod.collapse quiet_def)
  show "quiet w (snd (snd (op_device_pop k t w)))"
    using same_conf_pop pop_world_ok [of w k t] pop_err_text by (metis prod.collapse quiet_def)
  show "quiet w (w\<lparr>dev := snd (op_device_take_dropped k (dev w))\<rparr>)"
    using dev_ok_channels(4) [of "dev w" k]
    by (auto simp: quiet_def world_ok_def op_device_take_dropped_def same_conf_def same_chan_def)
  show "quiet w (on_dev (op_device_flush_channel k) w)"
    using dev_ok_channels(1) [of "dev w" k]
    by (auto simp: quiet_def world_ok_def op_device_flush_channel_def same_conf_def same_chan_def flush_locked_def)
  show "quiet w (set_err s w)" "quiet w (clear_err w)"
    by (simp_all add: quiet_def set_err_def clear_err_def world_ok_def op_err_set_def op_err_clear_def
        min_less_iff_disj)
qed

interpretation quiet: steady "quiet v" for v
  by unfold_locales (blast intro: quiet_trans quiet_steps)+

section \<open>The safety invariant\<close>

text \<open>
  At most ten periodic ids in the array of ten; an open channel is the one its protocol is opened
  on; no line is held twice; no pin that carries an open channel is recorded as grounded; at most
  one pin is recorded as powered.
\<close>

definition chan_safe :: "u32 \<Rightarrow> nat \<Rightarrow> op_channel \<Rightarrow> bool" where
  "chan_safe grounded k c \<longleftrightarrow> nperiodic c \<le> OP_PERIODIC_PER_CH \<and>
     (ch_open c \<longrightarrow> op_protocol_channel (ucast (ch_protocol c)) = int k \<and>
        (\<forall>pin<32. bit grounded pin \<longrightarrow> \<not> protocol_uses_pin (ucast (ch_protocol c)) (of_nat pin)))"

definition conf_safe :: "op_device \<Rightarrow> bool" where
  "conf_safe d \<longleftrightarrow> (\<forall>k. chan_safe (pins_grounded d) k (ch d k)) \<and>
     \<not> (ch_open (ch d 3) \<and> ch_open (ch d 4)) \<and> \<not> (ch_open (ch d 7) \<and> ch_open (ch d 8)) \<and>
     (\<forall>i j. bit (pins_powered d) i \<and> bit (pins_powered d) j \<longrightarrow> i = j)"

definition safe :: "world \<Rightarrow> bool" where
  "safe w \<longleftrightarrow> world_ok w \<and> conf_safe (dev w) \<and> length (err_text w) < OP_ERR_TEXT_MAX"

lemma conf_safe_same: "same_conf d d' \<Longrightarrow> conf_safe d \<Longrightarrow> conf_safe d'"
  by (simp add: conf_safe_def same_conf_def same_chan_def chan_safe_def)

lemma safe_quiet: "quiet v w \<Longrightarrow> safe v \<Longrightarrow> safe w"
  using conf_safe_same by (auto simp: safe_def quiet_def)

interpretation safe: steady safe
  by unfold_locales (blast intro: safe_quiet quiet_steps)+

text \<open>Changes of one channel, of the pins, and of what no invariant looks at.\<close>

lemma safe_chan:
  assumes "safe w" and "\<And>c. ch_open c \<Longrightarrow> chan_ok c \<Longrightarrow> chan_ok (f c)"
    and "\<And>c. ch_open (f c) = ch_open c" and "\<And>c. ch_protocol (f c) = ch_protocol c"
    and "nperiodic (f (ch (dev w) k)) \<le> OP_PERIODIC_PER_CH"
  shows "safe (on_chan k f w)"
  using assms
  by (auto simp: safe_def on_chan_def world_ok_def dev_ok_def channels_ok_def conf_safe_def chan_safe_def)

lemma chan_ok_frame:
  assumes "rq c' = rq c" "rq_head c' = rq_head c" "rq_tail c' = rq_tail c" "rq_used c' = rq_used c"
    "qcount c' = qcount c" "partial c' = partial c" "partial_active c' = partial_active c"
  shows "chan_ok c' = chan_ok c"
  using chan_rep_frame [OF assms(1-5)] assms(6,7) by (simp add: chan_ok_def)

lemma safe_close_device: "safe w \<Longrightarrow> safe (op_device_close w)"
proof -
  have "same_conf (dev w) (dev (op_device_close w))"
    using same_conf_events [of "(dev w)\<lparr>d_open := False\<rparr>"]
    by (auto simp: op_device_close_def Let_def split_beta same_conf_def same_chan_def)
  then show "safe w \<Longrightarrow> safe (op_device_close w)"
    using close_world_ok conf_safe_same by (simp add: safe_def)
qed

lemma safe_close_channel: "safe w \<Longrightarrow> safe (on_dev (op_device_close_channel k) w)"
  using dev_ok_channels(3) [of "dev w" k]
  by (auto simp: safe_def world_ok_def op_device_close_channel_def conf_safe_def chan_safe_def flush_locked_def)

lemma safe_fw_version: "safe w \<Longrightarrow> safe (on_dev (\<lambda>d. d\<lparr>fw_version := v\<rparr>) w)"
  by (simp add: safe_def world_ok_def dev_ok_def conf_safe_def)

text \<open>After an open nothing is open, grounded or powered.\<close>

lemma sync_conf:
  "same_conf (dev w) (dev (snd (sync_device w)))"
proof (rule sync_device_keeps [where P = "\<lambda>v. same_conf (dev w) (dev v)"])
  fix line p t v st r v'
  assume "same_conf (dev w) (dev v)" and "op_device_cmd line p t v = (st, r, v')"
  then show "same_conf (dev w) (dev v')"
    using same_conf_exchange [of v line p t True] same_conf_trans by (auto simp: op_device_cmd_def)
qed (simp add: same_conf_events)

lemma reset_conf_safe: "conf_safe d \<Longrightarrow> conf_safe (reset_session n d)"
  by (auto simp: conf_safe_def chan_safe_def reset_session_def) (simp_all add: channel0_def)

lemma sync_err_text: "err_text (snd (sync_device w)) = err_text w"
proof (rule sync_device_keeps [where P = "\<lambda>v. err_text v = err_text w"])
  fix line p t v st r v'
  assume "err_text v = err_text w" and "op_device_cmd line p t v = (st, r, v')"
  then show "err_text v' = err_text w"
    using exchange_err_text [of line p t True v] by (simp add: op_device_cmd_def)
qed simp

lemma safe_open_device:
  assumes "safe w"
  shows "safe (snd (op_device_open oe w))"
proof -
  let ?r = "on_dev (reset_session (o_millis oe)) w"
  let ?w = "on_dev (\<lambda>d. d\<lparr>t_open := True, reader_started := True, reader_done := False,
      failures := 0, d_open := True\<rparr>) ?r"
  have "conf_safe (reset_session (o_millis oe) (dev w))"
    using assms reset_conf_safe by (simp add: safe_def)
  then have w: "conf_safe (dev ?w)" and r: "conf_safe (dev ?r)"
    "conf_safe (dev (on_dev (\<lambda>d. d\<lparr>t_open := False\<rparr>) ?r))"
    by (simp_all add: conf_safe_def)
  have sync: "conf_safe (dev (snd (sync_device ?w)))"
    by (rule conf_safe_same [OF sync_conf w])
  have "same_conf (dev v) (dev (op_device_close v))" for v
    using same_conf_events [of "(dev v)\<lparr>d_open := False\<rparr>"]
    by (auto simp: op_device_close_def Let_def split_beta same_conf_def same_chan_def)
  with sync have close: "conf_safe (dev (op_device_close (snd (sync_device ?w))))"
    using conf_safe_same by blast
  have "conf_safe (dev (snd (op_device_open oe w)))"
    using assms r sync close by (auto simp: op_device_open_def Let_def split_beta safe_def)
  moreover have "err_text (snd (op_device_open oe w)) = err_text w"
    by (simp add: op_device_open_def Let_def split_beta sync_err_text)
  ultimately show ?thesis
    using assms open_world_ok [of w oe] by (auto simp: safe_def) (metis prod.collapse)
qed

lemma safe_open_parts:
  assumes "safe w"
  shows "safe (snd (open_failed st detail w))" and "safe (snd (open_identify w))"
  using assms
  by (simp_all add: open_failed_def open_identify_def Let_def split_beta safe.fail safe.set_text
      safe.simple_cmd safe_close_device safe_fw_version split: option.split)

lemma safe_open: "safe w \<Longrightarrow> safe (snd (snd (PassThruOpen oe detail p w)))"
  by (simp add: PassThruOpen_def Let_def split_beta safe.fail safe.clear_text safe_open_parts
      safe_close_device safe_open_device)

lemma safe_close: "safe w \<Longrightarrow> safe (snd (PassThruClose i w))"
  by (simp add: PassThruClose_def Let_def split_beta safe.fail safe.failed safe.clear_text safe.simple_cmd
      safe_close_device)

lemma safe_disconnect: "safe w \<Longrightarrow> safe (snd (PassThruDisconnect i w))"
  by (simp add: PassThruDisconnect_def Let_def split_beta safe.fail safe.failed safe.clear_text safe.simple_cmd
      safe_close_channel)

text \<open>A connect adds one channel, on a free line whose pin is not grounded.\<close>

lemma protocol_channel_range:
  "0 \<le> op_protocol_channel p \<Longrightarrow> op_protocol_channel p \<in> {3..9} \<and> ucast (ucast p :: u32) = p"
  by (auto simp: op_protocol_channel_def split: if_splits)

lemma open_channel_result:
  assumes "k < OP_MAX_CHANNELS"
  shows "\<exists>c. snd (op_device_open_channel fresh k p d) = d\<lparr>ch := (ch d)(k := c)\<rparr> \<and> nperiodic c = 0 \<and>
    (ch_open c \<longrightarrow> ch_protocol c = p)"
proof -
  define q where "q = (if rq (ch d k) \<noteq> None then rq (ch d k) else fresh)"
  define c where "c = (if q \<noteq> None then (channel0 q)\<lparr>ch_open := True, ch_protocol := p\<rparr> else channel0 q)"
  have "snd (op_device_open_channel fresh k p d) = d\<lparr>ch := (ch d)(k := c)\<rparr>"
    using assms unfolding op_device_open_channel_def Let_def q_def [symmetric] c_def by simp
  moreover have "nperiodic c = 0" "ch_open c \<longrightarrow> ch_protocol c = p"
    by (simp_all add: c_def) (simp_all add: channel0_def)
  ultimately show ?thesis by blast
qed

lemma safe_open_channel:
  assumes "safe w" and "0 \<le> op_protocol_channel p"
    and partner: "line_partner (op_protocol_channel p) \<ge> 0 \<longrightarrow>
      \<not> ch_open (ch (dev w) (nat (line_partner (op_protocol_channel p))))"
    and "grounded_pin (dev w) p = None"
  shows "safe (w\<lparr>dev := snd (op_device_open_channel fresh (nat (op_protocol_channel p)) (ucast p) (dev w))\<rparr>)"
proof -
  define k where "k = nat (op_protocol_channel p)"
  have p: "ucast (ucast p :: u32) = p" and k: "k < 10" "int k = op_protocol_channel p"
    using protocol_channel_range [OF assms(2)] assms(2) by (auto simp: k_def)
  from k(1) have "k < OP_MAX_CHANNELS" by simp
  from open_channel_result [OF this, of fresh "ucast p" "dev w"] obtain c where c: "snd (op_device_open_channel fresh k (ucast p) (dev w)) = (dev w)\<lparr>ch := (ch (dev w))(k := c)\<rparr>"
    "nperiodic c = 0" "ch_open c \<Longrightarrow> ch_protocol c = ucast p"
    by blast
  have pin: "\<forall>pin<32. bit (pins_grounded (dev w)) pin \<longrightarrow> \<not> protocol_uses_pin p (of_nat pin)"
    using assms(4) by (auto simp: grounded_pin_def find_None_iff)
  have "chan_safe (pins_grounded (dev w)) k c"
    unfolding chan_safe_def using c(2,3) p k(2) pin by auto
  moreover have "\<not> ch_open (ch (dev w) 4)" if "k = 3" using partner k(2) that by (simp add: line_partner_def)
  moreover have "\<not> ch_open (ch (dev w) 3)" if "k = 4" using partner k(2) that by (simp add: line_partner_def)
  moreover have "\<not> ch_open (ch (dev w) 8)" if "k = 7" using partner k(2) that by (simp add: line_partner_def)
  moreover have "\<not> ch_open (ch (dev w) 7)" if "k = 8" using partner k(2) that by (simp add: line_partner_def)
  moreover have "conf_safe (dev w)" using assms(1) by (simp add: safe_def)
  ultimately have "conf_safe ((dev w)\<lparr>ch := (ch (dev w))(k := c)\<rparr>)"
    unfolding conf_safe_def by auto
  moreover have "world_ok (w\<lparr>dev := (dev w)\<lparr>ch := (ch (dev w))(k := c)\<rparr>\<rparr>)"
    using assms(1) dev_ok_channels(2) [of "dev w" fresh k "ucast p"] c(1)
    by (auto simp: safe_def world_ok_def)
  ultimately show ?thesis
    using assms(1) c(1) by (simp add: safe_def k_def)
qed

lemma grounded_same: "same_conf d d' \<Longrightarrow> grounded_pin d' p = grounded_pin d p"
  by (simp add: grounded_pin_def same_conf_def)

lemma open_same: "same_conf d d' \<Longrightarrow> ch_open (ch d' k) = ch_open (ch d k)"
  by (simp add: same_conf_def same_chan_def)

lemma safe_connect_channel:
  assumes "safe w" and "0 \<le> op_protocol_channel p"
    and "line_partner (op_protocol_channel p) \<ge> 0 \<longrightarrow>
      \<not> ch_open (ch (dev w) (nat (line_partner (op_protocol_channel p))))"
    and "grounded_pin (dev w) p = None"
  shows "safe (snd (connect_channel fresh (op_protocol_channel p) p Flags Baud w))"
proof -
  define fw where "fw = op_protocol_channel p"
  define l where "l = op_cmd_open OP_CMD_MAX (of_int fw) (ucast Flags) (ucast Baud)"
  obtain rc r w1 where x: "simple_cmd l [] 1000 w = (rc, r, w1)" by (metis prod_cases3)
  from safe.simple_cmd [OF assms(1), of l "[]" 1000] x have w1: "safe w1" by simp
  from quiet.simple_cmd [OF quiet_refl, of w l "[]" 1000] x have same: "same_conf (dev w) (dev w1)"
    by (simp add: quiet_def)
  have step: "safe (w1\<lparr>dev := snd (op_device_open_channel fresh (nat fw) (ucast p) (dev w1))\<rparr>)"
    unfolding fw_def using assms(2-4) grounded_same [OF same] open_same [OF same]
    by (intro safe_open_channel [OF w1]) simp_all
  show ?thesis
    unfolding connect_channel_def fw_def [symmetric] l_def [symmetric] Let_def OP_DEFAULT_CMD_MS_def x
    using assms(1) w1 step
    by (simp add: split_beta safe.fail safe.set_text safe.simple_cmd del: OP_CMD_MAX_def)
qed

lemma safe_connect:
  assumes "safe w"
  shows "safe (snd (snd (PassThruConnect fresh i p Flags Baud b w)))"
proof -
  have c: "safe (clear_err w)" by (rule safe.clear_text [OF assms])
  show ?thesis
    unfolding PassThruConnect_def Let_def
    using c by (simp add: split_beta safe.fail safe.set_text safe_connect_channel split: option.split)
qed

text \<open>Periodic messages: one more id, only where there is room; one or all fewer.\<close>

lemma safe_nperiodic: "safe w \<Longrightarrow> nperiodic (ch (dev w) k) \<le> OP_PERIODIC_PER_CH"
  unfolding safe_def conf_safe_def chan_safe_def by blast

lemma nperiodic_cmd: "nperiodic (ch (dev (snd (snd (simple_cmd l p t w)))) k) = nperiodic (ch (dev w) k)"
  using quiet.simple_cmd [OF quiet_refl, of w l p t] by (simp add: quiet_def same_conf_def same_chan_def)

lemma safe_periodic_added:
  assumes "safe w" and "nperiodic (ch (dev w) k) < OP_PERIODIC_PER_CH"
  shows "safe (on_chan k (\<lambda>c. c\<lparr>periodic := (periodic c)(nperiodic c := x), nperiodic := Suc (nperiodic c)\<rparr>) w)"
proof (rule safe_chan [OF assms(1)])
  fix c :: op_channel
  assume "chan_ok c"
  then show "chan_ok (c\<lparr>periodic := (periodic c)(nperiodic c := x), nperiodic := Suc (nperiodic c)\<rparr>)"
    by (subst chan_ok_frame) simp_all
qed (use assms(2) in simp_all)

lemma safe_start_periodic: "safe w \<Longrightarrow> safe (snd (snd (start_periodic c m t w)))"
  unfolding start_periodic_def Let_def
  by (simp add: split_beta safe.fail safe.simple_cmd not_le nperiodic_cmd
      safe_periodic_added del: OP_PERIODIC_PER_CH_def split: option.split)

lemma safe_start_periodic_msg: "safe w \<Longrightarrow> safe (snd (snd (PassThruStartPeriodicMsg c m b t w)))"
  by (simp add: PassThruStartPeriodicMsg_def Let_def split_beta safe.fail safe.clear_text safe.msg_ok
      safe_start_periodic split: option.split)

lemma safe_periodic_stop: "safe w \<Longrightarrow> safe (snd (periodic_stop c slot w))"
proof -
  assume w: "safe w"
  obtain rc r w1 where x: "simple_cmd (op_cmd_periodic_stop OP_CMD_MAX (ucast c)
      (periodic (ch (dev w) (unat c)) slot)) [] OP_DEFAULT_CMD_MS w = (rc, r, w1)" by (metis prod_cases3)
  with safe.simple_cmd [OF w] have w1: "safe w1" by (metis snd_conv)
  have "safe (on_chan (unat c) (\<lambda>c. c\<lparr>nperiodic := nperiodic c - 1,
      periodic := (periodic c)(slot := periodic c (nperiodic c - 1))\<rparr>) w1)"
  proof (rule safe_chan [OF w1])
    fix c :: op_channel
    assume "chan_ok c"
    then show "chan_ok (c\<lparr>nperiodic := nperiodic c - 1, periodic := (periodic c)(slot := periodic c (nperiodic c - 1))\<rparr>)"
      by (subst chan_ok_frame) simp_all
  qed (use safe_nperiodic [OF w1, of "unat c"] in simp_all)
  with w1 x show ?thesis unfolding periodic_stop_def Let_def by simp
qed

lemma safe_stop_periodic_msg: "safe w \<Longrightarrow> safe (snd (PassThruStopPeriodicMsg c i w))"
  by (simp add: PassThruStopPeriodicMsg_def Let_def split_beta safe.fail safe.failed safe.clear_text
      safe_periodic_stop)

lemma safe_clear_periodic: "safe w \<Longrightarrow> safe (on_chan k (\<lambda>c. c\<lparr>nperiodic := 0\<rparr>) w)"
proof (erule safe_chan)
  fix c :: op_channel
  assume "chan_ok c"
  then show "chan_ok (c\<lparr>nperiodic := 0\<rparr>)" by (subst chan_ok_frame) simp_all
qed simp_all

lemma safe_ioctl: "safe w \<Longrightarrow> safe (snd (snd (PassThruIoctl c io w)))"
proof (cases "io = Io_Clear_Periodic_Msgs")
  case True
  then show "safe w \<Longrightarrow> safe (snd (snd (PassThruIoctl c io w)))"
    by (simp add: PassThruIoctl_def run_ioctl_def needs_channel_def Let_def split_beta safe.clear_text
        safe.fail safe.failed safe.simple_cmd safe_clear_periodic)
qed (simp add: safe.ioctl)

text \<open>The pins.\<close>

lemma pin_bit:
  fixes p :: u32
  assumes "p AND NOT (push_bit n 1) = 0" and "bit p i"
  shows "i = n"
proof -
  have "i < 32" using bit_imp_le_length [OF assms(2)] by simp
  moreover have "\<not> bit (p AND NOT (push_bit n 1)) i" using assms(1) by simp
  ultimately show ?thesis using assms(2) by (auto simp: bit_simps)
qed

lemma record_pin_bits:
  assumes "n < 32"
  shows "bit (pins_grounded (record_pin n v d)) i \<longleftrightarrow>
      (if i = n then v = SHORT_TO_GROUND else bit (pins_grounded d) i)"
    and "bit (pins_powered (record_pin n v d)) i \<longleftrightarrow>
      (if i = n then v \<noteq> SHORT_TO_GROUND \<and> v \<noteq> VOLTAGE_OFF else bit (pins_powered d) i)"
    and "ch (record_pin n v d) = ch d" "accum (record_pin n v d) = accum d"
    "d_open (record_pin n v d) = d_open d" "cmd_waiting (record_pin n v d) = cmd_waiting d"
    "seq_next (record_pin n v d) = seq_next d"
  using assms bit_imp_le_length [of "pins_grounded d" i] bit_imp_le_length [of "pins_powered d" i]
  by (auto simp: record_pin_def Let_def bit_simps)

lemma channel_on_pin_none:
  assumes "channel_on_pin d pin = None" and "k < 10" and "ch_open (ch d k)"
  shows "\<not> protocol_uses_pin (ucast (ch_protocol (ch d k))) pin"
  using assms by (auto simp: channel_on_pin_def find_None_iff)

lemma safe_record_pin:
  assumes "safe w" and "pin < 32"
    and "v \<noteq> VOLTAGE_OFF \<Longrightarrow> v \<noteq> SHORT_TO_GROUND \<Longrightarrow> pins_powered (dev w) AND NOT (push_bit (unat pin) 1) = 0"
    and "v = SHORT_TO_GROUND \<Longrightarrow> channel_on_pin (dev w) pin = None"
  shows "safe (on_dev (record_pin (unat pin) v) w)"
proof -
  let ?n = "unat pin" and ?d = "record_pin (unat pin) v (dev w)"
  have n: "?n < 32" using assms(2) by (simp add: word_less_nat_alt)
  have conf: "conf_safe (dev w)" using assms(1) by (simp add: safe_def)
  have "chan_safe (pins_grounded ?d) k (ch ?d k)" for k
  proof -
    have c: "chan_safe (pins_grounded (dev w)) k (ch (dev w) k)" using conf by (simp add: conf_safe_def)
    have "\<not> protocol_uses_pin (ucast (ch_protocol (ch (dev w) k))) pin"
      if "ch_open (ch (dev w) k)" "v = SHORT_TO_GROUND"
    proof -
      from c that(1) have "int k = op_protocol_channel (ucast (ch_protocol (ch (dev w) k)))"
        by (simp add: chan_safe_def)
      with protocol_channel_range [of "ucast (ch_protocol (ch (dev w) k))"] have "k < 10" by simp
      with channel_on_pin_none [OF assms(4)] that show ?thesis by blast
    qed
    with c show ?thesis
      unfolding chan_safe_def record_pin_bits(1,3) [OF n] by (auto split: if_splits)
  qed
  moreover have "i = j" if ij: "bit (pins_powered ?d) i" "bit (pins_powered ?d) j" for i j
  proof (cases "v = SHORT_TO_GROUND \<or> v = VOLTAGE_OFF")
    case True
    with ij have "bit (pins_powered (dev w)) i" "bit (pins_powered (dev w)) j"
      unfolding record_pin_bits(2) [OF n] by (auto split: if_splits)
    with conf show ?thesis unfolding conf_safe_def by blast
  next
    case False
    have "x = ?n" if "bit (pins_powered ?d) x" for x
      using that False pin_bit [of "pins_powered (dev w)" ?n x] assms(3)
      unfolding record_pin_bits(2) [OF n] by (cases "x = ?n") simp_all
    from this [OF ij(1)] this [OF ij(2)] show ?thesis by simp
  qed
  ultimately have "conf_safe ?d"
    using conf unfolding conf_safe_def record_pin_bits(3) [OF n] by blast
  moreover have "world_ok (on_dev (record_pin ?n v) w)"
    using assms(1) by (simp add: safe_def world_ok_def dev_ok_def record_pin_bits [OF n])
  ultimately show ?thesis using assms(1) by (simp add: safe_def)
qed

lemma safe_set_voltage:
  assumes "safe w"
    and "v \<noteq> VOLTAGE_OFF \<Longrightarrow> v \<noteq> SHORT_TO_GROUND \<Longrightarrow> pin < 32 \<Longrightarrow>
      pins_powered (dev w) AND NOT (push_bit (unat pin) 1) = 0"
    and "v = SHORT_TO_GROUND \<Longrightarrow> channel_on_pin (dev w) pin = None"
  shows "safe (snd (set_voltage pin v w))"
proof -
  obtain rc r w1 where x: "simple_cmd (voltage_line pin v) [] OP_DEFAULT_CMD_MS w = (rc, r, w1)"
    by (metis prod_cases3)
  with safe.simple_cmd [OF assms(1)] have w1: "safe w1" by (metis snd_conv)
  from x quiet.simple_cmd [OF quiet_refl] have "same_conf (dev w) (dev w1)"
    unfolding quiet_def by (metis snd_conv)
  then have same: "pins_powered (dev w1) = pins_powered (dev w)"
    "channel_on_pin (dev w1) pin = channel_on_pin (dev w) pin"
    by (simp_all add: same_conf_def same_chan_def channel_on_pin_def)
  have "safe (on_dev (record_pin (unat pin) v) w1)" if "pin < 32"
    using assms(2,3) same that by (intro safe_record_pin [OF w1]) auto
  then show ?thesis
    unfolding set_voltage_def Let_def x using assms(1) w1 by (simp add: safe.fail)
qed

lemma safe_programming_voltage: "safe w \<Longrightarrow> safe (snd (PassThruSetProgrammingVoltage i pin v w))"
proof -
  assume "safe w"
  then have w: "safe (clear_err w)" by (rule safe.clear_text)
  show ?thesis
    unfolding PassThruSetProgrammingVoltage_def Let_def
    using w by (auto simp: safe.fail safe.set_text intro!: safe_set_voltage split: option.split)
qed

section \<open>Any sequence of calls\<close>

text \<open>
  The return code and the process after an entry point was called with any arguments in any
  environment. \<open>op_transport_last_detail\<close> gives \<open>NULL\<close> rather than an empty text.
\<close>

inductive api_result :: "world \<Rightarrow> int \<Rightarrow> world \<Rightarrow> bool" where
  Open: "PassThruOpen oe detail p w = (rc, out, w') \<Longrightarrow> detail \<noteq> Some [] \<Longrightarrow> api_result w rc w'"
| Close: "PassThruClose i w = (rc, w') \<Longrightarrow> api_result w rc w'"
| Connect: "PassThruConnect fresh i p fl baud b w = (rc, out, w') \<Longrightarrow> api_result w rc w'"
| Disconnect: "PassThruDisconnect c w = (rc, w') \<Longrightarrow> api_result w rc w'"
| Read_Msgs: "PassThruReadMsgs clk c pm n t w = Some (rc, cnt, ms, w') \<Longrightarrow> api_result w rc w'"
| Write_Msgs: "PassThruWriteMsgs clk c pm n t w = (rc, cnt, w') \<Longrightarrow> api_result w rc w'"
| Start_Periodic: "PassThruStartPeriodicMsg c m b t w = (rc, out, w') \<Longrightarrow> api_result w rc w'"
| Stop_Periodic: "PassThruStopPeriodicMsg c i w = (rc, w') \<Longrightarrow> api_result w rc w'"
| Start_Filter: "PassThruStartMsgFilter c ft m1 m2 m3 b w = (rc, out, w') \<Longrightarrow> api_result w rc w'"
| Stop_Filter: "PassThruStopMsgFilter c i w = (rc, w') \<Longrightarrow> api_result w rc w'"
| Voltage: "PassThruSetProgrammingVoltage i pin v w = (rc, w') \<Longrightarrow> api_result w rc w'"
| Version: "PassThruReadVersion ver i b1 b2 b3 w = (rc, vs, w') \<Longrightarrow> api_result w rc w'"
| Ioctl: "PassThruIoctl c io w = (rc, res, w') \<Longrightarrow> api_result w rc w'"

text \<open>
  One step of the process: an entry point, \<open>PassThruGetLastError\<close>, or events of other threads
  between two calls.
\<close>

inductive api_step :: "world \<Rightarrow> world \<Rightarrow> bool" where
  Call: "api_result w rc w' \<Longrightarrow> api_step w w'"
| Last_Error: "PassThruGetLastError b w = (rc, txt, w') \<Longrightarrow> api_step w w'"
| Other: "api_step w (on_dev (apply_events es) w)"

inductive_cases api_resultE: "api_result w rc w'"
inductive_cases api_stepE: "api_step w w'"

inductive reachable :: "world \<Rightarrow> bool" where
  Start: "reachable \<lparr>dev = g_device, sent = [], sched = s, err_text = []\<rparr>"
| Step: "reachable w \<Longrightarrow> api_step w w' \<Longrightarrow> reachable w'"

lemma safe_start: "safe \<lparr>dev = g_device, sent = [], sched = s, err_text = []\<rparr>"
  by (simp add: safe_def world_ok_def dev_ok_def channels_ok_def conf_safe_def chan_safe_def g_device_def
      OP_ACCUM_CAP_def) (simp add: channel0_def)

lemma safe_result: "api_result w rc w' \<Longrightarrow> safe w \<Longrightarrow> safe w'"
  by (erule api_resultE; metis snd_conv safe_open safe_close safe_connect safe_disconnect safe.read_msgs
    safe.write_msgs safe_start_periodic_msg safe_stop_periodic_msg safe.start_msg_filter
    safe.stop_msg_filter safe_programming_voltage safe.read_version safe_ioctl)

lemma safe_step:
  assumes "api_step w w'" and "safe w"
  shows "safe w'"
  using assms(1)
proof (cases rule: api_step.cases)
  case (Call rc)
  then show ?thesis using assms(2) by (rule safe_result)
next
  case (Last_Error b rc t)
  then show ?thesis using safe.last_error [OF assms(2), of b] by simp
next
  case (Other es)
  have "quiet w w'"
    unfolding Other using on_dev_events_ok same_conf_events by (simp add: quiet_def)
  then show ?thesis using assms(2) by (rule safe_quiet)
qed

lemma reachable_safe: "reachable w \<Longrightarrow> safe w"
  by (induction rule: reachable.induct) (blast intro: safe_start safe_step)+

text \<open>
  What the session records, whatever voltages were asked for: no two channels that share a line are open
  together; no channel is open on a pin recorded as shorted to ground; at most one pin is recorded as
  carrying a voltage.
\<close>

lemma recorded_lines_and_pins:
  assumes "reachable w"
  shows "\<not> (ch_open (ch (dev w) 3) \<and> ch_open (ch (dev w) 4))" and "\<not> (ch_open (ch (dev w) 7) \<and> ch_open (ch (dev w) 8))"
    and "ch_open (ch (dev w) k) \<Longrightarrow> pin < 32 \<Longrightarrow> bit (pins_grounded (dev w)) pin \<Longrightarrow>
      \<not> protocol_uses_pin (ucast (ch_protocol (ch (dev w) k))) (of_nat pin)"
    and "bit (pins_powered (dev w)) i \<Longrightarrow> bit (pins_powered (dev w)) j \<Longrightarrow> i = j"
  using reachable_safe [OF assms] unfolding safe_def conf_safe_def chan_safe_def by blast+

section \<open>Properties\<close>

text \<open>C2. Memory safety and soundness after any sequence of calls: every open channel's queue
  holds whole messages and its reassembly buffer is within bounds, the accumulator has room, no
  command waits, the next sequence number is at least 256 while the device is open, no channel
  keeps more than ten periodic ids, and the error text fits its buffer.\<close>

theorem reachable_sound:
  assumes "reachable w"
  shows "channels_ok (ch (dev w)) \<and> length (accum (dev w)) < OP_ACCUM_CAP \<and> \<not> cmd_waiting (dev w) \<and>
    (d_open (dev w) \<longrightarrow> 256 \<le> seq_next (dev w)) \<and>
    (\<forall>k. nperiodic (ch (dev w) k) \<le> OP_PERIODIC_PER_CH) \<and> length (err_text w) < OP_ERR_TEXT_MAX"
  using reachable_safe [OF assms]
  unfolding safe_def conf_safe_def chan_safe_def world_ok_def dev_ok_def by blast

theorem reachable_sound_witness:
  "channels_ok (ch (dev opening_world)) \<and> \<not> cmd_waiting (dev opening_world)"
  using reachable_sound [OF Start, of "sched opening_world"] by (simp add: opening_world_def)

end
