(* ===== verification/Api_Contract.thy ===== *)
theory Api_Contract
  imports Api_Safety
begin

text \<open>
  What single entry points promise: the reason a failing call leaves for \<open>PassThruGetLastError\<close>,
  the messages a read delivers and that it returns, the writes of a transmit, filters and
  periodic messages, and two places where the code falls short of its intent.
\<close>

section \<open>The error text\<close>

lemma simple_cmd_text [simp]: "err_text (snd (snd (simple_cmd l p t w))) = err_text w"
  using exchange_err_text [of l p t True w]
  by (simp add: simple_cmd_def op_device_cmd_def split_beta split: option.split)

lemma nowait_text [simp]: "err_text (snd (op_device_send_nowait l p w)) = err_text w"
  using exchange_err_text by (simp add: op_device_send_nowait_def split_beta)

lemma plain_text [simp]:
  "err_text (on_chan k f w) = err_text w" "err_text (clear_err w) = []"
  "err_text (set_err s w) = take 79 s"
  by (simp_all add: on_chan_def clear_err_def set_err_def op_err_clear_def op_err_set_def)

lemma open_device_text [simp]: "err_text (snd (op_device_open oe w)) = err_text w"
  by (simp add: op_device_open_def Let_def split_beta sync_err_text)

text \<open>A result whose text says something exactly when the code is an error.\<close>

definition told :: "int \<Rightarrow> world \<Rightarrow> bool" where
  "told rc w \<longleftrightarrow> (rc = STATUS_NOERROR \<longleftrightarrow> err_text w = [])"

lemma fail_code [simp]: "fst (fail c s w) = c" "fst (failed c s w) = c"
  by (simp_all add: fail_def failed_def Let_def)

lemma fail_told: "c \<noteq> 0 \<Longrightarrow> told c (snd (fail c s w))"
  by (auto simp: told_def fail_def Let_def op_err_is_set_def)

lemma failed_told: "(c = 0 \<Longrightarrow> err_text w = []) \<Longrightarrow> told c (snd (failed c s w))"
  using fail_told by (simp add: failed_def told_def)

lemma set_err_told: "c \<noteq> 0 \<Longrightarrow> s \<noteq> [] \<Longrightarrow> told c (set_err s w)"
  by (simp add: told_def)

lemma ok_told: "err_text w = [] \<Longrightarrow> told 0 w"
  by (simp add: told_def)

lemmas tell = fail_told failed_told set_err_told ok_told

lemma msg_ok_text:
  "told (fst (msg_ok c m w)) (snd (msg_ok c m w)) \<or> err_text w \<noteq> []"
  by (auto simp: msg_ok_def Let_def split_beta told_def)

lemma write_one_ok_text: "fst (write_one c m t w) = 0 \<Longrightarrow> err_text w = [] \<Longrightarrow> err_text (snd (write_one c m t w)) = []"
  using msg_ok_text [of c m w]
  by (auto simp: write_one_def Let_def split_beta told_def split: if_splits)

lemma write_loop_told:
  "err_text w = [] \<Longrightarrow>
   told (fst (write_loop clk c ms want T n w)) (snd (snd (write_loop clk c ms want T n w)))"
proof (induction ms arbitrary: clk n w)
  case Nil
  then show ?case by (simp add: ok_told)
next
  case (Cons m ms)
  obtain rc w1 where x: "write_one c m (write_timeout clk T) w = (rc, w1)" by force
  with write_one_ok_text [of c m "write_timeout clk T" w] Cons.prems
  have "err_text w1 = []" if "rc = 0" using that by simp
  with Cons.IH [of w1 "drop 1 clk" "Suc n"] x show ?case
    by (auto simp: tell split_beta)
qed

lemma read_loop_text: "read_loop clk c want T got w = Some (got', cl, w') \<Longrightarrow> err_text w' = err_text w"
proof (induction clk c want T got w rule: read_loop.induct)
  case (2 e es c want T got w)
  obtain st m w1 where x: "op_device_pop (unat c) (read_remaining e T) w = (st, m, w1)"
    by (metis prod_cases3)
  then have "err_text w1 = err_text w" using pop_err_text [of "unat c" "read_remaining e T" w] by simp
  with 2 x show ?case by (auto simp: Let_def split: if_splits)
qed simp

lemma read_result_told:
  "err_text w = [] \<Longrightarrow> told (fst (read_result c want T n w)) (snd (read_result c want T n w))"
  by (simp add: read_result_def Let_def split_beta tell)

lemma read_msgs_told:
  assumes "PassThruReadMsgs clk c pm n T w = Some (rc, cnt, got, w')"
  shows "told rc w'"
proof -
  have loop: "err_text w1 = []" if "read_loop clk c want T [] (clear_err w) = Some (g, cl, w1)" for want g cl w1
    using read_loop_text [OF that] by simp
  show ?thesis
    using assms fail_told read_result_told loop
    by (auto simp: PassThruReadMsgs_def Let_def split_beta tell split: if_splits option.splits)
qed

lemma write_msgs_told:
  "told (fst (PassThruWriteMsgs clk c ms n T w)) (snd (snd (PassThruWriteMsgs clk c ms n T w)))"
  by (simp add: PassThruWriteMsgs_def Let_def split_beta tell write_loop_told split: option.split)

lemma if_not_Nil: "p \<noteq> [] \<Longrightarrow> q \<noteq> [] \<Longrightarrow> (if b then p else q) \<noteq> []"
  by simp

lemma op_err_name_not_Nil [simp]: "op_err_name c \<noteq> []"
  unfolding op_err_name_def by (intro if_not_Nil list.distinct(2))

lemma open_told:
  assumes "PassThruOpen oe detail p w = (rc, out, w')" and "detail \<noteq> Some []"
  shows "told rc w'"
proof -
  have failed: "fst (open_failed st detail v) \<noteq> 0 \<and> err_text (snd (open_failed st detail v)) \<noteq> []" for st v
    using assms(2) by (auto simp: open_failed_def Let_def split: option.split)
  have ident: "told (fst (open_identify v)) (snd (open_identify v))" if "err_text v = []" for v
    using that by (simp add: open_identify_def Let_def split_beta tell)
  show ?thesis
    using assms(1) failed ident
    by (auto simp: PassThruOpen_def Let_def split_beta tell split: if_splits) (auto simp: told_def)
qed

lemma close_told: "told (fst (PassThruClose i w)) (snd (PassThruClose i w))"
  by (simp add: PassThruClose_def Let_def split_beta tell)

lemma connect_channel_told:
  "err_text w = [] \<Longrightarrow> told (fst (connect_channel fresh fw p fl b w)) (snd (connect_channel fresh fw p fl b w))"
  by (simp add: connect_channel_def Let_def split_beta tell)

lemma connect_told:
  "told (fst (PassThruConnect fresh i p fl b q w)) (snd (snd (PassThruConnect fresh i p fl b q w)))"
  by (simp add: PassThruConnect_def Let_def split_beta tell connect_channel_told split: option.split)

lemma disconnect_told: "told (fst (PassThruDisconnect c w)) (snd (PassThruDisconnect c w))"
  by (simp add: PassThruDisconnect_def Let_def split_beta tell)

lemma start_periodic_told:
  "err_text w = [] \<Longrightarrow> told (fst (start_periodic c m t w)) (snd (snd (start_periodic c m t w)))"
  by (simp add: start_periodic_def Let_def split_beta tell split: option.split)

lemma start_periodic_msg_told:
  "told (fst (PassThruStartPeriodicMsg c m b t w)) (snd (snd (PassThruStartPeriodicMsg c m b t w)))"
proof -
  have "err_text (snd (msg_ok c x (clear_err w))) = []" if "fst (msg_ok c x (clear_err w)) = 0" for x
    using msg_ok_text [of c x "clear_err w"] that by (simp add: told_def)
  then show ?thesis
    by (simp add: PassThruStartPeriodicMsg_def Let_def split_beta tell start_periodic_told split: option.split)
qed

lemma periodic_stop_text [simp]: "err_text (snd (periodic_stop c s w)) = err_text w"
  by (simp add: periodic_stop_def Let_def split_beta)

lemma stop_periodic_told: "told (fst (PassThruStopPeriodicMsg c i w)) (snd (PassThruStopPeriodicMsg c i w))"
  by (simp add: PassThruStopPeriodicMsg_def Let_def split_beta tell)

lemma start_filter_told:
  assumes "err_text w = []"
  shows "told (fst (start_filter c ft n a b f w)) (snd (snd (start_filter c ft n a b f w)))"
proof (cases rule: start_filter_cases [of c ft n a b f w])
  case (asked line fl p rc r w1 what)
  have "err_text w1 = []"
    using simple_cmd_text [of line p OP_DEFAULT_CMD_MS w] assms by (simp only: asked(7) fst_conv snd_conv)
  with asked(8) show ?thesis by (simp add: tell)
qed (use assms in \<open>auto simp: tell\<close>)

lemma filter_told:
  "told (fst (PassThruStartMsgFilter c ft a b f i w)) (snd (snd (PassThruStartMsgFilter c ft a b f i w)))"
  by (simp add: PassThruStartMsgFilter_def Let_def split_beta tell start_filter_told split: option.split)

lemma stop_filter_told: "told (fst (PassThruStopMsgFilter c i w)) (snd (PassThruStopMsgFilter c i w))"
  by (simp add: PassThruStopMsgFilter_def Let_def split_beta tell)

lemma voltage_told:
  "told (fst (PassThruSetProgrammingVoltage i p v w)) (snd (PassThruSetProgrammingVoltage i p v w))"
  by (simp add: PassThruSetProgrammingVoltage_def set_voltage_def Let_def split_beta tell split: option.split)

lemma version_told:
  "told (fst (PassThruReadVersion s i a b c w)) (snd (snd (PassThruReadVersion s i a b c w)))"
  by (simp add: PassThruReadVersion_def Let_def split_beta tell)

lemma config_loop_text [simp]:
  "err_text (snd (snd (get_config_loop c ps rc w))) = err_text w"
  "err_text (snd (set_config_loop c ps rc w)) = err_text w"
  by (induction ps arbitrary: rc w) (simp, simp, simp add: split_paired_all Let_def split_beta,
      simp add: split_paired_all Let_def split_beta)

lemma ioctl_parts_text:
  assumes "err_text w = []"
  shows "err_text (snd (snd (ioctl_get_config c l w))) = []" and "err_text (snd (ioctl_set_config c l w)) = []"
    and "err_text (snd (snd (ioctl_read_pin pin b w))) = []"
    and "fst (init_exchange line pl w) = 0 \<Longrightarrow> err_text (snd (snd (init_exchange line pl w))) = []"
    and "fst (ioctl_five_baud c i out w) = 0 \<Longrightarrow> err_text (snd (snd (ioctl_five_baud c i out w))) = []"
    and "fst (ioctl_fast_init c m b w) = 0 \<Longrightarrow> err_text (snd (snd (ioctl_fast_init c m b w))) = []"
proof -
  show init: "err_text (snd (snd (init_exchange line pl w))) = []" if "fst (init_exchange line pl w) = 0" for line pl
    using assms that by (auto simp: init_exchange_def Let_def split_beta split: option.splits if_splits)
  show "err_text (snd (snd (ioctl_get_config c l w))) = []" "err_text (snd (ioctl_set_config c l w)) = []"
    "err_text (snd (snd (ioctl_read_pin pin b w))) = []"
    using assms by (simp_all add: ioctl_get_config_def ioctl_set_config_def ioctl_read_pin_def Let_def
        split_beta split: option.split)
  show "err_text (snd (snd (ioctl_five_baud c i out w))) = []" if "fst (ioctl_five_baud c i out w) = 0"
    using assms that init
    by (auto simp: ioctl_five_baud_def Let_def split_beta split: option.splits if_splits)
  show "err_text (snd (snd (ioctl_fast_init c m b w))) = []" if "fst (ioctl_fast_init c m b w) = 0"
    using assms that init
    by (auto simp: ioctl_fast_init_def Let_def split_beta split: option.splits if_splits)
qed

lemma run_ioctl_told: "err_text w = [] \<Longrightarrow> told (fst (run_ioctl c io w)) (snd (snd (run_ioctl c io w)))"
  by (cases io) (simp_all add: run_ioctl_def Let_def split_beta tell ioctl_parts_text)

lemma ioctl_told: "told (fst (PassThruIoctl c io w)) (snd (snd (PassThruIoctl c io w)))"
  by (simp add: PassThruIoctl_def Let_def split_beta tell run_ioctl_told split: option.split)

lemma result_told: "api_result w rc w' \<Longrightarrow> told rc w'"
  by (erule api_resultE; metis fst_conv snd_conv open_told close_told connect_told disconnect_told
      read_msgs_told write_msgs_told start_periodic_msg_told stop_periodic_told filter_told
      stop_filter_told voltage_told version_told ioctl_told)

text \<open>
  A call that forgets the text it found: its code, what it gives the caller, and the process it leaves, the
  new text included, are the same whatever the text was before.
\<close>

definition forgets :: "(world \<Rightarrow> 'a) \<Rightarrow> bool" where
  "forgets call \<longleftrightarrow> (\<forall>w t. call (w\<lparr>err_text := t\<rparr>) = call w)"

lemma clear_err_forgets: "clear_err (w\<lparr>err_text := t\<rparr>) = clear_err w"
  by (simp add: clear_err_def)

lemmas forgetting = forgets_def clear_err_forgets

lemma calls_forget:
  "forgets (PassThruOpen oe detail p)" "forgets (PassThruClose i)" "forgets (PassThruConnect fresh i pr fl baud q)"
  "forgets (PassThruDisconnect c)" "forgets (PassThruReadMsgs clk c pm n T)" "forgets (PassThruWriteMsgs clk c ms n T)"
  "forgets (PassThruStartPeriodicMsg c m b T)" "forgets (PassThruStopPeriodicMsg c i)"
  "forgets (PassThruStartMsgFilter c ft m1 m2 m3 b)" "forgets (PassThruStopMsgFilter c i)"
  "forgets (PassThruSetProgrammingVoltage i pin v)" "forgets (PassThruReadVersion ver i b1 b2 b3)"
  "forgets (PassThruIoctl c io)"
  by (simp_all only: forgetting PassThruOpen_def PassThruClose_def PassThruConnect_def PassThruDisconnect_def
      PassThruReadMsgs_def PassThruWriteMsgs_def PassThruStartPeriodicMsg_def PassThruStopPeriodicMsg_def
      PassThruStartMsgFilter_def PassThruStopMsgFilter_def PassThruSetProgrammingVoltage_def
      PassThruReadVersion_def PassThruIoctl_def simp_thms)

section \<open>Properties\<close>

text \<open>C32. No failure without a reason, and none with an old one: after any entry point, with any arguments
  and in any environment, \<open>PassThruGetLastError\<close> gives ``No error'' exactly when the call returned
  STATUS_NOERROR, and otherwise a text that the call itself set; for the code, the results and the text
  that every one of the thirteen calls leaves do not depend on the text it found. The text of a failed
  open may repeat \<open>detail\<close>, which the transport keeps from its own last failure.\<close>

theorem last_error_tells:
  assumes "reachable w" and "api_result w rc w'"
  shows "PassThruGetLastError True w' =
      (STATUS_NOERROR, Some (if rc = STATUS_NOERROR then ''No error'' else err_text w'), w') \<and>
    (rc = STATUS_NOERROR \<longleftrightarrow> err_text w' = []) \<and>
    forgets (PassThruOpen oe detail p) \<and> forgets (PassThruClose i) \<and>
    forgets (PassThruConnect fresh i pr fl baud q) \<and> forgets (PassThruDisconnect c) \<and>
    forgets (PassThruReadMsgs clk c pm n T) \<and> forgets (PassThruWriteMsgs clk c ms n T) \<and>
    forgets (PassThruStartPeriodicMsg c m b T) \<and> forgets (PassThruStopPeriodicMsg c i) \<and>
    forgets (PassThruStartMsgFilter c ft m1 m2 m3 b) \<and> forgets (PassThruStopMsgFilter c i) \<and>
    forgets (PassThruSetProgrammingVoltage i pin v) \<and> forgets (PassThruReadVersion ver i b1 b2 b3) \<and>
    forgets (PassThruIoctl c io)"
proof -
  have "length (err_text w') \<le> 79"
    using safe_result [OF assms(2) reachable_safe [OF assms(1)]] by (simp add: safe_def)
  then have "PassThruGetLastError True w' =
      (STATUS_NOERROR, Some (if rc = STATUS_NOERROR then ''No error'' else err_text w'), w') \<and>
    (rc = STATUS_NOERROR \<longleftrightarrow> err_text w' = [])"
    using result_told [OF assms(2)]
    by (auto simp: told_def PassThruGetLastError_def op_err_get_def)
  then show ?thesis by (simp only: calls_forget simp_thms)
qed

theorem last_error_tells_witness:
  "\<exists>w'. PassThruClose 7 opening_world = (ERR_INVALID_DEVICE_ID, w') \<and> err_text w' \<noteq> []"
proof -
  have r: "reachable opening_world" using Start by (simp add: opening_world_def)
  obtain rc w' where x: "PassThruClose 7 opening_world = (rc, w')" by force
  moreover have "fst (PassThruClose 7 opening_world) = ERR_INVALID_DEVICE_ID"
    by (simp add: PassThruClose_def Let_def)
  ultimately have "rc = ERR_INVALID_DEVICE_ID" by simp
  with x last_error_tells [OF r api_result.Close [OF x]] show ?thesis by simp
qed

end
