(* ===== verification/Api_Traffic.thy ===== *)
theory Api_Traffic
  imports Api_Contract
begin

text \<open>
  What the entry points do to the wire and to the channels: the messages a read delivers and that
  it returns, the lines a write sends, connecting, filters, periodic messages and K-line
  initialisation, the guards on the pins, and the arguments that slip past two of these checks.
\<close>

section \<open>One command on the wire\<close>

lemma exchange_ok_reply:
  assumes "cmd_exchange l p t True w = (OP_OK, r, w')"
  shows "\<exists>a. r = Some a"
  using assms
proof (cases rule: exchange_cases)
  case 1
  then show ?thesis by (simp add: refused_def)
next
  case (2 n seq d e)
  with locked_fields(5) [OF 2(8)] show ?thesis by auto
qed

lemma simple_cmd_cases:
  assumes "simple_cmd l p t w = (rc, r, w')"
  obtains a where "cmd_exchange l p t True w = (OP_OK, Some a, w')" "r = Some a" "rc = reply_to_status a"
    | st where "cmd_exchange l p t True w = (st, None, w')" "st \<noteq> OP_OK" "rc = op_status_to_j2534 st" "r = None"
proof -
  obtain st x v where x: "cmd_exchange l p t True w = (st, x, v)" by (metis prod_cases3)
  show thesis
  proof (cases "st = OP_OK")
    case True
    with exchange_ok_reply x obtain a where "x = Some a" by blast
    with x True assms show thesis by (intro that(1) [of a]) (simp_all add: simple_cmd_def op_device_cmd_def)
  next
    case False
    have "x = None"
      using x False
    proof (cases rule: exchange_cases)
      case (2 n seq d e)
      with locked_fields(6) [OF 2(8)] False show ?thesis by simp
    qed (simp add: refused_def)
    with x False assms show thesis by (intro that(2) [of st]) (simp_all add: simple_cmd_def op_device_cmd_def)
  qed
qed

text \<open>A command that succeeded was written, once, with the next number, and was answered.\<close>

lemma simple_cmd_done:
  assumes "simple_cmd l p t w = (STATUS_NOERROR, r, w')" and "op_cmd_is_numbered l"
  shows "sent w' = sent w @ [(numbered_line l (seq_next (dev w)) @ p, if t = 0 then 1000 else t)]"
    and "seq_next (dev w') = seq_next (snd (take_seq (dev w)))"
    and "same_conf (dev w) (dev w')" and "\<exists>a. r = Some a"
    and "err_text w' = err_text w"
proof -
  from assms(1) obtain a where x: "cmd_exchange l p t True w = (OP_OK, Some a, w')" "r = Some a"
    by (cases rule: simple_cmd_cases) (use op_status_to_j2534_0 in auto)
  from numbered_step [OF x(1) assms(2)]
  show "sent w' = sent w @ [(numbered_line l (seq_next (dev w)) @ p, if t = 0 then 1000 else t)]"
    "seq_next (dev w') = seq_next (snd (take_seq (dev w)))"
    by (simp_all add: numbered_line_def)
  show "same_conf (dev w) (dev w')" using same_conf_exchange [of w l p t True] x by simp
  show "\<exists>a. r = Some a" using x by blast
  show "err_text w' = err_text w" using simple_cmd_text [of l p t w] assms(1) by simp
qed

lemma nowait_done:
  assumes "op_device_send_nowait l p w = (OP_OK, w')" and "op_cmd_is_numbered l"
  shows "sent w' = sent w @ [(numbered_line l (seq_next (dev w)) @ p, 1000)]"
    and "seq_next (dev w') = seq_next (snd (take_seq (dev w)))"
    and "same_conf (dev w) (dev w')"
proof -
  obtain st r v where x: "cmd_exchange l p 1000 False w = (st, r, v)" by (metis prod_cases3)
  with assms(1) have "st = OP_OK" "v = w'" by (simp_all add: op_device_send_nowait_def)
  note y = x [unfolded this]
  from numbered_step [OF y assms(2)] show
    "sent w' = sent w @ [(numbered_line l (seq_next (dev w)) @ p, 1000)]"
    "seq_next (dev w') = seq_next (snd (take_seq (dev w)))"
    by (simp_all add: numbered_line_def)
  show "same_conf (dev w) (dev w')" using same_conf_exchange [of w l p 1000 False] y by simp
qed

lemma emit_numbered: "emit n (97 # 116 # v # s) \<noteq> [] \<Longrightarrow> v \<noteq> 0 \<Longrightarrow> v \<noteq> 105 \<Longrightarrow> op_cmd_is_numbered (emit n (97 # 116 # v # s))"
  by (auto simp: emit_def op_cmd_is_numbered_def split: if_splits)

lemma lines_numbered:
  "op_cmd_transmit n c k f t \<noteq> [] \<Longrightarrow> op_cmd_is_numbered (op_cmd_transmit n c k f t)"
  "op_cmd_open n p f b \<noteq> [] \<Longrightarrow> op_cmd_is_numbered (op_cmd_open n p f b)"
  "op_cmd_filter n c ty f k \<noteq> [] \<Longrightarrow> op_cmd_is_numbered (op_cmd_filter n c ty f k)"
  "op_cmd_periodic_start n c i f k \<noteq> [] \<Longrightarrow> op_cmd_is_numbered (op_cmd_periodic_start n c i f k)"
  "op_cmd_five_baud n c a \<noteq> [] \<Longrightarrow> op_cmd_is_numbered (op_cmd_five_baud n c a)"
  "op_cmd_fast_init n c k \<noteq> [] \<Longrightarrow> op_cmd_is_numbered (op_cmd_fast_init n c k)"
  by (auto simp: op_cmd_transmit_def op_cmd_open_def op_cmd_filter_def op_cmd_periodic_start_def
      op_cmd_five_baud_def op_cmd_fast_init_def text_simps intro!: emit_numbered split: if_splits)

section \<open>Reading\<close>

lemma read_remaining_0 [simp]: "read_remaining e 0 = 0"
  by (simp add: read_remaining_def)

lemma pop_now:
  assumes "k < 10" and "d_open (dev w)" and "\<not> d_lost (dev w)" and "chan_rep (ch (dev w) k) ms"
  shows "case ms of [] \<Rightarrow> \<exists>v. op_device_pop k 0 w = (OP_ERR_TIMEOUT, None, v) \<and> dev v = dev w
    | m # ms' \<Rightarrow> \<exists>v c. op_device_pop k 0 w = (OP_OK, Some (stored m), v) \<and>
        dev v = (dev w)\<lparr>ch := (ch (dev w))(k := c)\<rparr> \<and> chan_rep c ms' \<and> dropped c = dropped (ch (dev w) k)"
proof -
  have q: "qcount (ch (dev w) k) = length ms" using assms(4) by (simp add: chan_rep_def)
  show ?thesis
  proof (cases ms)
    case Nil
    with q assms show ?thesis by (simp add: op_device_pop_def Let_def split_beta)
  next
    case (Cons m ms')
    note pop = pop_first [OF assms(4) [unfolded Cons]]
    show ?thesis using q Cons assms pop
      by (auto simp: op_device_pop_def Let_def split_beta)
  qed
qed

lemma enough_iff:
  fixes want :: u64
  assumes "n < unat want"
  shows "want \<le> of_nat n + 1 \<longleftrightarrow> unat want \<le> Suc n"
proof -
  have "unat (of_nat (Suc n) :: u64) = Suc n"
  proof -
    have "Suc n < 2 ^ LENGTH(64)"
      using assms unsigned_less [of want, where ?'a = nat] by (meson Suc_leI le_less_trans)
    then show ?thesis unfolding unat_of_nat by (rule mod_less)
  qed
  then show ?thesis by (simp add: word_le_nat_alt add.commute)
qed

lemma read_loop_now:
  assumes "unat c < 10" and "d_open (dev w)" and "\<not> d_lost (dev w)" and "chan_rep (ch (dev w) (unat c)) ms"
    and "length got < unat want" and "min (unat want - length got) (Suc (length ms)) \<le> length clk"
  shows "\<exists>v. read_loop clk c want 0 got w =
      Some (got @ map stored (take (unat want - length got) ms), False, v) \<and>
    d_open (dev v) \<and> chan_rep (ch (dev v) (unat c)) (drop (unat want - length got) ms) \<and>
    dropped (ch (dev v) (unat c)) = dropped (ch (dev w) (unat c))"
  using assms
proof (induction ms arbitrary: clk got w)
  case Nil
  then obtain e es where clk: "clk = e # es" by (cases clk) auto
  from pop_now [OF Nil(1-4)] obtain v where v: "op_device_pop (unat c) 0 w = (OP_ERR_TIMEOUT, None, v)" "dev v = dev w"
    by auto
  with Nil show ?case by (simp add: clk)
next
  case (Cons m ms)
  then obtain e es where clk: "clk = e # es" by (cases clk) auto
  from pop_now [OF Cons.prems(1-4)] obtain v k where v: "op_device_pop (unat c) 0 w = (OP_OK, Some (stored m), v)"
    "dev v = (dev w)\<lparr>ch := (ch (dev w))(unat c := k)\<rparr>" "chan_rep k ms" "dropped k = dropped (ch (dev w) (unat c))"
    by auto
  let ?got = "got @ [stored m]"
  note enough = enough_iff [OF Cons.prems(5)]
  show ?case
  proof (cases "unat want \<le> Suc (length got)")
    case True
    with Cons.prems(5) have "unat want - length got = 1" by simp
    with v True enough Cons.prems(2) show ?thesis by (simp add: clk Let_def)
  next
    case False
    have eq: "unat want - length got = Suc (unat want - length ?got)" using False by simp
    have "\<exists>u. read_loop es c want 0 ?got v =
      Some (?got @ map stored (take (unat want - length ?got) ms), False, u) \<and>
      d_open (dev u) \<and> chan_rep (ch (dev u) (unat c)) (drop (unat want - length ?got) ms) \<and>
      dropped (ch (dev u) (unat c)) = dropped (ch (dev v) (unat c))"
      by (rule Cons.IH) (use Cons.prems v False clk in auto)
    then show ?thesis using v False enough by (simp add: clk Let_def eq)
  qed
qed


text \<open>A reading of the clock after the timeout leaves nothing to wait for; a turn then ends the
  loop or takes a message.\<close>

definition past :: "u64 \<Rightarrow> int \<Rightarrow> bool" where
  "past Timeout e \<longleftrightarrow> uint Timeout \<le> e \<and> e < 2 ^ 63"

lemma read_remaining_past: "past T e \<Longrightarrow> read_remaining e T = 0"
  using uint_ge_0 [of T]
  by (auto simp: past_def read_remaining_def Let_def word_less_def uint_word_of_int_eq take_bit_int_eq_self)

lemma read_loop_returns:
  assumes "length got < unat want" and "unat want - length got \<le> length (filter (past T) clk)"
  shows "read_loop clk c want T got w \<noteq> None"
  using assms
proof (induction clk arbitrary: got w)
  case (Cons e es)
  obtain st m v where x: "op_device_pop (unat c) (read_remaining e T) w = (st, m, v)" by (metis prod_cases3)
  show ?case
  proof (cases "st = OP_OK")
    case ok: True
    then obtain y where m: "m = Some y"
      using x by (auto simp: op_device_pop_def Let_def split_beta split: if_splits)
    let ?got = "got @ [y]"
    show ?thesis
    proof (cases "unat want \<le> Suc (length got)")
      case True
      with x ok m enough_iff [OF Cons.prems(1)] show ?thesis by (simp add: Let_def)
    next
      case False
      then have less: "length ?got < unat want" by simp
      have "unat want - length ?got \<le> length (filter (past T) es)"
        using Cons.prems(2) by (simp split: if_splits)
      with Cons.IH [OF less] x ok m False enough_iff [OF Cons.prems(1)] show ?thesis
        by (simp add: Let_def)
    qed
  next
    case False
    show ?thesis
    proof (cases "st = OP_ERR_TIMEOUT \<and> read_remaining e T \<noteq> 0")
      case True
      with read_remaining_past have "\<not> past T e" by blast
      with Cons True x show ?thesis by (simp add: Let_def)
    qed (use x False in \<open>auto simp: Let_def\<close>)
  qed
qed simp


section \<open>Writing\<close>

lemma exchange_sent:
  assumes "cmd_exchange l p t wt w = (st, r, w')" and "op_cmd_is_numbered l"
  shows "sent w' = sent w \<or>
    sent w' = sent w @ [(numbered_line l (seq_next (dev w)) @ p, if t = 0 then 1000 else t)]"
  using assms(1)
proof (cases rule: exchange_cases)
  case (2 n seq d e)
  with assms(2) show ?thesis by (auto simp: number_line_def split_beta take_seq_def numbered_line_def)
qed (simp add: refused_def)

text \<open>The line of a transmit and what is handed to the transport with it.\<close>

definition tx_line :: "op_device \<Rightarrow> u64 \<Rightarrow> u32 \<Rightarrow> PASSTHRU_MSG \<Rightarrow> u8 list" where
  "tx_line d c t m = op_cmd_transmit OP_CMD_MAX (ucast c) (msg_size m) (ucast (TxFlags m)) (write_budget d c t)"

definition tx_record :: "op_device \<Rightarrow> u64 \<Rightarrow> u32 \<Rightarrow> u32 \<Rightarrow> PASSTHRU_MSG \<Rightarrow> u8 list \<times> u32" where
  "tx_record d c t s m = (numbered_line (tx_line d c t m) s @ msg_bytes m, if t = 0 then 1000 else t)"

definition next_seq :: "u32 \<Rightarrow> u32" where
  "next_seq s = (if s + 1 < 256 then 256 else s + 1)"

text \<open>What a write of the messages hands to the transport: one record each, numbered in turn.\<close>

fun tx_records :: "op_device \<Rightarrow> int list \<Rightarrow> u64 \<Rightarrow> u64 \<Rightarrow> u32 \<Rightarrow> PASSTHRU_MSG list \<Rightarrow> (u8 list \<times> u32) list" where
  "tx_records d clk c T s [] = []"
| "tx_records d clk c T s (m # ms) =
     tx_record d c (write_timeout clk T) s m # tx_records d (drop 1 clk) c T (next_seq s) ms"

definition acceptable :: "op_device \<Rightarrow> u64 \<Rightarrow> PASSTHRU_MSG \<Rightarrow> bool" where
  "acceptable d c m \<longleftrightarrow> op_protocol_base (ProtocolID m) = chan_base d c \<and>
     fst (msg_limits (chan_base d c) m) \<le> msg_size m \<and> msg_size m \<le> snd (msg_limits (chan_base d c) m)"

lemma msg_ok_accepts: "fst (msg_ok c m w) = 0 \<longleftrightarrow> acceptable (dev w) c m"
  by (auto simp: msg_ok_def acceptable_def Let_def split_beta)

lemma msg_ok_world: "fst (msg_ok c m w) = 0 \<Longrightarrow> snd (msg_ok c m w) = w"
  by (auto simp: msg_ok_def Let_def split_beta split: if_splits)

lemma msg_ok_sent [simp]: "sent (snd (msg_ok c m w)) = sent w"
  by (simp add: msg_ok_def Let_def split_beta set_err_def)

lemma same_conf_chan_base: "same_conf d d' \<Longrightarrow> chan_base d' c = chan_base d c"
  by (simp add: chan_base_def same_conf_def same_chan_def)

lemma same_conf_tx:
  assumes "same_conf d d'"
  shows "tx_records d' clk c T s ms = tx_records d clk c T s ms" and "acceptable d' c m = acceptable d c m"
  using same_conf_chan_base [OF assms, of c]
  by (induction ms arbitrary: clk s) (simp_all add: tx_record_def tx_line_def write_budget_def acceptable_def)

lemma take_seq_next: "seq_next (snd (take_seq d)) = next_seq (seq_next d)"
  by (simp add: take_seq_def next_seq_def)

lemma write_one_unfold:
  "write_one c m t w =
    (if fst (msg_ok c m w) \<noteq> 0 then msg_ok c m w
     else if tx_line (dev w) c t m = [] then (ERR_INVALID_MSG, w)
     else if t = 0 then
       (op_status_to_j2534 (fst (op_device_send_nowait (tx_line (dev w) c t m) (msg_bytes m) w)),
        snd (op_device_send_nowait (tx_line (dev w) c t m) (msg_bytes m) w))
     else (fst (simple_cmd (tx_line (dev w) c t m) (msg_bytes m) t w),
           snd (snd (simple_cmd (tx_line (dev w) c t m) (msg_bytes m) t w))))"
proof (cases "fst (msg_ok c m w) = 0")
  case True
  then have "msg_ok c m w = (0, w)" using msg_ok_world by (metis prod.collapse)
  then show ?thesis by (simp add: write_one_def tx_line_def Let_def split_beta)
next
  case False
  then show ?thesis by (simp add: write_one_def split_beta)
qed

lemma tx_line_numbered: "tx_line d c t m \<noteq> [] \<Longrightarrow> op_cmd_is_numbered (tx_line d c t m)"
  unfolding tx_line_def by (rule lines_numbered)

lemma write_one_done:
  assumes "write_one c m t w = (0, w')"
  shows "acceptable (dev w) c m" and "sent w' = sent w @ [tx_record (dev w) c t (seq_next (dev w)) m]"
    and "seq_next (dev w') = next_seq (seq_next (dev w))" and "same_conf (dev w) (dev w')"
proof -
  let ?l = "tx_line (dev w) c t m"
  from assms have ok: "fst (msg_ok c m w) = 0" and l: "?l \<noteq> []"
    by (auto simp: write_one_unfold prod_eq_iff split: if_splits)
  then show "acceptable (dev w) c m" by (simp add: msg_ok_accepts)
  have "sent w' = sent w @ [tx_record (dev w) c t (seq_next (dev w)) m] \<and>
    seq_next (dev w') = next_seq (seq_next (dev w)) \<and> same_conf (dev w) (dev w')"
  proof (cases "t = 0")
    case True
    obtain st v where x: "op_device_send_nowait ?l (msg_bytes m) w = (st, v)" by force
    with assms ok l True have "st = OP_OK" "v = w'" by (simp_all add: write_one_unfold)
    with nowait_done [OF x [unfolded this] tx_line_numbered [OF l]] True show ?thesis
      by (simp add: tx_record_def take_seq_next)
  next
    case False
    obtain rc r v where x: "simple_cmd ?l (msg_bytes m) t w = (rc, r, v)" by (metis prod_cases3)
    with assms ok l False have "rc = STATUS_NOERROR" "v = w'" by (simp_all add: write_one_unfold)
    with simple_cmd_done [OF x [unfolded this] tx_line_numbered [OF l]] False show ?thesis
      by (simp add: tx_record_def take_seq_next)
  qed
  then show "sent w' = sent w @ [tx_record (dev w) c t (seq_next (dev w)) m]"
    "seq_next (dev w') = next_seq (seq_next (dev w))" "same_conf (dev w) (dev w')" by blast+
qed

lemma write_one_sent:
  assumes "write_one c m t w = (rc, w')"
  shows "sent w' = sent w \<or> sent w' = sent w @ [tx_record (dev w) c t (seq_next (dev w)) m]"
proof -
  let ?l = "tx_line (dev w) c t m"
  have cmd: "sent (snd (snd (cmd_exchange ?l (msg_bytes m) n wt w))) = sent w \<or>
    sent (snd (snd (cmd_exchange ?l (msg_bytes m) n wt w))) =
      sent w @ [(numbered_line ?l (seq_next (dev w)) @ msg_bytes m, if n = 0 then 1000 else n)]"
    if "?l \<noteq> []" for n wt
    using exchange_sent [OF _ tx_line_numbered [OF that]] by (metis prod.collapse)
  have "snd (snd (simple_cmd ?l (msg_bytes m) t w)) = snd (snd (cmd_exchange ?l (msg_bytes m) t True w))"
    by (simp add: simple_cmd_def op_device_cmd_def split_beta split: option.split)
  moreover have "sent w' = sent w" if "msg_ok c m w = (rc, w')"
    using that by (metis msg_ok_sent snd_conv)
  ultimately show ?thesis
    using assms cmd [of 1000 False] cmd [of t True]
    by (auto simp: write_one_unfold op_device_send_nowait_def split_beta tx_record_def split: if_splits)
qed

lemma write_loop_wire:
  assumes "write_loop clk c ms want T n w = (rc, n', w')"
  shows "\<exists>i rest. n' = n + i \<and> i \<le> length ms \<and>
    sent w' = sent w @ tx_records (dev w) clk c T (seq_next (dev w)) (take i ms) @ rest \<and>
    (\<forall>m \<in> set (take i ms). acceptable (dev w) c m) \<and>
    (if rc = 0 then i = length ms \<and> rest = [] else i < length ms \<and> length rest \<le> 1)"
  using assms
proof (induction ms arbitrary: clk n w)
  case Nil
  then show ?case by auto
next
  case (Cons m ms)
  obtain rc1 w1 where x: "write_one c m (write_timeout clk T) w = (rc1, w1)" by force
  consider "T \<noteq> 0 \<and> write_left clk T \<le> 0" | "\<not> (T \<noteq> 0 \<and> write_left clk T \<le> 0)" "rc1 \<noteq> 0"
    | "\<not> (T \<noteq> 0 \<and> write_left clk T \<le> 0)" "rc1 = 0" by blast
  then show ?case
  proof cases
    case 1
    with Cons.prems show ?thesis by (auto simp: set_err_def)
  next
    case 2
    have "sent (snd (fail rc1 s w1)) = sent w1" for s by (simp add: fail_def Let_def set_err_def)
    with 2 Cons.prems x write_one_sent [OF x] show ?thesis
      by (intro exI [of _ 0] exI [of _ "drop (length (sent w)) (sent w')"])
        (auto simp: prod_eq_iff split_beta)
  next
    case 3
    note wrote = write_one_done [OF x [unfolded 3(2)]]
    from Cons.prems 3 x have "write_loop (drop 1 clk) c ms want T (Suc n) w1 = (rc, n', w')" by simp
    from Cons.IH [OF this] obtain i rest where i: "n' = Suc n + i" "i \<le> length ms"
      "sent w' = sent w1 @ tx_records (dev w1) (drop 1 clk) c T (seq_next (dev w1)) (take i ms) @ rest"
      "\<forall>m \<in> set (take i ms). acceptable (dev w1) c m"
      "if rc = 0 then i = length ms \<and> rest = [] else i < length ms \<and> length rest \<le> 1" by blast
    with wrote same_conf_tx [OF wrote(4)] show ?thesis
      by (intro exI [of _ "Suc i"] exI [of _ rest]) auto
  qed
qed


section \<open>Properties of reading and writing\<close>

lemma clear_err_sel [simp]:
  "dev (clear_err w) = dev w" "sent (clear_err w) = sent w" "sched (clear_err w) = sched w"
  by (simp_all add: clear_err_def)

lemma set_err_sel [simp]: "dev (set_err s w) = dev w" "sent (set_err s w) = sent w" "sched (set_err s w) = sched w"
  by (simp_all add: set_err_def)

lemma fail_sel [simp]:
  "dev (snd (fail c s w)) = dev w" "sent (snd (fail c s w)) = sent w"
  by (simp_all add: fail_def Let_def)

lemma channel_of_bound: "channel_of d c \<Longrightarrow> unat c < 10"
  by (simp add: channel_of_def channel_valid_def word_less_nat_alt)

lemma read_result_now:
  assumes "d_open (dev w)" and "unat c < 10" and "n \<noteq> 0 \<longleftrightarrow> ms \<noteq> []"
    and "lost = dropped (ch (dev w) (unat c))" and "chan_rep (ch (dev w) (unat c)) rest"
  shows "fst (read_result c want 0 n w) =
      (if 0 < lost then ERR_BUFFER_OVERFLOW else if ms = [] then ERR_BUFFER_EMPTY else STATUS_NOERROR)"
    and "chan_rep (ch (dev (snd (read_result c want 0 n w))) (unat c)) rest"
    and "dropped (ch (dev (snd (read_result c want 0 n w))) (unat c)) = 0"
proof -
  have rep: "chan_rep ((ch (dev w) (unat c))\<lparr>dropped := 0\<rparr>) rest"
    using assms(5) by (subst chan_rep_frame) simp_all
  have r: "read_result c want 0 n w =
     (let w = w\<lparr>dev := (dev w)\<lparr>ch := (ch (dev w))(unat c := (ch (dev w) (unat c))\<lparr>dropped := 0\<rparr>)\<rparr>\<rparr> in
      if lost > 0 then
       (ERR_BUFFER_OVERFLOW, set_err (''PassThruReadMsgs: '' @ show_nat (unat lost) @
          '' message(s) dropped; the receive queue overran. Read more often or in larger batches.'') w)
     else if n = 0 then
       (ERR_BUFFER_EMPTY, set_err (''PassThruReadMsgs: no messages within '' @ show_nat 0 @ '' ms'') w)
     else (STATUS_NOERROR, w))"
    using assms(1,2,4) by (simp add: read_result_def op_device_take_dropped_def Let_def)
  show "fst (read_result c want 0 n w) =
      (if 0 < lost then ERR_BUFFER_OVERFLOW else if ms = [] then ERR_BUFFER_EMPTY else STATUS_NOERROR)"
    using assms(3) unfolding r by (auto simp: Let_def)
  show "chan_rep (ch (dev (snd (read_result c want 0 n w))) (unat c)) rest"
    "dropped (ch (dev (snd (read_result c want 0 n w))) (unat c)) = 0"
    using rep unfolding r by (simp_all add: Let_def)
qed

text \<open>C26. A read with a timeout of 0 takes what is queued: the oldest messages, as many as were asked
  for, in order and as they were queued, the rest left; the call says when messages were lost
  since the last read, and when there were none.\<close>

theorem read_polls:
  assumes "d_open (dev w)" and "\<not> d_lost (dev w)" and "channel_of (dev w) c"
    and "chan_rep (ch (dev w) (unat c)) ms" and "0 < want" and "min (unat want) (Suc (length ms)) \<le> length clk"
  shows "\<exists>rc w'. PassThruReadMsgs clk c True (Some want) 0 w =
      Some (rc, Some (min (length ms) (unat want)), map stored (take (unat want) ms), w') \<and>
    rc = (if 0 < dropped (ch (dev w) (unat c)) then ERR_BUFFER_OVERFLOW
          else if ms = [] then ERR_BUFFER_EMPTY else STATUS_NOERROR) \<and>
    chan_rep (ch (dev w') (unat c)) (drop (unat want) ms) \<and> dropped (ch (dev w') (unat c)) = 0"
proof -
  have c: "unat c < 10" by (rule channel_of_bound [OF assms(3)])
  have want: "0 < unat want" using assms(5) by (simp add: word_less_nat_alt)
  from read_loop_now [of c "clear_err w" ms "[]" want clk] assms c want obtain v where v:
    "read_loop clk c want 0 [] (clear_err w) = Some (map stored (take (unat want) ms), False, v)"
    "d_open (dev v)" "chan_rep (ch (dev v) (unat c)) (drop (unat want) ms)"
    "dropped (ch (dev v) (unat c)) = dropped (ch (dev w) (unat c))" by auto
  have "min (length ms) (unat want) \<noteq> 0 \<longleftrightarrow> ms \<noteq> []" using want by auto
  note res = read_result_now [OF v(2) c this v(4) [symmetric] v(3)]
  have nz: "want \<noteq> 0" using assms(5) by simp
  have "PassThruReadMsgs clk c True (Some want) 0 w =
    Some (fst (read_result c want 0 (min (length ms) (unat want)) v), Some (min (length ms) (unat want)),
          map stored (take (unat want) ms), snd (read_result c want 0 (min (length ms) (unat want)) v))"
    using assms(1,3) v(1) nz by (simp add: PassThruReadMsgs_def Let_def split_beta)
  with res show ?thesis by blast
qed

text \<open>C27. A read returns, whatever arrives and whatever other threads do: once the clock has passed
  the timeout, a turn of the loop for each message asked for is enough.\<close>

theorem read_returns:
  assumes "unat want \<le> length (filter (past Timeout) clk)"
  shows "\<exists>rc n got w'. PassThruReadMsgs clk c pMsg (Some want) Timeout w = Some (rc, n, got, w')"
proof (cases "want = 0")
  case False
  then have "0 < unat want" by (simp add: unat_gt_0)
  with read_loop_returns [of "[]" want Timeout clk c "clear_err w"] assms
  have "read_loop clk c want Timeout [] (clear_err w) \<noteq> None" by simp
  then show ?thesis by (auto simp: PassThruReadMsgs_def Let_def split_beta)
qed (simp add: PassThruReadMsgs_def Let_def split_beta)

text \<open>C25. A write hands the transport exactly one transmit for each message it reports as sent, in
  order, numbered in turn, with the message's own bytes after the line, and only messages the
  channel's protocol allows; success means all of them, a failure reports how many came before.\<close>

theorem write_wire:
  assumes "PassThruWriteMsgs clk c (Some ms) (Some want) T w = (rc, Some n, w')"
    and "unat want \<le> length ms" and "0 < want"
  shows "\<exists>rest. sent w' = sent w @ tx_records (dev w) clk c T (seq_next (dev w)) (take n ms) @ rest \<and>
    (\<forall>m \<in> set (take n ms). acceptable (dev w) c m) \<and>
    (if rc = STATUS_NOERROR then n = unat want \<and> rest = [] else n < unat want \<and> length rest \<le> 1)"
proof (cases "channel_of (dev w) c")
  case True
  with assms(1,3) have "write_loop clk c (take (unat want) ms) want T 0 (clear_err w) = (rc, n, w')"
    by (auto simp: PassThruWriteMsgs_def Let_def split_beta prod_eq_iff split: if_splits)
  from write_loop_wire [OF this] assms(2) show ?thesis by (auto simp: min_def split: if_splits)
next
  case False
  from assms(3) have "0 < unat want" by (simp add: word_less_nat_alt)
  with False assms(1) show ?thesis
    by (auto simp: PassThruWriteMsgs_def Let_def split_beta split: if_splits)
qed

text \<open>Where the budget of a write is 2^32 ms, the 32-bit argument of the transmit is 0: the call
  does what it does for a timeout of 0, that is, it returns without waiting for the device.\<close>

lemma write_timeout_truncated:
  "PassThruWriteMsgs [0] c (Some [m]) (Some 1) 0x100000000 w = PassThruWriteMsgs [0] c (Some [m]) (Some 1) 0 w"
proof -
  have t: "write_timeout [0] 0x100000000 = 0" "write_timeout [0] 0 = 0"
    and l: "write_left [0] 0x100000000 = 0x100000000"
    by (simp_all add: write_timeout_def write_left_def)
  then show ?thesis by (simp add: PassThruWriteMsgs_def Let_def split_beta)
qed

section \<open>Witnesses\<close>

text \<open>An open session to try things on, about to hear one message of the device.\<close>

definition live_world :: "(nat \<Rightarrow> op_channel) \<Rightarrow> dev_msg \<Rightarrow> world" where
  "live_world chs m = \<lparr>dev = g_device\<lparr>d_open := True, reader_started := True, seq_next := 256, ch := chs\<rparr>,
     sent = [], sched = [env0\<lparr>e_wait := map (Rd OP_OK) [render m] # []\<rparr>], err_text = []\<rparr>"

lemma live_world_sel [simp]:
  "clear_err (live_world chs m) = live_world chs m" "sent (live_world chs m) = []"
  "d_open (dev (live_world chs m))" "\<not> d_lost (dev (live_world chs m))"
  "seq_next (dev (live_world chs m)) = 256" "ch (dev (live_world chs m)) = chs"
  "pins_powered (dev (live_world chs m)) = 0" "pins_grounded (dev (live_world chs m)) = 0"
  by (simp_all add: live_world_def clear_err_def op_err_clear_def g_device_def)

lemma live_world_answers:
  assumes "dev_fits m" and "length (render m) \<le> 1024"
    and "r_kind (meaning m) \<notin> {OP_REPLY_FRAME, OP_REPLY_INIT, OP_REPLY_INFO, OP_REPLY_ERROR}"
    and "r_tail (meaning m) \<noteq> []" and "last (r_tail (meaning m)) = 256"
    and "line = s @ crlf" and "2 \<le> length s" and "length line < OP_CMD_MAX" and "op_cmd_is_numbered line"
    and "length payload \<le> OP_MSG_MAX"
  shows "\<exists>r w'. cmd_exchange line payload t True (live_world chs m) = (OP_OK, Some r, w') \<and>
    simple_cmd line payload t (live_world chs m) = (STATUS_NOERROR, Some r, w') \<and>
    r_kind r = r_kind (meaning m) \<and> r_a r = r_a (meaning m)"
proof -
  let ?w = "live_world chs m"
  have rec: "dev_record (render m) (meaning m)" using assms(1) by (auto simp: dev_record_def)
  have "render m \<noteq> []" by (cases m) (simp_all add: line_bytes_def frame_bytes_def text_simps)
  with assms rec have "\<exists>r' w'. cmd_exchange line payload t True ?w = (OP_OK, Some r', w') \<and>
     r_kind r' = r_kind (meaning m) \<and> r_a r' = r_a (meaning m) \<and> r_b r' = r_b (meaning m) \<and>
     r_channel r' = r_channel (meaning m) \<and> r_error_code r' = r_error_code (meaning m) \<and>
     d_open (dev w') \<and> d_lost (dev w') = d_lost (dev ?w) \<and> reading (dev w') \<and> accum (dev w') = [] \<and>
     seq_next (dev w') = seq_next (snd (take_seq (dev ?w))) \<and> sched w' = []"
    by (intro exchange_finds_answer [where bs = "[render m]" and pre = "[]" and post = "[]" and cs = "[render m]"
          and later = "[]" and s = s]) (simp_all add: live_world_def reading_def g_device_def)
  then show ?thesis
    using assms(3) by (auto simp: simple_cmd_def op_device_cmd_def reply_to_status_def)
qed

lemma acks: "dev_fits (D_Ok [256])" "length (render (D_Ok [256])) \<le> 1024"
  "dev_fits (D_Filter 5 1 [256])" "length (render (D_Filter 5 1 [256])) \<le> 1024"
  "dev_fits (D_Periodic 5 3 [256])" "length (render (D_Periodic 5 3 [256])) \<le> 1024"
  by (simp_all add: dev_fits_def line_bytes_def text_simps num_def dec.simps)

text \<open>A channel 5, open for CAN, and a CAN message of 12 bytes.\<close>

definition can_channels :: "nat \<Rightarrow> op_channel" where
  "can_channels k = (channel0 (Some (\<lambda>_. 0)))\<lparr>ch_open := (k = 5), ch_protocol := 5\<rparr>"

definition can_msg :: PASSTHRU_MSG where
  "can_msg = msg0\<lparr>ProtocolID := 5, DataSize := 12\<rparr>"

lemma can_channel_of: "channel_of (dev (live_world can_channels m)) 5"
  by (simp add: channel_of_def channel_valid_def can_channels_def)


lemma can_channels_5:
  "ch_open (can_channels 5)" "chan_rep (can_channels 5) []" "dropped (can_channels 5) = 0"
  "ch_protocol (can_channels 5) = 5"
proof -
  show "chan_rep (can_channels 5) []"
    unfolding can_channels_def by (subst chan_rep_frame [of _ "channel0 (Some (\<lambda>_. 0))"]) simp_all
qed (simp_all add: can_channels_def channel0_def)

text \<open>The same channel with two messages queued.\<close>

definition queued_channels :: "nat \<Rightarrow> op_channel" where
  "queued_channels k = queue_push (queue_push (can_channels k) can_msg) msg0"

lemma queued_channels_5:
  "ch_open (queued_channels 5)" "chan_rep (queued_channels 5) [can_msg, msg0]" "dropped (queued_channels 5) = 0"
proof -
  have size: "push_size can_msg = 12" "push_size msg0 = 0"
    by (simp_all add: push_size_small can_msg_def msg_size_def)
  have 1: "chan_rep (queue_push (can_channels 5) can_msg) [can_msg]" "dropped (queue_push (can_channels 5) can_msg) = 0"
    using push_room [OF can_channels_5(2), of can_msg] has_room_fits [OF can_channels_5(2), of can_msg] can_channels_5(3)
    by (simp_all add: queue_fits_def size OP_RXQ_BYTES_def)
  show "chan_rep (queued_channels 5) [can_msg, msg0]" "dropped (queued_channels 5) = 0"
    using push_room [OF 1(1), of msg0] has_room_fits [OF 1(1), of msg0] 1(2)
    by (simp_all add: queue_fits_def size OP_RXQ_BYTES_def queued_channels_def)
  show "ch_open (queued_channels 5)" using can_channels_5(1) by (simp add: queued_channels_def)
qed

theorem read_polls_witness:
  "\<exists>w'. PassThruReadMsgs [0] 5 True (Some 1) 0 (live_world queued_channels (D_Ok [256])) =
      Some (STATUS_NOERROR, Some 1, [stored can_msg], w') \<and> chan_rep (ch (dev w') 5) [msg0]"
proof -
  have "channel_of (dev (live_world queued_channels (D_Ok [256]))) 5"
    using queued_channels_5(1) by (simp add: channel_of_def channel_valid_def)
  with read_polls [of "live_world queued_channels (D_Ok [256])" 5 "[can_msg, msg0]" 1 "[0]"] queued_channels_5
  show ?thesis by auto
qed

theorem read_returns_witness:
  "PassThruReadMsgs [0, 100, 100] 5 True (Some 2) 100 (live_world queued_channels (D_Ok [256])) \<noteq> None"
  using read_returns [of 2 100 "[0, 100, 100]" 5 True "live_world queued_channels (D_Ok [256])"]
  by (auto simp: past_def)

theorem write_wire_witness:
  "\<exists>w'. PassThruWriteMsgs [] 5 (Some [can_msg]) (Some 1) 0 (live_world can_channels (D_Ok [256])) = (STATUS_NOERROR, Some 1, w') \<and>
    sent w' = [(numbered_line (tx_line (dev (live_world can_channels (D_Ok [256]))) 5 0 can_msg) 256 @ msg_bytes can_msg, 1000)]"
proof -
  let ?w = "live_world can_channels (D_Ok [256])"
  let ?l = "tx_line (dev ?w) 5 0 can_msg"
  have size: "msg_size can_msg = 12" "TxFlags can_msg = 0" by (simp_all add: can_msg_def msg_size_def)
  have base: "chan_base (dev ?w) 5 = 5" using can_channels_5(4) by (simp add: chan_base_def op_protocol_base_def)
  have l: "?l = ascii ''att5 12 0 50000'' @ crlf"
    by (simp add: tx_line_def write_budget_def base size op_cmd_transmit_def emit_def crlf_def text_simps num_def dec.simps)
  have "acceptable (dev ?w) 5 can_msg"
    by (simp add: acceptable_def base msg_limits_def size) (simp add: can_msg_def op_protocol_base_def)
  then have ok: "fst (msg_ok 5 can_msg ?w) = 0" by (simp add: msg_ok_accepts)
  have n: "op_cmd_number ?l (OP_CMD_MAX + 16) 256 \<noteq> []"
    by (subst op_cmd_number_line [OF l]) (simp_all add: l crlf_def)
  have "fst (cmd_exchange ?l (msg_bytes can_msg) 1000 False ?w) = OP_OK"
    using n l by (simp add: cmd_exchange_def next_env_def live_world_def g_device_def number_line_def take_seq_def
        op_cmd_is_numbered_def exchange_locked_def claimed_def env0_def size Let_def split_beta crlf_def text_simps)
  then have "fst (write_one 5 can_msg 0 ?w) = 0"
    using ok l by (simp add: write_one_unfold op_device_send_nowait_def split_beta crlf_def)
  then obtain w1 where "write_one 5 can_msg 0 ?w = (0, w1)" by (metis prod.collapse)
  moreover have "write_timeout [] 0 = 0" by (simp add: write_timeout_def)
  ultimately have x: "PassThruWriteMsgs [] 5 (Some [can_msg]) (Some 1) 0 ?w = (STATUS_NOERROR, Some 1, w1)"
    using can_channel_of by (simp add: PassThruWriteMsgs_def Let_def)
  from write_wire [OF x] show ?thesis
    using x by (simp add: tx_record_def write_timeout_def)
qed

end
