(* ===== verification/Api_Setup.thy ===== *)
theory Api_Setup
  imports Api_Traffic "HOL-Library.Multiset"
begin

text \<open>
  What the entry points that set a session up do: connecting, filters, periodic messages, K-line
  initialisation and the programming voltage, each from its arguments to the wire and to the
  session's records.
\<close>

section \<open>Connecting\<close>

lemma open_channel_fresh:
  assumes "k < OP_MAX_CHANNELS" and "op_device_open_channel fresh k p d = (OP_OK, d')"
  shows "\<exists>c. d' = d\<lparr>ch := (ch d)(k := c)\<rparr> \<and> ch_open c \<and> ch_protocol c = p \<and> chan_rep c [] \<and>
    nperiodic c = 0 \<and> dropped c = 0 \<and> \<not> partial_active c"
proof -
  define q where "q = (if rq (ch d k) \<noteq> None then rq (ch d k) else fresh)"
  obtain m where m: "q = Some m" using assms by (auto simp: op_device_open_channel_def Let_def q_def split: if_splits)
  have "chan_rep ((channel0 (Some m))\<lparr>ch_open := True, ch_protocol := p\<rparr>) []"
    by (subst chan_rep_frame [of _ "channel0 (Some m)"]) simp_all
  moreover have "d' = d\<lparr>ch := (ch d)(k := (channel0 (Some m))\<lparr>ch_open := True, ch_protocol := p\<rparr>)\<rparr>"
    using assms m unfolding op_device_open_channel_def Let_def q_def [symmetric] by simp
  ultimately show ?thesis by (intro exI [of _ "(channel0 (Some m))\<lparr>ch_open := True, ch_protocol := p\<rparr>"]) (simp add: channel0_def)
qed

lemma connect_channel_done:
  assumes "connect_channel fresh fw p fl baud w = (STATUS_NOERROR, w')" and "nat fw < OP_MAX_CHANNELS"
  shows "\<exists>d1 c. same_conf (dev w) d1 \<and> dev w' = d1\<lparr>ch := (ch d1)(nat fw := c)\<rparr> \<and> ch_open c \<and>
    ch_protocol c = ucast p \<and> chan_rep c [] \<and> nperiodic c = 0 \<and> dropped c = 0 \<and>
    sent w' = sent w @ [(numbered_line (op_cmd_open OP_CMD_MAX (of_int fw) (ucast fl) (ucast baud))
                          (seq_next (dev w)), 1000)]"
proof -
  let ?l = "op_cmd_open OP_CMD_MAX (of_int fw) (ucast fl) (ucast baud)"
  obtain rc r w1 where x: "simple_cmd ?l [] 1000 w = (rc, r, w1)" by (metis prod_cases3)
  obtain st d2 where y: "op_device_open_channel fresh (nat fw) (ucast p) (dev w1) = (st, d2)" by force
  from assms(1) x y have l: "?l \<noteq> []" and rc: "rc = STATUS_NOERROR" and st: "st = OP_OK"
    and w': "w' = w1\<lparr>dev := d2\<rparr>"
    by (auto simp: connect_channel_def Let_def prod_eq_iff split_beta simp del: OP_CMD_MAX_def split: if_splits)
  note cmd = simple_cmd_done [OF x [unfolded rc] lines_numbered(2) [OF l]]
  from open_channel_fresh [OF assms(2) y [unfolded st]] cmd(1,3) w' show ?thesis by fastforce
qed

text \<open>C33. A connect that succeeds opened, with one command, the channel the protocol belongs to, and
  it was allowed to: the channel and its line were free, no pin of it was grounded, the rate was
  not 0. The channel starts with an empty queue and no periodic message; the others are as before.\<close>

theorem connect_opens:
  assumes "PassThruConnect fresh i p fl baud True w = (STATUS_NOERROR, Some cid, w')"
    and "k = nat (op_protocol_channel p)"
  shows "cid = of_nat k \<and> 3 \<le> k \<and> k \<le> 9 \<and> d_open (dev w) \<and> i = OP_DEVICE_ID \<and> baud \<noteq> 0 \<and>
    \<not> ch_open (ch (dev w) k) \<and>
    (0 \<le> line_partner (int k) \<longrightarrow> \<not> ch_open (ch (dev w) (nat (line_partner (int k))))) \<and>
    grounded_pin (dev w) p = None \<and>
    ch_open (ch (dev w') k) \<and> ch_protocol (ch (dev w') k) = ucast p \<and> chan_rep (ch (dev w') k) [] \<and>
    nperiodic (ch (dev w') k) = 0 \<and> (\<forall>j. j \<noteq> k \<longrightarrow> same_chan (ch (dev w) j) (ch (dev w') j)) \<and>
    sent w' = sent w @ [(numbered_line (op_cmd_open OP_CMD_MAX (of_nat k) (ucast fl) (ucast baud))
                          (seq_next (dev w)), 1000)]"
proof -
  let ?fw = "op_protocol_channel p"
  have g: "d_open (dev w)" "i = OP_DEVICE_ID" "0 \<le> ?fw" "\<not> ch_open (ch (dev w) (nat ?fw))"
    "0 \<le> line_partner ?fw \<longrightarrow> \<not> ch_open (ch (dev w) (nat (line_partner ?fw)))" "baud \<noteq> 0"
    "grounded_pin (dev w) p = None"
    "connect_channel fresh ?fw p fl baud (clear_err w) = (STATUS_NOERROR, w')" "cid = of_int ?fw"
    using assms(1)
    by (auto simp: PassThruConnect_def Let_def split_beta prod_eq_iff simp del: OP_DEVICE_ID_def
        split: if_splits option.splits)
  from protocol_channel_range [OF g(3)] have r: "?fw \<in> {3..9}" by blast
  then have k: "?fw = int k" "nat ?fw = k" "3 \<le> k" "k \<le> 9" using assms(2) by auto
  from connect_channel_done [OF g(8)] k obtain d1 c where d1: "same_conf (dev w) d1"
    "dev w' = d1\<lparr>ch := (ch d1)(k := c)\<rparr>" "ch_open c" "ch_protocol c = ucast p" "chan_rep c []" "nperiodic c = 0"
    "sent w' = sent w @ [(numbered_line (op_cmd_open OP_CMD_MAX (of_nat k) (ucast fl) (ucast baud))
       (seq_next (dev w)), 1000)]" by auto
  with g k show ?thesis by (simp add: same_conf_def)
qed

section \<open>Filters\<close>

lemma filter_payload_eq:
  "filter_payload n ms acc =
    (if \<forall>m \<in> set ms. msg_size m = n then Some (acc @ concat (map msg_bytes ms)) else None)"
  by (induction ms arbitrary: acc) (auto simp: msg_bytes_def)

lemma filter_count: "op_filter_msg_count t \<in> {0, 2, 3}"
  by (simp add: op_filter_msg_count_def)

lemma start_filter_done:
  assumes "start_filter c ft need a b f w = (STATUS_NOERROR, Some fid, w')"
    and "flow = (if need = 2 then None else f)" and "msgs = take need [a, b, the flow]"
    and "l = op_cmd_filter OP_CMD_MAX (ucast c) (ucast ft)
        (ucast (case flow of Some f \<Rightarrow> TxFlags f | None \<Rightarrow> TxFlags a)) (msg_size a)"
  shows "\<exists>r. simple_cmd l (concat (map msg_bytes msgs)) 1000 w = (STATUS_NOERROR, r, w')" and "l \<noteq> []"
    and "0 < msg_size a" and "msg_size a \<le> 255" and "\<forall>m \<in> set msgs. msg_size m = msg_size a"
    and "flow = Some g \<Longrightarrow> op_protocol_base (ProtocolID g) = chan_base (dev w) c"
proof -
  obtain rc r w1 where x: "simple_cmd l (concat (map msg_bytes msgs)) 1000 w = (rc, r, w1)"
    by (metis prod_cases3)
  note start = assms(1) [unfolded start_filter_def Let_def, folded assms(2), folded assms(3), folded assms(4)]
  have size: "0 < msg_size a" "msg_size a \<le> 255" using start by (auto simp: split_beta split: if_splits)
  note start = start [simplified]
  have flow: "\<forall>g. flow = Some g \<longrightarrow> op_protocol_base (ProtocolID g) = chan_base (dev w) c"
    using start by (auto simp: split_beta split: if_splits)
  have sizes: "\<forall>m \<in> set msgs. msg_size m = msg_size a"
    using start by (auto simp: split_beta filter_payload_eq split: if_splits)
  then have p: "filter_payload (msg_size a) msgs [] = Some (concat (map msg_bytes msgs))"
    by (simp add: filter_payload_eq)
  have l: "l \<noteq> []" using start by (auto simp: p split_beta split: if_splits)
  have "rc = STATUS_NOERROR \<and> w' = w1"
    using start x l by (auto simp: p split_beta prod_eq_iff split: if_splits option.splits)
  with x l size flow sizes show "\<exists>r. simple_cmd l (concat (map msg_bytes msgs)) 1000 w = (STATUS_NOERROR, r, w')"
    "l \<noteq> []" "0 < msg_size a" "msg_size a \<le> 255" "\<forall>m \<in> set msgs. msg_size m = msg_size a"
    "flow = Some g \<Longrightarrow> op_protocol_base (ProtocolID g) = chan_base (dev w) c" by blast+
qed

text \<open>C34. A filter that is accepted was sent as one command whose payload is the mask, the pattern and
  (for a flow-control filter) the flow-control message, all of one size from 1 to 255; its
  transmit flags are the flow-control message's, and the mask's where there is none.\<close>

theorem filter_installed:
  assumes "PassThruStartMsgFilter c ft (Some a) (Some b) f True w = (STATUS_NOERROR, Some fid, w')"
    and "msgs = (if op_filter_msg_count (ucast ft) = 2 then [a, b] else [a, b, the f])"
  shows "op_filter_msg_count (ucast ft) = length msgs \<and> (\<forall>m \<in> set msgs. msg_size m = msg_size a) \<and>
    0 < msg_size a \<and> msg_size a \<le> 255 \<and>
    (length msgs = 3 \<longrightarrow> f \<noteq> None \<and> op_protocol_base (ProtocolID (the f)) = chan_base (dev w) c) \<and>
    same_conf (dev w) (dev w') \<and>
    sent w' = sent w @ [(numbered_line (op_cmd_filter OP_CMD_MAX (ucast c) (ucast ft)
        (ucast (TxFlags (if length msgs = 3 then the f else a))) (msg_size a)) (seq_next (dev w)) @
        concat (map msg_bytes msgs), 1000)]"
proof -
  let ?need = "op_filter_msg_count (ucast ft)"
  let ?l = "op_cmd_filter OP_CMD_MAX (ucast c) (ucast ft)
        (ucast (TxFlags (if length msgs = 3 then the f else a))) (msg_size a)"
  have n: "?need = 2 \<or> ?need = 3" "?need = 3 \<longrightarrow> f \<noteq> None"
    "start_filter c ft ?need a b f (clear_err w) = (STATUS_NOERROR, Some fid, w')"
    using assms(1) filter_count [of "ucast ft"]
    by (auto simp: PassThruStartMsgFilter_def Let_def split_beta prod_eq_iff split: if_splits)
  then have msgs: "msgs = take ?need [a, b, the (if ?need = 2 then None else f)]" "length msgs = ?need"
    using assms(2) by auto
  have l: "?l = op_cmd_filter OP_CMD_MAX (ucast c) (ucast ft)
        (ucast (case if ?need = 2 then None else f of Some f \<Rightarrow> TxFlags f | None \<Rightarrow> TxFlags a)) (msg_size a)"
    using n(1,2) msgs(2) by auto
  note s = start_filter_done [OF n(3) refl msgs(1) l]
  from s(1) obtain r where x: "simple_cmd ?l (concat (map msg_bytes msgs)) 1000 (clear_err w) = (STATUS_NOERROR, r, w')"
    by blast
  from simple_cmd_done [OF x lines_numbered(3) [OF s(2)]] s(3-5) s(6) [of "the f"] n(1,2) msgs(2) show ?thesis
    by auto
qed


section \<open>Periodic messages\<close>

text \<open>The ids the channel keeps, in the order of its array; as a multiset, what is running.\<close>

definition periodic_ids :: "op_channel \<Rightarrow> u32 list" where
  "periodic_ids c = map (periodic c) [0..<nperiodic c]"

lemma periodic_ids_same: "same_chan c c' \<Longrightarrow> periodic_ids c' = periodic_ids c"
  by (simp add: periodic_ids_def same_chan_def)

lemma periodic_ids_add:
  "periodic_ids (c\<lparr>periodic := (periodic c)(nperiodic c := x), nperiodic := Suc (nperiodic c)\<rparr>) =
     periodic_ids c @ [x]"
  by (simp add: periodic_ids_def)

text \<open>The last id takes the place of the one that is removed.\<close>

lemma periodic_ids_remove:
  assumes "i < nperiodic c"
  shows "mset (periodic_ids (c\<lparr>nperiodic := nperiodic c - 1,
       periodic := (periodic c)(i := periodic c (nperiodic c - 1))\<rparr>)) =
    mset (periodic_ids c) - {#periodic c i#}"
proof -
  obtain m where m: "nperiodic c = Suc m" using assms by (cases "nperiodic c") auto
  let ?p = "periodic c"
  have all: "mset (periodic_ids c) = image_mset ?p (mset_set {0..<Suc m})"
    by (simp add: periodic_ids_def m flip: mset_upt)
  show ?thesis
  proof (cases "i = m")
    case True
    then show ?thesis by (simp add: periodic_ids_def m)
  next
    case False
    with assms m have i: "i < m" by simp
    then have split: "mset_set {0..<m} = add_mset i (mset_set ({0..<m} - {i}))"
      by (simp add: mset_set.remove)
    have "image_mset (?p(i := ?p m)) (mset_set ({0..<m} - {i})) = image_mset ?p (mset_set ({0..<m} - {i}))"
      by (rule image_mset_cong) auto
    then have "image_mset (?p(i := ?p m)) (mset_set {0..<m}) = add_mset (?p m) (image_mset ?p (mset_set ({0..<m} - {i})))"
      by (simp add: split)
    moreover have "image_mset ?p (mset_set {0..<Suc m}) =
        add_mset (?p m) (add_mset (?p i) (image_mset ?p (mset_set ({0..<m} - {i}))))"
      by (simp add: atLeast0_lessThan_Suc split)
    ultimately show ?thesis by (simp add: all) (simp add: periodic_ids_def m flip: mset_upt)
  qed
qed

lemma interval_micros:
  assumes "T \<le> (4294967 :: u64)"
  shows "unat (ucast T * 1000 :: u32) = unat T * 1000"
proof -
  have "unat T \<le> 4294967" using assms by (simp add: word_le_nat_alt)
  then show ?thesis by (simp add: unat_word_ariths unsigned_ucast_eq take_bit_nat_eq_self)
qed


lemma start_periodic_done:
  assumes "start_periodic c m T w = (STATUS_NOERROR, out, w')"
    and "l = op_cmd_periodic_start OP_CMD_MAX (ucast c) (ucast T * 1000) (ucast (TxFlags m)) (msg_size m)"
  shows "\<exists>r w1. simple_cmd l (msg_bytes m) 1000 w = (STATUS_NOERROR, Some r, w1) \<and> l \<noteq> [] \<and>
    r_kind r = OP_REPLY_PERIODIC \<and> out = Some (ucast (r_a r)) \<and>
    w' = on_chan (unat c) (\<lambda>c. c\<lparr>periodic := (periodic c)(nperiodic c := r_a r), nperiodic := Suc (nperiodic c)\<rparr>) w1"
    and "nperiodic (ch (dev w) (unat c)) < OP_PERIODIC_PER_CH"
proof -
  obtain rc r w1 where x: "simple_cmd l (msg_bytes m) 1000 w = (rc, r, w1)" by (metis prod_cases3)
  note start = assms(1) [unfolded start_periodic_def Let_def, folded assms(2)]
  show room: "nperiodic (ch (dev w) (unat c)) < OP_PERIODIC_PER_CH"
    using start by (auto simp: split_beta prod_eq_iff split: if_splits)
  show "\<exists>r w1. simple_cmd l (msg_bytes m) 1000 w = (STATUS_NOERROR, Some r, w1) \<and> l \<noteq> [] \<and>
    r_kind r = OP_REPLY_PERIODIC \<and> out = Some (ucast (r_a r)) \<and>
    w' = on_chan (unat c) (\<lambda>c. c\<lparr>periodic := (periodic c)(nperiodic c := r_a r), nperiodic := Suc (nperiodic c)\<rparr>) w1"
    using start x by (cases r) (auto simp: split_beta prod_eq_iff split: if_splits)
qed

text \<open>C36. A periodic message that is started is acceptable to the channel, was sent once with its
  interval in microseconds, and its id joins the ids of the channel, at most ten.\<close>

theorem periodic_started:
  assumes "PassThruStartPeriodicMsg c (Some m) True T w = (STATUS_NOERROR, Some mid, w')"
  shows "\<exists>i32 x. mid = ucast x \<and> unat i32 = unat T * 1000 \<and> 0 < T \<and> acceptable (dev w) c m \<and>
    periodic_ids (ch (dev w') (unat c)) = periodic_ids (ch (dev w) (unat c)) @ [x] \<and>
    nperiodic (ch (dev w') (unat c)) \<le> OP_PERIODIC_PER_CH \<and>
    sent w' = sent w @ [(numbered_line (op_cmd_periodic_start OP_CMD_MAX (ucast c) i32 (ucast (TxFlags m))
        (msg_size m)) (seq_next (dev w)) @ msg_bytes m, 1000)]"
proof -
  have ok: "fst (msg_ok c m (clear_err w)) = 0" "T \<noteq> 0" "T \<le> 4294967"
    using assms by (auto simp: PassThruStartPeriodicMsg_def Let_def split_beta prod_eq_iff split: if_splits)
  from ok(1) have "msg_ok c m (clear_err w) = (0, clear_err w)" using msg_ok_world by (metis prod.collapse)
  with assms have "start_periodic c m T (clear_err w) = (STATUS_NOERROR, Some mid, w')"
    by (auto simp: PassThruStartPeriodicMsg_def Let_def split_beta prod_eq_iff split: if_splits)
  note start = start_periodic_done [OF this refl]
  let ?l = "op_cmd_periodic_start OP_CMD_MAX (ucast c) (ucast T * 1000) (ucast (TxFlags m)) (msg_size m)"
  from start(1) obtain r w1 where r: "simple_cmd ?l (msg_bytes m) 1000 (clear_err w) = (STATUS_NOERROR, Some r, w1)"
    "?l \<noteq> []" "mid = ucast (r_a r)"
    "w' = on_chan (unat c) (\<lambda>c. c\<lparr>periodic := (periodic c)(nperiodic c := r_a r), nperiodic := Suc (nperiodic c)\<rparr>) w1"
    by blast
  note cmd = simple_cmd_done [OF r(1) lines_numbered(4) [OF r(2)]]
  from cmd(3) have same: "same_chan (ch (dev w) (unat c)) (ch (dev w1) (unat c))" by (simp add: same_conf_def)
  have "periodic_ids (ch (dev w') (unat c)) = periodic_ids (ch (dev w) (unat c)) @ [r_a r]"
    using periodic_ids_same [OF same] by (simp add: r(4) on_chan_def periodic_ids_add)
  moreover have "nperiodic (ch (dev w') (unat c)) \<le> OP_PERIODIC_PER_CH"
    using start(2) same by (simp add: r(4) on_chan_def same_chan_def)
  moreover have "sent w' = sent w1" by (simp add: r(4) on_chan_def)
  ultimately show ?thesis
    using ok cmd(1) interval_micros [OF ok(3)] r(3) msg_ok_accepts [of c m "clear_err w"]
    by (intro exI [of _ "ucast T * 1000"] exI [of _ "r_a r"]) (simp add: word_gt_0)
qed

lemma periodic_slot_found:
  assumes "x \<in> set (periodic_ids c)"
  shows "periodic_slot c x < nperiodic c \<and> periodic c (periodic_slot c x) = x"
proof -
  from assms obtain i where "i < nperiodic c" "periodic c i = x" by (auto simp: periodic_ids_def)
  then obtain j where "find (\<lambda>i. periodic c i = x) [0..<nperiodic c] = Some j"
    by (metis (mono_tags, lifting) atLeastLessThan_iff find_None_iff not_None_eq set_upt zero_le)
  then show ?thesis by (auto simp: periodic_slot_def) (auto simp: find_Some_iff)
qed

lemma periodic_slot_missing: "x \<notin> set (periodic_ids c) \<Longrightarrow> periodic_slot c x = nperiodic c"
  by (auto simp: periodic_slot_def periodic_ids_def find_Some_iff split: option.split)

lemma periodic_stop_ids:
  assumes "periodic_stop c i w = (rc, w')" and "i < nperiodic (ch (dev w) (unat c))"
  shows "mset (periodic_ids (ch (dev w') (unat c))) =
    (if rc = STATUS_NOERROR \<or> rc = ERR_INVALID_MSG_ID
     then mset (periodic_ids (ch (dev w) (unat c))) - {#periodic (ch (dev w) (unat c)) i#}
     else mset (periodic_ids (ch (dev w) (unat c))))"
proof -
  let ?l = "op_cmd_periodic_stop OP_CMD_MAX (ucast c) (periodic (ch (dev w) (unat c)) i)"
  obtain rc1 r w1 where x: "simple_cmd ?l [] OP_DEFAULT_CMD_MS w = (rc1, r, w1)" by (metis prod_cases3)
  have "same_conf (dev w) (dev w1)"
    using quiet.simple_cmd [OF quiet_refl, of w ?l "[]" OP_DEFAULT_CMD_MS] x by (simp add: quiet_def)
  then have same: "same_chan (ch (dev w) (unat c)) (ch (dev w1) (unat c))" by (simp add: same_conf_def)
  then have "i < nperiodic (ch (dev w1) (unat c))" "periodic (ch (dev w1) (unat c)) = periodic (ch (dev w) (unat c))"
    using assms(2) by (simp_all add: same_chan_def)
  with assms(1) x periodic_ids_remove [of i "ch (dev w1) (unat c)"] periodic_ids_same [OF same] show ?thesis
    by (auto simp: periodic_stop_def Let_def on_chan_def split: if_splits)
qed

text \<open>C37. Stopping a periodic message removes its id, once, from the ids of the channel, when the
  device stopped it and also when the device does not know it; on any other failure it stays. An
  id the channel does not keep is refused with nothing sent.\<close>

theorem periodic_stopped:
  assumes "PassThruStopPeriodicMsg c mid w = (rc, w')" and "d_open (dev w)" and "channel_of (dev w) c"
  shows "if ucast mid \<in> set (periodic_ids (ch (dev w) (unat c)))
    then mset (periodic_ids (ch (dev w') (unat c))) =
      (if rc = STATUS_NOERROR \<or> rc = ERR_INVALID_MSG_ID
       then mset (periodic_ids (ch (dev w) (unat c))) - {#ucast mid#}
       else mset (periodic_ids (ch (dev w) (unat c))))
    else rc = ERR_INVALID_MSG_ID \<and> dev w' = dev w \<and> sent w' = sent w"
proof (cases "ucast mid \<in> set (periodic_ids (ch (dev w) (unat c)))")
  case True
  let ?i = "periodic_slot (ch (dev w) (unat c)) (ucast mid)"
  note slot = periodic_slot_found [OF True]
  obtain rc1 w1 where x: "periodic_stop c ?i (clear_err w) = (rc1, w1)" by force
  have "failed rc1 s w1 = (rc, w') \<Longrightarrow> rc1 = rc \<and> dev w' = dev w1" for s
    by (auto simp: failed_def fail_def Let_def prod_eq_iff split: if_splits)
  with assms x slot have "rc1 = rc" "dev w' = dev w1"
    by (auto simp: PassThruStopPeriodicMsg_def Let_def split_beta)
  with periodic_stop_ids [OF x] slot True show ?thesis by simp
next
  case False
  have "fail k s (clear_err w) = (rc, w') \<Longrightarrow> rc = k \<and> dev w' = dev w \<and> sent w' = sent w" for k s
    by (metis fail_code(1) fail_sel fst_conv snd_conv clear_err_sel(1,2))
  with False assms periodic_slot_missing [OF False] show ?thesis
    by (auto simp: PassThruStopPeriodicMsg_def Let_def)
qed


section \<open>K-line initialisation\<close>

lemma init_exchange_done:
  assumes "cmd_exchange l p 5000 True w = (OP_OK, Some r, w1)" and "l \<noteq> []"
  shows "init_exchange l p w = (STATUS_NOERROR, d, v) \<longleftrightarrow>
    r_kind r = OP_REPLY_INIT \<and> r_bytes r \<noteq> [] \<and> d = r_bytes r \<and> v = w1"
proof -
  have "r_bytes r = [] \<longleftrightarrow> r_data_len r = 0" using length_r_bytes [of r] by (metis length_0_conv)
  then show ?thesis
    using assms by (auto simp: init_exchange_def simple_cmd_def op_device_cmd_def reply_to_status_def Let_def)
qed

text \<open>C35. A five-baud initialisation succeeds only when the ECU answered: an acknowledgement, an
  empty result or a refusal of the device is never taken for one, and the key bytes the caller
  gets are the ECU's, as many as it has room for.\<close>

theorem five_baud_needs_answer:
  assumes "d_open (dev w)" and "channel_of (dev w) c" and "BytePtr i = Some a" and "0 < NumOfBytes i"
    and "BytePtr out \<noteq> None" and "hd a = (x :: u8)"
    and "cmd_exchange (op_cmd_five_baud OP_CMD_MAX (ucast c) (ucast x)) [] 5000 True (clear_err w) = (OP_OK, Some r, w1)"
  shows "PassThruIoctl c (Io_Five_Baud_Init (Some i) (Some out)) w = (STATUS_NOERROR, res, v) \<longleftrightarrow>
    r_kind r = OP_REPLY_INIT \<and> r_bytes r \<noteq> [] \<and> v = w1 \<and>
    res = Out_Bytes (take (unat (NumOfBytes out)) (r_bytes r))"
proof -
  let ?l = "op_cmd_five_baud OP_CMD_MAX (ucast c) (ucast x)"
  have "?l \<noteq> []" using assms(7) by (auto simp: cmd_exchange_def simp del: OP_CMD_MAX_def)
  note init = init_exchange_done [OF assms(7) this]
  obtain rc d u where y: "init_exchange ?l [] (clear_err w) = (rc, d, u)" by (metis prod_cases3)
  have n: "\<not> NumOfBytes i < 1" using assms(4) by (simp add: not_less word_le_nat_alt word_less_nat_alt)
  obtain b where b: "BytePtr out = Some b" using assms(5) by auto
  have five: "ioctl_five_baud c (Some i) (Some out) (clear_err w) =
      (if rc = STATUS_NOERROR then (STATUS_NOERROR, Some (take (unat (NumOfBytes out)) d), u) else (rc, None, u))"
    using y n assms(6) by (simp add: ioctl_five_baud_def assms(3) b del: OP_CMD_MAX_def)
  show ?thesis
  proof (cases "rc = STATUS_NOERROR")
    case True
    with init [of d u] y have "r_kind r = OP_REPLY_INIT" "r_bytes r \<noteq> []" "d = r_bytes r" "u = w1" by auto
    then show ?thesis
      using assms(1,2) True by (auto simp: PassThruIoctl_def needs_channel_def run_ioctl_def five failed_def Let_def)
  next
    case False
    with init [of "r_bytes r" w1] y have "\<not> (r_kind r = OP_REPLY_INIT \<and> r_bytes r \<noteq> [])" by auto
    moreover have "fst (failed rc s u) \<noteq> STATUS_NOERROR" for s using False by simp
    ultimately show ?thesis
      using assms(1,2) False by (auto simp: PassThruIoctl_def needs_channel_def run_ioctl_def five Let_def split_beta prod_eq_iff)
  qed
qed

section \<open>Programming voltage\<close>

lemma voltage_line_numbered: "op_cmd_is_numbered (voltage_line p v)"
  by (simp add: voltage_line_def op_cmd_is_numbered_def text_simps)

lemma set_voltage_done:
  assumes "set_voltage p v w = (STATUS_NOERROR, w')"
  shows "\<exists>w1 :: world. same_conf (dev w) (dev w1) \<and>
    dev w' = (if p < 32 then record_pin (unat p) v (dev w1) else dev w1) \<and>
    sent w' = sent w @ [(numbered_line (voltage_line p v) (seq_next (dev w)), 1000)]"
proof -
  obtain rc r w1 where x: "simple_cmd (voltage_line p v) [] 1000 w = (rc, r, w1)" by (metis prod_cases3)
  with assms have rc: "rc = STATUS_NOERROR" and w': "w' = (if p < 32 then on_dev (record_pin (unat p) v) w1 else w1)"
    by (auto simp: set_voltage_def Let_def split_beta prod_eq_iff split: if_splits)
  from simple_cmd_done [OF x [unfolded rc] voltage_line_numbered] w' show ?thesis
    by (intro exI [of _ w1]) simp
qed

text \<open>A programming voltage that was accepted: no open channel used a pin that was shorted to
  ground, no other pin carried a voltage when one was applied, one command was sent, and the
  session's record of the pin, and of no other, follows it.\<close>

lemma voltage_accepted:
  assumes "PassThruSetProgrammingVoltage i pin v w = (STATUS_NOERROR, w')"
  shows "d_open (dev w) \<and> i = OP_DEVICE_ID \<and>
    (v = SHORT_TO_GROUND \<longrightarrow> channel_on_pin (dev w) pin = None) \<and>
    (v \<noteq> SHORT_TO_GROUND \<and> v \<noteq> VOLTAGE_OFF \<and> pin < 32 \<longrightarrow>
       (\<forall>j. bit (pins_powered (dev w)) j \<longrightarrow> j = unat pin)) \<and>
    sent w' = sent w @ [(numbered_line (voltage_line pin v) (seq_next (dev w)), 1000)] \<and>
    (\<forall>j. bit (pins_grounded (dev w')) j =
       (if pin < 32 \<and> j = unat pin then v = SHORT_TO_GROUND else bit (pins_grounded (dev w)) j)) \<and>
    (\<forall>j. bit (pins_powered (dev w')) j =
       (if pin < 32 \<and> j = unat pin then v \<noteq> SHORT_TO_GROUND \<and> v \<noteq> VOLTAGE_OFF
        else bit (pins_powered (dev w)) j))"
proof -
  have g: "d_open (dev w)" "i = OP_DEVICE_ID" "set_voltage pin v (clear_err w) = (STATUS_NOERROR, w')"
    "v = SHORT_TO_GROUND \<longrightarrow> channel_on_pin (dev w) pin = None"
    "v \<noteq> SHORT_TO_GROUND \<and> v \<noteq> VOLTAGE_OFF \<and> pin < 32 \<longrightarrow>
       pins_powered (dev w) AND NOT (push_bit (unat pin) 1) = 0"
    using assms by (auto simp: PassThruSetProgrammingVoltage_def Let_def split_beta prod_eq_iff
        simp del: OP_DEVICE_ID_def split: if_splits option.splits)
  from set_voltage_done [OF g(3)] obtain w1 :: world where w1: "same_conf (dev w) (dev w1)"
    "dev w' = (if pin < 32 then record_pin (unat pin) v (dev w1) else dev w1)"
    "sent w' = sent w @ [(numbered_line (voltage_line pin v) (seq_next (dev w)), 1000)]" by auto
  have n: "unat pin < 32" if "pin < 32" using that by (simp add: word_less_nat_alt)
  show ?thesis
    using g w1 pin_bit [of "pins_powered (dev w)" "unat pin"] record_pin_bits(1,2) [OF n, where v = v and d = "dev w1"]
    by (auto simp: same_conf_def)
qed


lemma exchange_writes:
  assumes "d_open (dev w)" and "\<not> d_lost (dev w)" and "l = s @ crlf" and "2 \<le> length s"
    and "length l < OP_CMD_MAX" and "op_cmd_is_numbered l"
  shows "sent (snd (snd (cmd_exchange l [] t True w))) =
    sent w @ [(numbered_line l (seq_next (dev w)), if t = 0 then 1000 else t)]"
proof -
  have n: "op_cmd_number l (OP_CMD_MAX + 16) (seq_next (dev w)) \<noteq> []"
    using assms(3-5) by (subst op_cmd_number_line [of _ s]) (simp_all add: crlf_def)
  have "l \<noteq> []" using assms(3) by (simp add: crlf_def)
  with assms(1,2,5,6) n show ?thesis
    by (simp add: cmd_exchange_def number_line_def take_seq_def split_beta Let_def numbered_line_def)
qed

lemma length_dec_int:
  assumes "\<bar>i\<bar> \<le> 2 ^ 31"
  shows "length (dec_int i) \<le> 11"
proof -
  have "nat \<bar>i\<bar> < 2 ^ 32" using assms by (simp add: nat_less_iff)
  from length_dec_u32' [OF this] show ?thesis by (cases "i < 0") (simp_all add: dec_int_def)
qed

lemma length_voltage_line: "length (voltage_line p v) < OP_CMD_MAX"
proof -
  have p: "length (dec (unat p)) \<le> 20"
    by (rule length_dec_le, rule less_trans [OF unat_u64_less]) simp_all
  have "\<bar>sint (ucast v :: u32)\<bar> \<le> 2 ^ 31"
    using sint_range_size [of "ucast v :: u32"] unfolding word_size abs_le_iff by auto
  then have "length (dec_int (sint (ucast v :: u32))) \<le> 11" by (rule length_dec_int)
  with p show ?thesis by (simp add: voltage_line_def crlf_def)
qed

text \<open>The guards compare the caller's 64-bit value, the command carries its low 32 bits: with all
  ones but the lowest of 64 the device is told to short the pin to ground although an open channel
  uses it, which the same request with the standard's 32-bit value is refused.\<close>

lemma ground_guard_bypassed:
  assumes "d_open (dev w)" and "\<not> d_lost (dev w)" and "channel_on_pin (dev w) pin = Some k"
    and "pins_powered (dev w) = 0"
  shows "fst (PassThruSetProgrammingVoltage OP_DEVICE_ID pin SHORT_TO_GROUND w) = ERR_CHANNEL_IN_USE \<and>
    sent (snd (PassThruSetProgrammingVoltage OP_DEVICE_ID pin SHORT_TO_GROUND w)) = sent w \<and>
    sent (snd (PassThruSetProgrammingVoltage OP_DEVICE_ID pin 0xFFFFFFFFFFFFFFFE w)) =
      sent w @ [(numbered_line (voltage_line pin SHORT_TO_GROUND) (seq_next (dev w)), 1000)]"
proof -
  let ?v = "0xFFFFFFFFFFFFFFFE :: u64"
  let ?l = "voltage_line pin SHORT_TO_GROUND"
  have same: "voltage_line pin ?v = ?l" by (simp add: voltage_line_def)
  have "sent (snd (snd (cmd_exchange ?l [] 1000 True (clear_err w)))) =
      sent w @ [(numbered_line ?l (seq_next (dev w)), 1000)]"
    using assms(1,2) length_voltage_line [of pin SHORT_TO_GROUND] voltage_line_numbered [of pin SHORT_TO_GROUND]
    by (subst exchange_writes [where s = "ascii ''atv '' @ dec (unat pin) @ 32 # dec_int (sint (ucast SHORT_TO_GROUND :: u32))"])
      (simp_all add: voltage_line_def text_simps)
  then have cmd: "sent (snd (snd (simple_cmd ?l [] 1000 (clear_err w)))) =
      sent w @ [(numbered_line ?l (seq_next (dev w)), 1000)]"
    by (simp add: simple_cmd_def op_device_cmd_def split_beta split: option.split)
  have "\<not> OP_CMD_MAX \<le> length ?l" using length_voltage_line [of pin SHORT_TO_GROUND] by simp
  then have "sent (snd (set_voltage pin ?v (clear_err w))) = sent (snd (snd (simple_cmd ?l [] 1000 (clear_err w))))"
    by (simp add: set_voltage_def same Let_def split_beta del: OP_CMD_MAX_def)
  with cmd assms show ?thesis
    by (simp add: PassThruSetProgrammingVoltage_def Let_def)
qed


section \<open>Witnesses\<close>

text \<open>A connect on a device that says yes.\<close>

lemma connect_example:
  "\<exists>w'. PassThruConnect (Some (\<lambda>_. 0)) OP_DEVICE_ID 5 0 500000 True (live_world (\<lambda>_. channel0 None) (D_Ok [256])) =
    (STATUS_NOERROR, Some 5, w')"
proof -
  let ?w = "live_world (\<lambda>_. channel0 None) (D_Ok [256])"
  let ?l = "op_cmd_open OP_CMD_MAX 5 0 500000"
  have "\<exists>r w'. cmd_exchange ?l [] 1000 True ?w = (OP_OK, Some r, w') \<and>
    simple_cmd ?l [] 1000 ?w = (STATUS_NOERROR, Some r, w') \<and>
    r_kind r = r_kind (meaning (D_Ok [256])) \<and> r_a r = r_a (meaning (D_Ok [256]))"
    by (rule live_world_answers [where s = "ascii ''ato5 0 500000 0''"])
      (simp_all add: acks line_bytes_def op_cmd_open_def emit_def crlf_def text_simps num_def dec.simps op_cmd_is_numbered_def)
  then obtain r w1 where x: "simple_cmd ?l [] 1000 ?w = (STATUS_NOERROR, Some r, w1)" by blast
  have l: "?l \<noteq> []" by (simp add: op_cmd_open_def emit_def crlf_def text_simps num_def dec.simps)
  have "fst (connect_channel (Some (\<lambda>_. 0)) 5 5 0 500000 ?w) = STATUS_NOERROR"
    using x l by (simp add: connect_channel_def op_device_open_channel_def Let_def split_beta del: OP_CMD_MAX_def)
  moreover have "grounded_pin (dev ?w) 5 = None" by (simp add: grounded_pin_def find_None_iff)
  moreover have "\<not> ch_open (channel0 None)" by (simp add: channel0_def)
  ultimately have "fst (PassThruConnect (Some (\<lambda>_. 0)) OP_DEVICE_ID 5 0 500000 True ?w) = STATUS_NOERROR \<and>
    fst (snd (PassThruConnect (Some (\<lambda>_. 0)) OP_DEVICE_ID 5 0 500000 True ?w)) = Some 5"
    by (simp add: PassThruConnect_def op_protocol_channel_def line_partner_def Let_def split_beta)
  then show ?thesis by (metis prod.collapse)
qed

theorem connect_opens_witness:
  "\<exists>cid w'. PassThruConnect (Some (\<lambda>_. 0)) OP_DEVICE_ID 5 0 500000 True
      (live_world (\<lambda>_. channel0 None) (D_Ok [256])) = (STATUS_NOERROR, Some cid, w') \<and>
    cid = 5 \<and> chan_rep (ch (dev w') 5) []"
proof -
  obtain w' where "PassThruConnect (Some (\<lambda>_. 0)) OP_DEVICE_ID 5 0 500000 True (live_world (\<lambda>_. channel0 None) (D_Ok [256])) =
      (STATUS_NOERROR, Some 5, w')"
    using connect_example by blast
  with connect_opens [OF this, of 5] show ?thesis by (simp add: op_protocol_channel_def)
qed


theorem filter_installed_witness:
  "\<exists>fid w'. PassThruStartMsgFilter 5 1 (Some can_msg) (Some can_msg) None True (live_world can_channels (D_Filter 5 1 [256])) =
      (STATUS_NOERROR, Some fid, w') \<and>
    sent w' = [(numbered_line (op_cmd_filter OP_CMD_MAX 5 1 0 12) 256 @ msg_bytes can_msg @ msg_bytes can_msg, 1000)]"
proof -
  let ?w = "live_world can_channels (D_Filter 5 1 [256])"
  let ?l = "op_cmd_filter OP_CMD_MAX 5 1 0 12" and ?p = "msg_bytes can_msg @ msg_bytes can_msg"
  have size: "msg_size can_msg = 12" by (simp add: can_msg_def msg_size_def)
  have "\<exists>r w'. cmd_exchange ?l ?p 1000 True ?w = (OP_OK, Some r, w') \<and>
    simple_cmd ?l ?p 1000 ?w = (STATUS_NOERROR, Some r, w') \<and>
    r_kind r = r_kind (meaning (D_Filter 5 1 [256])) \<and> r_a r = r_a (meaning (D_Filter 5 1 [256]))"
    by (rule live_world_answers [where s = "ascii ''atf5 1 0 12''"])
      (simp_all add: acks size line_bytes_def op_cmd_filter_def emit_def crlf_def text_simps num_def dec.simps op_cmd_is_numbered_def)
  then obtain r w1 where x: "simple_cmd ?l ?p 1000 ?w = (STATUS_NOERROR, Some r, w1)" "r_kind r = OP_REPLY_FILTER"
    by auto
  have "?l \<noteq> []" by (simp add: op_cmd_filter_def emit_def crlf_def text_simps num_def dec.simps)
  moreover have "TxFlags can_msg = 0" by (simp add: can_msg_def)
  moreover have "filter_payload 12 [can_msg, can_msg] [] = Some ?p" by (simp add: filter_payload_eq size)
  ultimately have "start_filter 5 1 2 can_msg can_msg None ?w = (STATUS_NOERROR, Some (ucast (r_a r)), w1)"
    using x size by (simp add: start_filter_def Let_def del: OP_CMD_MAX_def filter_payload.simps)
  then have "PassThruStartMsgFilter 5 1 (Some can_msg) (Some can_msg) None True ?w = (STATUS_NOERROR, Some (ucast (r_a r)), w1)"
    using can_channel_of by (simp add: PassThruStartMsgFilter_def op_filter_msg_count_def Let_def)
  with filter_installed [OF this refl] show ?thesis
    using size by (simp add: op_filter_msg_count_def can_msg_def)
qed

theorem periodic_started_witness:
  "\<exists>mid w'. PassThruStartPeriodicMsg 5 (Some can_msg) True 100 (live_world can_channels (D_Periodic 5 3 [256])) =
      (STATUS_NOERROR, Some mid, w') \<and> periodic_ids (ch (dev w') 5) = [ucast mid]"
proof -
  let ?w = "live_world can_channels (D_Periodic 5 3 [256])"
  let ?l = "op_cmd_periodic_start OP_CMD_MAX 5 100000 0 12"
  have size: "msg_size can_msg = 12" by (simp add: can_msg_def msg_size_def)
  have "\<exists>r w'. cmd_exchange ?l (msg_bytes can_msg) 1000 True ?w = (OP_OK, Some r, w') \<and>
    simple_cmd ?l (msg_bytes can_msg) 1000 ?w = (STATUS_NOERROR, Some r, w') \<and>
    r_kind r = r_kind (meaning (D_Periodic 5 3 [256])) \<and> r_a r = r_a (meaning (D_Periodic 5 3 [256]))"
    by (rule live_world_answers [where s = "ascii ''atm5 100000 0 0 12''"])
      (simp_all add: acks size line_bytes_def op_cmd_periodic_start_def emit_def crlf_def text_simps num_def dec.simps op_cmd_is_numbered_def)
  then obtain r w1 where x: "simple_cmd ?l (msg_bytes can_msg) 1000 ?w = (STATUS_NOERROR, Some r, w1)"
    "r_kind r = OP_REPLY_PERIODIC" "r_a r = 3" by auto
  have l: "?l \<noteq> []" by (simp add: op_cmd_periodic_start_def emit_def crlf_def text_simps num_def dec.simps)
  have flags: "TxFlags can_msg = 0" by (simp add: can_msg_def)
  have n: "nperiodic (ch (dev ?w) 5) = 0" by (simp add: can_channels_def channel0_def)
  have "acceptable (dev ?w) 5 can_msg"
    by (simp add: acceptable_def chan_base_def can_channels_def can_msg_def op_protocol_base_def msg_limits_def msg_size_def)
  then have ok: "msg_ok 5 can_msg ?w = (0, ?w)"
    using msg_ok_accepts [of 5 can_msg ?w] msg_ok_world [of 5 can_msg ?w] by (metis prod.collapse)
  have "fst (start_periodic 5 can_msg 100 ?w) = STATUS_NOERROR \<and> fst (snd (start_periodic 5 can_msg 100 ?w)) = Some 3"
    using x l size flags n by (simp add: start_periodic_def Let_def del: OP_CMD_MAX_def)
  then obtain w' where "start_periodic 5 can_msg 100 ?w = (STATUS_NOERROR, Some 3, w')" by (metis prod.collapse)
  then have y: "PassThruStartPeriodicMsg 5 (Some can_msg) True 100 ?w = (STATUS_NOERROR, Some 3, w')"
    using ok can_channel_of by (simp add: PassThruStartPeriodicMsg_def Let_def)
  have ids: "periodic_ids (ch (dev ?w) 5) = []" using n by (simp add: periodic_ids_def)
  from periodic_started [OF y] ids obtain x where "3 = (ucast x :: u64)" "periodic_ids (ch (dev w') 5) = [x]" by auto
  moreover have "ucast (ucast x :: u64) = x" for x :: u32 by (rule bit_word_eqI) (simp add: bit_simps)
  ultimately show ?thesis using y by metis
qed

text \<open>A channel 5 that keeps the id 3.\<close>

definition running_channels :: "nat \<Rightarrow> op_channel" where
  "running_channels k = (can_channels k)\<lparr>nperiodic := 1, periodic := (\<lambda>_. 3)\<rparr>"

theorem periodic_stopped_witness:
  "\<exists>w'. PassThruStopPeriodicMsg 5 3 (live_world running_channels (D_Ok [256])) = (STATUS_NOERROR, w') \<and>
    mset (periodic_ids (ch (dev w') 5)) = {#}"
proof -
  let ?w = "live_world running_channels (D_Ok [256])"
  let ?l = "op_cmd_periodic_stop OP_CMD_MAX 5 3"
  have "\<exists>r w'. cmd_exchange ?l [] 1000 True ?w = (OP_OK, Some r, w') \<and>
    simple_cmd ?l [] 1000 ?w = (STATUS_NOERROR, Some r, w') \<and>
    r_kind r = r_kind (meaning (D_Ok [256])) \<and> r_a r = r_a (meaning (D_Ok [256]))"
    by (rule live_world_answers [where s = "ascii ''atn5 3''"])
      (simp_all add: acks line_bytes_def op_cmd_periodic_stop_def emit_def crlf_def text_simps num_def dec.simps op_cmd_is_numbered_def)
  then obtain r w1 where x: "simple_cmd ?l [] 1000 ?w = (STATUS_NOERROR, Some r, w1)" by blast
  have c: "nperiodic (running_channels 5) = 1" "periodic (running_channels 5) = (\<lambda>_. 3)" "ch_open (running_channels 5)"
    by (simp_all add: running_channels_def can_channels_def)
  then have ids: "periodic_ids (running_channels 5) = [3]" by (simp add: periodic_ids_def)
  then have slot: "periodic_slot (running_channels 5) 3 = 0" using periodic_slot_found [of 3 "running_channels 5"] c by simp
  have chan: "channel_of (dev ?w) 5" using c by (simp add: channel_of_def channel_valid_def)
  have "fst (PassThruStopPeriodicMsg 5 3 ?w) = STATUS_NOERROR"
    using x c slot chan by (simp add: PassThruStopPeriodicMsg_def periodic_stop_def Let_def del: OP_CMD_MAX_def)
  then obtain w' where y: "PassThruStopPeriodicMsg 5 3 ?w = (STATUS_NOERROR, w')" by (metis prod.collapse)
  from periodic_stopped [OF y _ chan] y ids show ?thesis by simp
qed

theorem five_baud_needs_answer_witness:
  "fst (PassThruIoctl 5 (Io_Five_Baud_Init (Some \<lparr>NumOfBytes = 1, BytePtr = Some [51]\<rparr>)
        (Some \<lparr>NumOfBytes = 2, BytePtr = Some [0, 0]\<rparr>)) (live_world can_channels (D_Ok [256]))) \<noteq> STATUS_NOERROR"
proof -
  let ?w = "live_world can_channels (D_Ok [256])"
  let ?i = "\<lparr>NumOfBytes = 1, BytePtr = Some [51]\<rparr>" and ?o = "\<lparr>NumOfBytes = 2, BytePtr = Some [0, 0]\<rparr>"
  let ?l = "op_cmd_five_baud OP_CMD_MAX 5 51"
  have "\<exists>r w'. cmd_exchange ?l [] 5000 True ?w = (OP_OK, Some r, w') \<and>
    simple_cmd ?l [] 5000 ?w = (STATUS_NOERROR, Some r, w') \<and>
    r_kind r = r_kind (meaning (D_Ok [256])) \<and> r_a r = r_a (meaning (D_Ok [256]))"
    by (rule live_world_answers [where s = "ascii ''atw5 51''"])
      (simp_all add: acks line_bytes_def op_cmd_five_baud_def emit_def crlf_def text_simps num_def dec.simps op_cmd_is_numbered_def)
  then obtain r w1 where x: "cmd_exchange ?l [] 5000 True ?w = (OP_OK, Some r, w1)" "r_kind r = OP_REPLY_OK" by auto
  have chan: "channel_of (dev ?w) 5" by (rule can_channel_of)
  obtain rc res v where y: "PassThruIoctl 5 (Io_Five_Baud_Init (Some ?i) (Some ?o)) ?w = (rc, res, v)" by (metis prod_cases3)
  have "rc \<noteq> STATUS_NOERROR"
    using five_baud_needs_answer [of ?w 5 ?i "[51]" ?o 51 r w1 res v] chan x y by auto
  with y show ?thesis by simp
qed

text \<open>A channel open on the K line.\<close>

definition k_line_channels :: "nat \<Rightarrow> op_channel" where
  "k_line_channels k = (channel0 (Some (\<lambda>_. 0)))\<lparr>ch_open := (k = 3), ch_protocol := 3\<rparr>"

lemma ground_guard_bypassed_witness:
  "sent (snd (PassThruSetProgrammingVoltage OP_DEVICE_ID 7 0xFFFFFFFFFFFFFFFE (live_world k_line_channels (D_Ok [256])))) =
    [(numbered_line (voltage_line 7 SHORT_TO_GROUND) 256, 1000)]"
proof -
  have "channel_on_pin (dev (live_world k_line_channels (D_Ok [256]))) 7 = Some 3"
    by (auto simp: channel_on_pin_def find_Some_iff k_line_channels_def protocol_uses_pin_def
        op_protocol_channel_def Let_def intro!: exI [of _ 3])
  with ground_guard_bypassed [of "live_world k_line_channels (D_Ok [256])" 7 3] show ?thesis by simp
qed

end
