(* ===== verification/Usb_Rx.thy ===== *)
theory Usb_Rx
  imports Byte_Ring J2534 "HOL-Library.Sublist"
begin

text \<open>
  The receive side of src/op_usb.c: 256 reads posted on the bulk-IN pipe, the callback \<open>rx_done\<close>
  that copies what arrived into a ring and posts the read again, the event thread, \<open>usb_read\<close>
  which drains the ring, and the start and the stop of all this. Each region the code runs under
  its lock is one definition. \<open>usb_step\<close> is the relation of these regions, labelled with what went
  in and came out; everything is shown for its paths, and \<open>usb_read\<close> is shown to be one.

  libusb is outside: the code it returns for a submission is an argument, and the callbacks it
  makes while the code waits are a schedule of events.
\<close>

section \<open>What libusb returns\<close>

text \<open>The documented codes; any other negative number is \<open>LIBUSB_ERROR_OTHER\<close>.\<close>

datatype libusb_error =
    LIBUSB_SUCCESS
  | LIBUSB_ERROR_IO
  | LIBUSB_ERROR_INVALID_PARAM
  | LIBUSB_ERROR_ACCESS
  | LIBUSB_ERROR_NO_DEVICE
  | LIBUSB_ERROR_NOT_FOUND
  | LIBUSB_ERROR_BUSY
  | LIBUSB_ERROR_TIMEOUT
  | LIBUSB_ERROR_OVERFLOW
  | LIBUSB_ERROR_PIPE
  | LIBUSB_ERROR_INTERRUPTED
  | LIBUSB_ERROR_NO_MEM
  | LIBUSB_ERROR_NOT_SUPPORTED
  | LIBUSB_ERROR_OTHER

datatype transfer_status =
    LIBUSB_TRANSFER_COMPLETED
  | LIBUSB_TRANSFER_ERROR
  | LIBUSB_TRANSFER_TIMED_OUT
  | LIBUSB_TRANSFER_CANCELLED
  | LIBUSB_TRANSFER_STALL
  | LIBUSB_TRANSFER_NO_DEVICE
  | LIBUSB_TRANSFER_OVERFLOW

definition from_libusb :: "libusb_error \<Rightarrow> op_status" where
  "from_libusb r =
    (case r of
       LIBUSB_SUCCESS \<Rightarrow> OP_OK
     | LIBUSB_ERROR_TIMEOUT \<Rightarrow> OP_ERR_TIMEOUT
     | LIBUSB_ERROR_NO_DEVICE \<Rightarrow> OP_ERR_NO_DEVICE
     | LIBUSB_ERROR_NOT_FOUND \<Rightarrow> OP_ERR_NO_DEVICE
     | LIBUSB_ERROR_ACCESS \<Rightarrow> OP_ERR_ACCESS
     | LIBUSB_ERROR_BUSY \<Rightarrow> OP_ERR_ACCESS
     | LIBUSB_ERROR_OVERFLOW \<Rightarrow> OP_ERR_OVERFLOW
     | LIBUSB_ERROR_INVALID_PARAM \<Rightarrow> OP_ERR_PARAM
     | _ \<Rightarrow> OP_ERR_IO)"

lemma from_libusb_ok [simp]: "from_libusb r = OP_OK \<longleftrightarrow> r = LIBUSB_SUCCESS"
  by (cases r) (simp_all add: from_libusb_def)

section \<open>State\<close>

definition USB_RX_TRANSFERS :: nat where "USB_RX_TRANSFERS = 256"
definition USB_RX_LEN :: nat where [simp]: "USB_RX_LEN = 256"
definition USB_RING_BYTES :: nat where "USB_RING_BYTES = 1024 * 1024"

lemma USB_RING_BYTES_pos [simp]: "0 < USB_RING_BYTES"
  by (simp add: USB_RING_BYTES_def)

text \<open>\<open>xfer\<close>: the transfer is allocated; \<open>flying\<close>: submitted, its callback not yet run.\<close>

record rx_slot =
  xfer :: bool
  flying :: bool

text \<open>
  The context and the handle are libusb's; the lock, the condition variable and the thread have no
  state but \<open>events_started\<close> and \<open>events_stop\<close>. \<open>ring\<close> is \<open>None\<close> where the pointer is NULL or freed.
\<close>

record op_usb =
  interface_num :: nat
  claimed :: bool
  kernel_bound :: u32
  ep_in :: u8
  ep_out :: u8
  rx :: "nat \<Rightarrow> rx_slot"
  rx_flying :: nat
  rx_batch :: nat
  rx_batch_most :: nat
  rx_error :: op_status
  stopping :: bool
  ring :: "mem option"
  ring_head :: nat
  ring_used :: nat
  ring_dropped :: nat
  events_started :: bool
  events_stop :: bool

section \<open>The ring\<close>

definition usb_ring_put :: "op_usb \<Rightarrow> u8 list \<Rightarrow> op_usb" where
  "usb_ring_put u src =
    (let n = length src in
     if n > USB_RING_BYTES - ring_used u then u\<lparr>ring_dropped := ring_dropped u + n\<rparr>
     else
       let tail = (ring_head u + ring_used u) mod USB_RING_BYTES
       in u\<lparr>ring := map_option (\<lambda>m. wrap_write USB_RING_BYTES m tail src) (ring u),
            ring_used := ring_used u + n\<rparr>)"

definition usb_ring_get :: "op_usb \<Rightarrow> nat \<Rightarrow> u8 list \<times> op_usb" where
  "usb_ring_get u cap =
    (let n = (if ring_used u < cap then ring_used u else cap) in
     (case ring u of None \<Rightarrow> [] | Some m \<Rightarrow> wrap_read USB_RING_BYTES m (ring_head u) n,
      u\<lparr>ring_head := (ring_head u + n) mod USB_RING_BYTES, ring_used := ring_used u - n\<rparr>))"

definition usb_ring_ok :: "op_usb \<Rightarrow> bool" where
  "usb_ring_ok u \<longleftrightarrow> ring u \<noteq> None \<and> ring_head u < USB_RING_BYTES \<and> ring_used u \<le> USB_RING_BYTES"

definition usb_content :: "op_usb \<Rightarrow> u8 list" where
  "usb_content u = (case ring u of None \<Rightarrow> []
     | Some m \<Rightarrow> ring_bytes USB_RING_BYTES m (ring_head u) (ring_used u))"

lemma usb_content_length: "usb_ring_ok u \<Longrightarrow> length (usb_content u) = ring_used u"
  by (auto simp: usb_ring_ok_def usb_content_def)

interpretation urx: byte_fifo usb_ring_ok usb_content USB_RING_BYTES usb_ring_put usb_ring_get
proof (unfold_locales, goal_cases)
  case (1 s xs)
  then show ?case
    by (auto simp: usb_content_length usb_ring_put_def usb_ring_ok_def Let_def)
next
  case (2 s xs)
  then obtain m where "ring s = Some m" by (auto simp: usb_ring_ok_def)
  with 2 show ?case
    by (simp add: usb_content_length)
      (simp add: usb_content_def usb_ring_put_def usb_ring_ok_def ring_bytes_write Let_def)
next
  case (3 s n)
  then show ?case
    by (auto simp: usb_content_length usb_ring_get_def usb_ring_ok_def Let_def)
next
  case (4 s n)
  then obtain m where "ring s = Some m" by (auto simp: usb_ring_ok_def)
  with 4 show ?case
    by (simp add: usb_content_length)
      (simp add: usb_content_def usb_ring_get_def usb_ring_ok_def ring_bytes_take wrap_read_eq)
next
  case (5 s n)
  then obtain m where "ring s = Some m" by (auto simp: usb_ring_ok_def)
  with 5 show ?case
    by (simp add: usb_content_length)
      (simp add: usb_content_def usb_ring_get_def usb_ring_ok_def ring_bytes_drop)
qed

text \<open>
  Both as the code calls them: a packet that does not fit is left out whole and counted, a read
  takes what there is up to its capacity.
\<close>

lemma usb_ring_put_fields [simp]:
  "rx (usb_ring_put u xs) = rx u" "rx_flying (usb_ring_put u xs) = rx_flying u"
  "rx_error (usb_ring_put u xs) = rx_error u" "stopping (usb_ring_put u xs) = stopping u"
  "events_started (usb_ring_put u xs) = events_started u"
  by (simp_all add: usb_ring_put_def Let_def)

lemma usb_ring_get_fields [simp]:
  "rx (snd (usb_ring_get u n)) = rx u" "rx_flying (snd (usb_ring_get u n)) = rx_flying u"
  "rx_error (snd (usb_ring_get u n)) = rx_error u" "stopping (snd (usb_ring_get u n)) = stopping u"
  "ring_dropped (snd (usb_ring_get u n)) = ring_dropped u"
  "events_started (snd (usb_ring_get u n)) = events_started u"
  by (simp_all add: usb_ring_get_def Let_def)

lemma usb_ring_put_cases:
  assumes "usb_ring_ok u"
  shows "usb_ring_ok (usb_ring_put u xs) \<and>
    (if USB_RING_BYTES - ring_used u < length xs
     then usb_content (usb_ring_put u xs) = usb_content u \<and>
          ring_dropped (usb_ring_put u xs) = ring_dropped u + length xs
     else usb_content (usb_ring_put u xs) = usb_content u @ xs \<and>
          ring_dropped (usb_ring_put u xs) = ring_dropped u)"
proof (cases "USB_RING_BYTES - ring_used u < length xs")
  case True
  with assms show ?thesis by (auto simp: usb_ring_put_def usb_ring_ok_def usb_content_def Let_def)
next
  case False
  then have "length (usb_content u) + length xs \<le> USB_RING_BYTES"
    using assms by (auto simp: usb_content_length usb_ring_ok_def)
  with assms False urx.put_ok [of u xs] urx.put_content [of u xs] show ?thesis
    by (simp add: usb_ring_put_def Let_def)
qed

lemma usb_ring_get_spec:
  assumes "usb_ring_ok u"
  shows "usb_ring_ok (snd (usb_ring_get u n))" and "fst (usb_ring_get u n) = take n (usb_content u)"
    and "usb_content (snd (usb_ring_get u n)) = drop n (usb_content u)"
proof -
  have len: "length (usb_content u) = ring_used u" using assms by (rule usb_content_length)
  let ?k = "min n (ring_used u)"
  have eq: "usb_ring_get u n = usb_ring_get u ?k" by (simp add: usb_ring_get_def min_def Let_def)
  have "?k \<le> length (usb_content u)" by (simp add: len)
  note get = urx.get_ok [OF assms this] urx.get_bytes [OF assms this] urx.get_content [OF assms this]
  show "usb_ring_ok (snd (usb_ring_get u n))" "fst (usb_ring_get u n) = take n (usb_content u)"
    "usb_content (snd (usb_ring_get u n)) = drop n (usb_content u)"
    unfolding eq using get len by (simp_all add: min_def)
qed

section \<open>Posting and completing reads\<close>

definition rx_fail :: "op_status \<Rightarrow> op_usb \<Rightarrow> op_usb" where
  "rx_fail st u = (if rx_error u \<noteq> OP_ERR_NO_DEVICE then u\<lparr>rx_error := st\<rparr> else u)"

definition rx_submit :: "libusb_error \<Rightarrow> nat \<Rightarrow> op_usb \<Rightarrow> op_usb" where
  "rx_submit r i u =
    (if r = LIBUSB_SUCCESS then
       u\<lparr>rx := (rx u)(i := (rx u i)\<lparr>flying := True\<rparr>), rx_flying := rx_flying u + 1\<rparr>
     else rx_fail (from_libusb r) u)"

text \<open>
  The callback of slot \<open>i\<close>: \<open>got\<close> are the \<open>actual_length\<close> bytes of its buffer, \<open>r\<close> the code of the
  submission where there is one.
\<close>

definition rx_done :: "transfer_status \<Rightarrow> u8 list \<Rightarrow> libusb_error \<Rightarrow> nat \<Rightarrow> op_usb \<Rightarrow> op_usb" where
  "rx_done status got r i u =
    (let u = u\<lparr>rx := (rx u)(i := (rx u i)\<lparr>flying := False\<rparr>), rx_flying := rx_flying u - 1,
               rx_batch := rx_batch u + 1\<rparr> in
     case status of
       LIBUSB_TRANSFER_COMPLETED \<Rightarrow>
         let u = (if length got > 0 then usb_ring_put u got else u)
         in if \<not> stopping u then rx_submit r i u else u
     | LIBUSB_TRANSFER_CANCELLED \<Rightarrow> u
     | LIBUSB_TRANSFER_NO_DEVICE \<Rightarrow> rx_fail OP_ERR_NO_DEVICE u
     | _ \<Rightarrow> rx_fail OP_ERR_IO u)"

text \<open>The event thread after a call of libusb's event handling.\<close>

definition rx_events_turn :: "op_usb \<Rightarrow> op_usb" where
  "rx_events_turn u =
    (let u = (if rx_batch u > rx_batch_most u then u\<lparr>rx_batch_most := rx_batch u\<rparr> else u)
     in u\<lparr>rx_batch := 0\<rparr>)"

text \<open>
  The posting loops, with \<open>k\<close> slots left. \<open>rx_start\<close> posts every read, \<open>usb_read\<close> those that are
  not flying; both stop at an error. \<open>sub i\<close> is the code for the submission of slot \<open>i\<close>.
\<close>

fun post_all :: "(nat \<Rightarrow> libusb_error) \<Rightarrow> nat \<Rightarrow> op_usb \<Rightarrow> op_usb" where
  "post_all sub 0 u = u"
| "post_all sub (Suc k) u =
    (if rx_error u = OP_OK then
       let i = USB_RX_TRANSFERS - Suc k in post_all sub k (rx_submit (sub i) i u)
     else u)"

fun post_idle :: "(nat \<Rightarrow> libusb_error) \<Rightarrow> nat \<Rightarrow> op_usb \<Rightarrow> op_usb" where
  "post_idle sub 0 u = u"
| "post_idle sub (Suc k) u =
    (if rx_error u = OP_OK then
       let i = USB_RX_TRANSFERS - Suc k
       in post_idle sub k (if \<not> flying (rx u i) then rx_submit (sub i) i u else u)
     else u)"

section \<open>Reading\<close>

text \<open>The region of \<open>usb_read\<close> after its wait; the third result is the count it logs.\<close>

definition read_region ::
  "(nat \<Rightarrow> libusb_error) \<Rightarrow> nat \<Rightarrow> op_usb \<Rightarrow> op_status \<times> u8 list \<times> nat \<times> op_usb" where
  "read_region sub cap u =
    (let (st, got, u) =
       (if ring_used u > 0 then
          let (got, u) = usb_ring_get u cap in (OP_OK, got, u)
        else if rx_error u \<noteq> OP_OK then
          (rx_error u, [],
           if rx_error u \<noteq> OP_ERR_NO_DEVICE
           then post_idle sub USB_RX_TRANSFERS (u\<lparr>rx_error := OP_OK\<rparr>) else u)
        else (OP_ERR_TIMEOUT, [], u))
     in (st, got, ring_dropped u, u\<lparr>ring_dropped := 0\<rparr>))"

text \<open>
  What other threads do while the lock is free: a callback, or the end of a round of the event
  thread. libusb calls back a transfer it has, with at most what its buffer holds; a read ends
  as cancelled only where it was, and only \<open>rx_stop\<close> cancels.
\<close>

datatype rx_event =
    Done nat transfer_status "u8 list" libusb_error
  | Round

fun rx_can :: "rx_event \<Rightarrow> op_usb \<Rightarrow> bool" where
  "rx_can (Done i status got r) u \<longleftrightarrow>
     i < USB_RX_TRANSFERS \<and> flying (rx u i) \<and> length got \<le> USB_RX_LEN \<and>
     (status = LIBUSB_TRANSFER_CANCELLED \<longrightarrow> stopping u)"
| "rx_can Round u \<longleftrightarrow> events_started u"

fun rx_apply :: "rx_event \<Rightarrow> op_usb \<Rightarrow> op_usb" where
  "rx_apply (Done i status got r) u = rx_done status got r i u"
| "rx_apply Round u = rx_events_turn u"

definition rx_event_step :: "rx_event \<Rightarrow> op_usb \<Rightarrow> op_usb" where
  "rx_event_step e u = (if rx_can e u then rx_apply e u else u)"

text \<open>
  One return of \<open>pthread_cond_timedwait\<close>: what happened meanwhile, and whether it timed out. A
  schedule that ends means the deadline.
\<close>

type_synonym wakeup = "rx_event list \<times> bool"

fun read_wait :: "wakeup list \<Rightarrow> op_usb \<Rightarrow> op_usb" where
  "read_wait [] u = u"
| "read_wait ((evs, timedout) # ws) u =
    (if ring_used u = 0 \<and> rx_error u = OP_OK then
       let u = fold rx_event_step evs u
       in if timedout then u else read_wait ws u
     else u)"

text \<open>\<open>usb_read\<close> with the pointers it requires: the status, the bytes, the count it logs.\<close>

definition usb_read ::
  "wakeup list \<Rightarrow> (nat \<Rightarrow> libusb_error) \<Rightarrow> nat \<Rightarrow> op_usb \<Rightarrow>
   op_status \<times> u8 list \<times> nat \<times> op_usb" where
  "usb_read ws sub cap u =
    (if cap = 0 then (OP_ERR_PARAM, [], 0, u)
     else read_region sub cap (read_wait ws u))"

section \<open>Start and stop\<close>

text \<open>What a start meets: the allocations of the ring and of each slot, the thread, the submissions.\<close>

record start_env =
  s_ring :: "mem option"
  s_transfer :: "nat \<Rightarrow> bool"
  s_buffer :: "nat \<Rightarrow> bool"
  s_thread :: bool
  s_submit :: "nat \<Rightarrow> libusb_error"

fun alloc_slots :: "start_env \<Rightarrow> nat \<Rightarrow> op_usb \<Rightarrow> bool \<times> op_usb" where
  "alloc_slots e 0 u = (True, u)"
| "alloc_slots e (Suc k) u =
    (let i = USB_RX_TRANSFERS - Suc k;
         u = u\<lparr>rx := (rx u)(i := (rx u i)\<lparr>xfer := s_transfer e i\<rparr>)\<rparr>
     in if \<not> s_transfer e i \<or> \<not> s_buffer e i then (False, u) else alloc_slots e k u)"

definition rx_start :: "start_env \<Rightarrow> op_usb \<Rightarrow> op_status \<times> op_usb" where
  "rx_start e u =
    (let u = u\<lparr>ring := s_ring e\<rparr> in
     if ring u = None then (OP_ERR_IO, u)
     else
       let (done', u) = alloc_slots e USB_RX_TRANSFERS u in
       if \<not> done' then (OP_ERR_IO, u)
       else if \<not> s_thread e then (OP_ERR_IO, u)
       else
         let u = u\<lparr>events_started := True\<rparr>;
             u = post_all (s_submit e) USB_RX_TRANSFERS u
         in (rx_error u, u))"

text \<open>
  \<open>rx_stop\<close>: the first region marks the end and cancels (libusb answers with callbacks), then the
  wait, what happens until the event thread is joined, and the frees.
\<close>

definition rx_cancel :: "op_usb \<Rightarrow> op_usb" where
  "rx_cancel u = u\<lparr>stopping := True\<rparr>"

fun stop_wait :: "wakeup list \<Rightarrow> op_usb \<Rightarrow> op_usb" where
  "stop_wait [] u = u"
| "stop_wait ((evs, timedout) # ws) u =
    (if rx_flying u > 0 \<and> events_started u then
       let u = fold rx_event_step evs u
       in if timedout then u else stop_wait ws u
     else u)"

definition rx_free :: "op_usb \<Rightarrow> op_usb" where
  "rx_free u =
     u\<lparr>rx := (\<lambda>i. if i < USB_RX_TRANSFERS \<and> \<not> flying (rx u i) then (rx u i)\<lparr>xfer := False\<rparr> else rx u i),
       ring := None\<rparr>"

definition rx_stop :: "wakeup list \<Rightarrow> rx_event list \<Rightarrow> op_usb \<Rightarrow> op_usb" where
  "rx_stop ws late u =
    (let u = stop_wait ws (rx_cancel u);
         u = (if events_started u
              then (fold rx_event_step late (u\<lparr>events_stop := True\<rparr>))\<lparr>events_started := False\<rparr>
              else u)
     in rx_free u)"

text \<open>The driver's state at a start: the zeroed allocation with what the open filled in.\<close>

definition usb0 :: "nat \<Rightarrow> u32 \<Rightarrow> u8 \<Rightarrow> u8 \<Rightarrow> op_usb" where
  "usb0 intf bound i o' =
     \<lparr>interface_num = intf, claimed = True, kernel_bound = bound, ep_in = i, ep_out = o',
      rx = (\<lambda>_. \<lparr>xfer = False, flying = False\<rparr>), rx_flying = 0, rx_batch = 0, rx_batch_most = 0,
      rx_error = OP_OK, stopping = False, ring = None, ring_head = 0, ring_used = 0,
      ring_dropped = 0, events_started = False, events_stop = False\<rparr>"

section \<open>Steps and paths\<close>

text \<open>The label of a step: the packet a callback brought, or what a read returned and logged.\<close>

datatype usb_label =
    Quiet
  | In "u8 list"
  | Out op_status "u8 list" nat

inductive usb_step :: "op_usb \<Rightarrow> usb_label \<Rightarrow> op_usb \<Rightarrow> bool" where
  callback: "rx_can (Done i status got r) u \<Longrightarrow>
    usb_step u (In (if status = LIBUSB_TRANSFER_COMPLETED then got else [])) (rx_done status got r i u)"
| round: "events_started u \<Longrightarrow> usb_step u Quiet (rx_events_turn u)"
| read: "0 < cap \<Longrightarrow> read_region sub cap u = (st, got, lost, u') \<Longrightarrow> usb_step u (Out st got lost) u'"
| cancel: "usb_step u Quiet (rx_cancel u)"

inductive_cases InE: "usb_step u (In xs) u'"
inductive_cases OutE: "usb_step u (Out st got lost) u'"
inductive_cases QuietE: "usb_step u Quiet u'"

inductive usb_path :: "op_usb \<Rightarrow> usb_label list \<Rightarrow> op_usb \<Rightarrow> bool" where
  stay: "usb_path u [] u"
| go: "usb_path u ls v \<Longrightarrow> usb_step v l w \<Longrightarrow> usb_path u (ls @ [l]) w"

lemma usb_path_trans: "usb_path v ms w \<Longrightarrow> usb_path u ls v \<Longrightarrow> usb_path u (ls @ ms) w"
proof (induction v ms w rule: usb_path.induct)
  case (go v ms w l x)
  then show ?case using usb_path.go [of u "ls @ ms" w l x] by simp
qed simp

text \<open>What a path brought in, gave out and reported as lost.\<close>

fun came_in :: "usb_label list \<Rightarrow> u8 list list" where
  "came_in [] = []"
| "came_in (In xs # ls) = xs # came_in ls"
| "came_in (_ # ls) = came_in ls"

fun went_out :: "usb_label list \<Rightarrow> (op_status \<times> u8 list) list" where
  "went_out [] = []"
| "went_out (Out st got n # ls) = (st, got) # went_out ls"
| "went_out (_ # ls) = went_out ls"

fun reported :: "usb_label list \<Rightarrow> nat" where
  "reported [] = 0"
| "reported (Out st got n # ls) = n + reported ls"
| "reported (_ # ls) = reported ls"

abbreviation out_bytes :: "usb_label list \<Rightarrow> u8 list" where
  "out_bytes ls \<equiv> concat (map snd (went_out ls))"

lemma labels_append [simp]:
  "came_in (ls @ ms) = came_in ls @ came_in ms"
  "went_out (ls @ ms) = went_out ls @ went_out ms"
  "reported (ls @ ms) = reported ls + reported ms"
  by (induction ls rule: came_in.induct) auto

section \<open>What each region does to the ring and to the reads\<close>

text \<open>Only the ring and the reads matter to a region that does neither put nor get.\<close>

definition same_ring :: "op_usb \<Rightarrow> op_usb \<Rightarrow> bool" where
  "same_ring u v \<longleftrightarrow> ring v = ring u \<and> ring_head v = ring_head u \<and> ring_used v = ring_used u \<and>
     ring_dropped v = ring_dropped u"

lemma same_ring_content: "same_ring u v \<Longrightarrow> usb_content v = usb_content u"
  and same_ring_ok: "same_ring u v \<Longrightarrow> usb_ring_ok v = usb_ring_ok u"
  by (simp_all add: same_ring_def usb_content_def usb_ring_ok_def split: option.split)

lemma same_ring_trans: "same_ring u v \<Longrightarrow> same_ring v w \<Longrightarrow> same_ring u w"
  by (simp add: same_ring_def)

lemma same_ring_region [simp]:
  "same_ring u u" "same_ring u (rx_fail st u)" "same_ring u (rx_submit r i u)"
  "same_ring u (rx_events_turn u)" "same_ring u (rx_cancel u)"
  by (simp_all add: same_ring_def rx_fail_def rx_submit_def rx_events_turn_def rx_cancel_def Let_def)

lemma same_ring_post_idle: "same_ring u (post_idle sub k u)"
proof (induction k arbitrary: u)
  case (Suc k)
  then show ?case by (auto simp: Let_def intro: same_ring_trans [OF same_ring_region(3)])
qed simp

text \<open>The number of reads libusb has.\<close>

definition posted :: "op_usb \<Rightarrow> nat set" where
  "posted u = {i. i < USB_RX_TRANSFERS \<and> flying (rx u i)}"

lemma finite_posted [simp]: "finite (posted u)"
  by (simp add: posted_def)

definition counted :: "op_usb \<Rightarrow> bool" where
  "counted u \<longleftrightarrow> rx_flying u = card (posted u)"

lemma counted_submit:
  assumes "counted u" and "i < USB_RX_TRANSFERS" and "\<not> flying (rx u i)"
  shows "counted (rx_submit r i u)"
proof (cases "r = LIBUSB_SUCCESS")
  case True
  then have "posted (rx_submit r i u) = insert i (posted u)"
    using assms(2) by (auto simp: posted_def rx_submit_def)
  moreover have "i \<notin> posted u" using assms(3) by (simp add: posted_def)
  ultimately show ?thesis using assms(1) True by (simp add: counted_def rx_submit_def)
next
  case False
  then show ?thesis using assms(1) by (simp add: counted_def posted_def rx_submit_def rx_fail_def)
qed

lemma submit_flying:
  "flying (rx (rx_submit r i u) j) \<longleftrightarrow> flying (rx u j) \<or> (j = i \<and> r = LIBUSB_SUCCESS)"
  by (auto simp: rx_submit_def rx_fail_def)

lemma submit_error: "rx_error u = OP_OK \<Longrightarrow> rx_error (rx_submit r i u) = from_libusb r"
  by (simp add: rx_submit_def rx_fail_def from_libusb_def)

lemma submit_stopping [simp]:
  "stopping (rx_submit r i u) = stopping u" "events_started (rx_submit r i u) = events_started u"
  by (simp_all add: rx_submit_def rx_fail_def)

lemma post_idle_stopping [simp]:
  "stopping (post_idle sub k u) = stopping u" "events_started (post_idle sub k u) = events_started u"
  by (induction k arbitrary: u) (simp_all add: Let_def)

lemma post_idle_posted:
  assumes "counted u" and "k \<le> USB_RX_TRANSFERS"
  shows "counted (post_idle sub k u)"
    and "rx_error (post_idle sub k u) = OP_OK \<Longrightarrow>
      flying (rx (post_idle sub k u) j) \<longleftrightarrow> flying (rx u j) \<or> (USB_RX_TRANSFERS - k \<le> j \<and> j < USB_RX_TRANSFERS)"
proof -
  have *: "counted (post_idle sub k u) \<and> (rx_error (post_idle sub k u) = OP_OK \<longrightarrow>
      (\<forall>j. flying (rx (post_idle sub k u) j) \<longleftrightarrow>
        flying (rx u j) \<or> (USB_RX_TRANSFERS - k \<le> j \<and> j < USB_RX_TRANSFERS)))"
    using assms
  proof (induction k arbitrary: u)
    case (Suc k)
    let ?i = "USB_RX_TRANSFERS - Suc k"
    let ?v = "if \<not> flying (rx u ?i) then rx_submit (sub ?i) ?i u else u"
    have v: "counted ?v" using Suc.prems by (simp add: counted_submit)
    have stuck: "rx_error w \<noteq> OP_OK \<Longrightarrow> post_idle sub k w = w" for w by (cases k) simp_all
    show ?case
    proof (cases "rx_error u = OP_OK")
      case True
      have "flying (rx ?v j) \<longleftrightarrow> flying (rx u j) \<or> j = ?i" if "rx_error ?v = OP_OK" for j
        using that submit_error [OF True] by (auto simp: submit_flying split: if_splits)
      moreover have "j = ?i \<or> (USB_RX_TRANSFERS - k \<le> j \<and> j < USB_RX_TRANSFERS) \<longleftrightarrow>
          ?i \<le> j \<and> j < USB_RX_TRANSFERS" for j using Suc.prems(2) by auto
      moreover have "rx_error (post_idle sub k ?v) = OP_OK \<Longrightarrow> rx_error ?v = OP_OK"
        using stuck [of ?v] by fastforce
      moreover note Suc.IH [OF v] Suc.prems(2)
      ultimately show ?thesis using True by (simp only: post_idle.simps Let_def if_True) auto
    qed (use Suc.prems in simp)
  qed auto
  show "counted (post_idle sub k u)" using * by blast
  show "flying (rx (post_idle sub k u) j) \<longleftrightarrow> flying (rx u j) \<or> (USB_RX_TRANSFERS - k \<le> j \<and> j < USB_RX_TRANSFERS)"
    if "rx_error (post_idle sub k u) = OP_OK" using * that by blast
qed


lemma rx_done_ring:
  assumes "usb_ring_ok u" and "xs = (if status = LIBUSB_TRANSFER_COMPLETED then got else [])"
  shows "usb_ring_ok (rx_done status got r i u)"
    and "(usb_content (rx_done status got r i u) = usb_content u \<and>
          ring_dropped (rx_done status got r i u) = ring_dropped u + length xs) \<or>
         (usb_content (rx_done status got r i u) = usb_content u @ xs \<and>
          ring_dropped (rx_done status got r i u) = ring_dropped u)"
proof -
  let ?v = "u\<lparr>rx := (rx u)(i := (rx u i)\<lparr>flying := False\<rparr>), rx_flying := rx_flying u - 1,
              rx_batch := rx_batch u + 1\<rparr>"
  have v: "usb_ring_ok ?v" "usb_content ?v = usb_content u" "ring_dropped ?v = ring_dropped u"
    using assms(1) by (simp_all add: usb_ring_ok_def usb_content_def split: option.split)
  define w where "w = (if xs \<noteq> [] then usb_ring_put ?v xs else ?v)"
  have w: "usb_ring_ok w" "(usb_content w = usb_content u \<and> ring_dropped w = ring_dropped u + length xs) \<or>
      (usb_content w = usb_content u @ xs \<and> ring_dropped w = ring_dropped u)"
    using usb_ring_put_cases [OF v(1), of xs] v(2,3) v(1) unfolding w_def by (auto split: if_splits)
  have same: "same_ring w (rx_done status got r i u)"
    using assms(2) unfolding w_def by (cases status) (simp_all add: rx_done_def Let_def)
  show "usb_ring_ok (rx_done status got r i u)" using w(1) same_ring_ok [OF same] by simp
  show "(usb_content (rx_done status got r i u) = usb_content u \<and>
          ring_dropped (rx_done status got r i u) = ring_dropped u + length xs) \<or>
         (usb_content (rx_done status got r i u) = usb_content u @ xs \<and>
          ring_dropped (rx_done status got r i u) = ring_dropped u)"
    using w(2) unfolding same_ring_content [OF same, symmetric]
    using same unfolding same_ring_def by metis
qed

lemma rx_done_posted:
  assumes "counted u" and "rx_can (Done i status got r) u"
    and "rx_error u = OP_OK \<and> \<not> stopping u \<Longrightarrow> posted u = {..<USB_RX_TRANSFERS}"
  defines "v \<equiv> rx_done status got r i u"
  shows "counted v" and "stopping v = stopping u"
    and "rx_error v = OP_OK \<and> \<not> stopping v \<Longrightarrow> posted v = {..<USB_RX_TRANSFERS}"
proof -
  define a where "a = u\<lparr>rx := (rx u)(i := (rx u i)\<lparr>flying := False\<rparr>),
    rx_flying := rx_flying u - 1, rx_batch := rx_batch u + 1\<rparr>"
  define b where "b = (if length got > 0 then usb_ring_put a got else a)"
  have done': "v = (case status of LIBUSB_TRANSFER_COMPLETED \<Rightarrow> if \<not> stopping b then rx_submit r i b else b
      | LIBUSB_TRANSFER_CANCELLED \<Rightarrow> a | LIBUSB_TRANSFER_NO_DEVICE \<Rightarrow> rx_fail OP_ERR_NO_DEVICE a
      | _ \<Rightarrow> rx_fail OP_ERR_IO a)"
    unfolding v_def rx_done_def Let_def a_def b_def by (rule refl)
  from assms(2) have i: "i < USB_RX_TRANSFERS" "i \<in> posted u" by (simp_all add: posted_def)
  have same: "rx b = rx a" "rx_flying b = rx_flying a" "rx_error b = rx_error u" "stopping b = stopping u"
    and sa: "rx_error a = rx_error u" "stopping a = stopping u"
    by (simp_all add: b_def a_def)
  have pa: "posted a = posted u - {i}" "posted b = posted u - {i}"
    unfolding posted_def same by (auto simp: a_def)
  have a: "counted a" using assms(1) i(2) pa by (simp add: counted_def) (simp add: a_def)
  then have b: "counted b" unfolding counted_def same pa .
  have fl: "\<not> flying (rx b i)" unfolding same by (simp add: a_def)
  have fail: "counted (rx_fail st a)" "stopping (rx_fail st a) = stopping u"
    "st \<noteq> OP_OK \<Longrightarrow> rx_error (rx_fail st a) \<noteq> OP_OK" for st
    using a sa by (auto simp: rx_fail_def counted_def posted_def)
  have again: "rx_error (rx_submit r i b) = OP_OK \<Longrightarrow> rx_error u = OP_OK \<and> r = LIBUSB_SUCCESS"
    using same by (auto simp: rx_submit_def rx_fail_def split: if_splits)
  have again_posted: "posted (rx_submit LIBUSB_SUCCESS i b) = posted u"
    using i pa(2) by (auto simp: posted_def rx_submit_def)
  show "counted v" unfolding done'
    using a b fail(1) counted_submit [OF b i(1) fl] by (simp split: transfer_status.split)
  show st: "stopping v = stopping u" unfolding done' using fail(2) same sa
    by (simp split: transfer_status.split)
  show "posted v = {..<USB_RX_TRANSFERS}" if v: "rx_error v = OP_OK \<and> \<not> stopping v"
  proof (cases "status = LIBUSB_TRANSFER_COMPLETED")
    case True
    with v st have "v = rx_submit r i b" by (simp add: done' same)
    with again v st assms(3) again_posted show ?thesis by metis
  next
    case False
    with v st fail(3) [of OP_ERR_NO_DEVICE] fail(3) [of OP_ERR_IO] assms(2) show ?thesis
      by (cases status) (simp_all add: done')
  qed
qed

lemma read_region_spec:
  assumes "usb_ring_ok u" and "read_region sub cap u = (st, got, lost, u')"
  shows "usb_ring_ok u'" and "got @ usb_content u' = usb_content u" and "lost = ring_dropped u"
    and "ring_dropped u' = 0" and "length got \<le> cap" and "0 < cap \<Longrightarrow> st = OP_OK \<longleftrightarrow> got \<noteq> []"
proof -
  let ?p = "post_idle sub USB_RX_TRANSFERS (u\<lparr>rx_error := OP_OK\<rparr>)"
  have p: "same_ring u ?p"
    using same_ring_post_idle [of "u\<lparr>rx_error := OP_OK\<rparr>"] by (simp add: same_ring_def)
  have clear: "usb_ring_ok (v\<lparr>ring_dropped := 0\<rparr>) = usb_ring_ok v"
    "usb_content (v\<lparr>ring_dropped := 0\<rparr>) = usb_content v" for v
    by (simp_all add: usb_ring_ok_def usb_content_def split: option.split)
  note get = usb_ring_get_spec [OF assms(1), of cap]
  have len: "length (usb_content u) = ring_used u" using assms(1) by (rule usb_content_length)
  have *: "usb_ring_ok u' \<and> got @ usb_content u' = usb_content u \<and> lost = ring_dropped u \<and>
      ring_dropped u' = 0 \<and> length got \<le> cap \<and> (0 < cap \<longrightarrow> (st = OP_OK \<longleftrightarrow> got \<noteq> []))"
  proof (cases "ring_used u > 0")
    case True
    with assms(2) have u': "st = OP_OK" "got = fst (usb_ring_get u cap)"
      "lost = ring_dropped u" "u' = (snd (usb_ring_get u cap))\<lparr>ring_dropped := 0\<rparr>"
      by (simp_all add: read_region_def split_beta)
    from True len have "usb_content u \<noteq> []" by auto
    with get show ?thesis by (simp add: u' clear)
  next
    case False
    with len have e: "usb_content u = []" by simp
    have "lost = ring_dropped u" "u' = ?p\<lparr>ring_dropped := 0\<rparr> \<or> u' = u\<lparr>ring_dropped := 0\<rparr>" "got = []"
      "st \<noteq> OP_OK"
      using False assms(2) p by (auto simp: read_region_def same_ring_def split: if_splits)
    then show ?thesis
      using assms(1) e same_ring_ok [OF p] same_ring_content [OF p] by (auto simp: clear)
  qed
  then show "usb_ring_ok u'" "got @ usb_content u' = usb_content u" "lost = ring_dropped u"
    "ring_dropped u' = 0" "length got \<le> cap" "0 < cap \<Longrightarrow> st = OP_OK \<longleftrightarrow> got \<noteq> []"
    by blast+
qed

lemma read_region_posted:
  assumes "counted u" and "read_region sub cap u = (st, got, lost, u')"
    and "rx_error u = OP_OK \<and> \<not> stopping u \<Longrightarrow> posted u = {..<USB_RX_TRANSFERS}"
  shows "counted u'" and "stopping u' = stopping u" and "events_started u' = events_started u"
    and "rx_error u' = OP_OK \<and> \<not> stopping u' \<Longrightarrow> posted u' = {..<USB_RX_TRANSFERS}"
proof -
  let ?p = "post_idle sub USB_RX_TRANSFERS (u\<lparr>rx_error := OP_OK\<rparr>)"
  have "counted (u\<lparr>rx_error := OP_OK\<rparr>)" using assms(1) by (simp add: counted_def posted_def)
  note post = post_idle_posted [OF this order_refl, of sub]
  have p: "counted ?p" "stopping ?p = stopping u" "events_started ?p = events_started u"
    "rx_error ?p = OP_OK \<Longrightarrow> posted ?p = {..<USB_RX_TRANSFERS}"
    using post by (auto simp: posted_def)
  obtain w where w: "u' = w\<lparr>ring_dropped := 0\<rparr>"
    "w = snd (usb_ring_get u cap) \<or> w = ?p \<or> w = u"
    using assms(2) by (auto simp: read_region_def split: if_splits prod.splits)
  have drop: "posted (v\<lparr>ring_dropped := x\<rparr>) = posted v" "counted (v\<lparr>ring_dropped := x\<rparr>) = counted v" for v x
    by (simp_all add: counted_def posted_def)
  have ring: "posted (snd (usb_ring_get u cap)) = posted u" "counted (snd (usb_ring_get u cap)) = counted u"
    by (simp_all add: counted_def posted_def)
  have w4: "counted w" "stopping w = stopping u" "events_started w = events_started u"
    "rx_error w = OP_OK \<and> \<not> stopping w \<Longrightarrow> posted w = {..<USB_RX_TRANSFERS}"
    using w(2) p assms(1,3) by (elim disjE; simp add: ring)+
  then show "counted u'" "stopping u' = stopping u" "events_started u' = events_started u"
    "rx_error u' = OP_OK \<and> \<not> stopping u' \<Longrightarrow> posted u' = {..<USB_RX_TRANSFERS}"
    unfolding w(1) drop by simp_all
qed


section \<open>The invariant\<close>

text \<open>
  The ring is sound, \<open>rx_flying\<close> is the number of reads libusb has, every transfer is allocated,
  and while nothing is stopping and no error waits to be reported every read is posted.
\<close>

definition usb_ok :: "op_usb \<Rightarrow> bool" where
  "usb_ok u \<longleftrightarrow> usb_ring_ok u \<and> counted u \<and> (\<forall>i < USB_RX_TRANSFERS. xfer (rx u i)) \<and>
     (rx_error u = OP_OK \<and> \<not> stopping u \<longrightarrow> posted u = {..<USB_RX_TRANSFERS})"

lemma xfer_submit [simp]: "xfer (rx (rx_submit r i u) j) = xfer (rx u j)"
  by (simp add: rx_submit_def rx_fail_def)

lemma xfer_post_idle [simp]: "xfer (rx (post_idle sub k u) j) = xfer (rx u j)"
  by (induction k arbitrary: u) (simp_all add: Let_def)

lemma xfer_done [simp]: "xfer (rx (rx_done status got r i u) j) = xfer (rx u j)"
  by (cases status) (simp_all add: rx_done_def Let_def rx_fail_def)

lemma xfer_read_region:
  "read_region sub cap u = (st, got, lost, u') \<Longrightarrow> xfer (rx u' j) = xfer (rx u j)"
  by (auto simp: read_region_def split_beta split: if_splits)

lemma usb_ok_quiet:
  "same_ring u v \<Longrightarrow> rx v = rx u \<Longrightarrow> rx_flying v = rx_flying u \<Longrightarrow> rx_error v = rx_error u \<Longrightarrow>
   (stopping u \<longrightarrow> stopping v) \<Longrightarrow> usb_ok u \<Longrightarrow> usb_ok v"
  using same_ring_ok [of u v] by (auto simp: usb_ok_def counted_def posted_def)

lemma usb_ok_step: "usb_step u l v \<Longrightarrow> usb_ok u \<Longrightarrow> usb_ok v"
proof (induction rule: usb_step.induct)
  case (callback i status got r u)
  then show ?case
    using rx_done_ring(1) [of u _ status got r i] rx_done_posted [of u i status got r]
    by (simp only: usb_ok_def xfer_done) blast
next
  case (round u)
  show ?case by (rule usb_ok_quiet [OF _ _ _ _ _ round.prems]) (simp_all add: rx_events_turn_def same_ring_def Let_def)
next
  case (read cap sub u st got lost u')
  then show ?case
    using read_region_spec(1) [of u sub cap] read_region_posted [OF _ read.hyps(2)]
    by (simp only: usb_ok_def xfer_read_region [OF read.hyps(2)]) blast
next
  case (cancel u)
  show ?case by (rule usb_ok_quiet [OF _ _ _ _ _ cancel.prems]) (simp_all add: rx_cancel_def same_ring_def)
qed

lemma usb_ok_path: "usb_path u ls v \<Longrightarrow> usb_ok u \<Longrightarrow> usb_ok v"
  by (induction rule: usb_path.induct) (auto dest: usb_ok_step)

text \<open>A start that succeeds gives a first state.\<close>

lemma alloc_slots_fields:
  "alloc_slots e k u = (d, v) \<Longrightarrow>
   same_ring u v \<and> (\<forall>j. flying (rx v j) = flying (rx u j)) \<and> rx_flying v = rx_flying u \<and>
   rx_error v = rx_error u \<and> stopping v = stopping u \<and> ring v = ring u"
proof (induction k arbitrary: u)
  case (Suc k)
  then show ?case by (force simp: Let_def same_ring_def split: if_splits)
qed (simp add: same_ring_def)

lemma alloc_slots_all:
  "alloc_slots e k u = (True, v) \<Longrightarrow> k \<le> USB_RX_TRANSFERS \<Longrightarrow>
   xfer (rx v j) \<longleftrightarrow> xfer (rx u j) \<or> (USB_RX_TRANSFERS - k \<le> j \<and> j < USB_RX_TRANSFERS)"
proof (induction k arbitrary: u)
  case (Suc k)
  let ?i = "USB_RX_TRANSFERS - Suc k"
  from Suc.prems have ok: "s_transfer e ?i"
    and rest: "alloc_slots e k (u\<lparr>rx := (rx u)(?i := (rx u ?i)\<lparr>xfer := True\<rparr>)\<rparr>) = (True, v)"
    by (auto simp: Let_def split: if_splits)
  have "j = ?i \<or> (USB_RX_TRANSFERS - k \<le> j \<and> j < USB_RX_TRANSFERS) \<longleftrightarrow> ?i \<le> j \<and> j < USB_RX_TRANSFERS"
    using Suc.prems(2) by auto
  with Suc.IH [OF rest] Suc.prems(2) show ?case by auto
qed auto

lemma post_all_idle:
  "k \<le> USB_RX_TRANSFERS \<Longrightarrow> \<forall>j. USB_RX_TRANSFERS - k \<le> j \<longrightarrow> \<not> flying (rx u j) \<Longrightarrow>
   post_all sub k u = post_idle sub k u"
proof (induction k arbitrary: u)
  case (Suc k)
  let ?i = "USB_RX_TRANSFERS - Suc k"
  have "\<forall>j. USB_RX_TRANSFERS - k \<le> j \<longrightarrow> \<not> flying (rx (rx_submit (sub ?i) ?i u) j)"
    using Suc.prems by (auto simp: submit_flying)
  with Suc show ?case by (simp add: Let_def)
qed simp

definition usb_started :: "op_usb \<Rightarrow> bool" where
  "usb_started u \<longleftrightarrow> (\<exists>e intf bound i o'. rx_start e (usb0 intf bound i o') = (OP_OK, u))"

lemma rx_start_ok:
  assumes "rx_start e (usb0 intf bound i o') = (OP_OK, u)"
  shows "usb_ok u" and "usb_content u = []" and "ring_dropped u = 0" and "\<not> stopping u"
    and "rx_error u = OP_OK" and "events_started u"
proof -
  let ?u = "(usb0 intf bound i o')\<lparr>ring := s_ring e\<rparr>"
  obtain m v where ring: "s_ring e = Some m" and alloc: "alloc_slots e USB_RX_TRANSFERS ?u = (True, v)"
    and u: "u = post_all (s_submit e) USB_RX_TRANSFERS (v\<lparr>events_started := True\<rparr>)" and ok: "rx_error u = OP_OK"
    using assms by (auto simp: rx_start_def Let_def split: if_splits prod.splits)
  let ?v = "v\<lparr>events_started := True\<rparr>"
  have v: "same_ring ?u v" "\<forall>j. \<not> flying (rx v j)" "rx_flying v = 0" "rx_error v = OP_OK" "\<not> stopping v"
    "ring v = Some m"
    using alloc_slots_fields [OF alloc] ring by (simp_all add: usb0_def)
  have x: "\<forall>j < USB_RX_TRANSFERS. xfer (rx v j)" using alloc_slots_all [OF alloc] by simp
  have "u = post_idle (s_submit e) USB_RX_TRANSFERS ?v"
    unfolding u using v(2) by (intro post_all_idle) simp_all
  moreover have "counted ?v" using v(2,3) by (simp add: counted_def posted_def)
  note post = post_idle_posted [OF this order_refl, of "s_submit e"]
  moreover have sv: "usb_ring_ok ?v" "usb_content ?v = []" "ring_dropped ?v = 0"
    using v(1,6) ring by (simp_all add: same_ring_def usb0_def usb_ring_ok_def usb_content_def split: option.split)
  moreover note same_ring_post_idle [of ?v "s_submit e" USB_RX_TRANSFERS]
  ultimately show "usb_ok u" "usb_content u = []" "ring_dropped u = 0" "\<not> stopping u" "rx_error u = OP_OK"
    "events_started u"
    using ok x v(5) post(2) same_ring_ok [of ?v u] same_ring_content [of ?v u]
    by (auto simp: usb_ok_def same_ring_def posted_def)
qed

lemma usb_started_ok:
  "usb_started u \<Longrightarrow> usb_ok u" "usb_started u \<Longrightarrow> usb_content u = []" "usb_started u \<Longrightarrow> ring_dropped u = 0"
  by (auto simp: usb_started_def dest: rx_start_ok)


section \<open>What comes out of the ring\<close>

text \<open>
  The abstract pipe: of the packets that came in, those kept are a subsequence; what was read and
  what is still in the ring are the kept packets' bytes in order; every byte left out is counted.
\<close>

definition delivered :: "usb_label list \<Rightarrow> op_usb \<Rightarrow> bool" where
  "delivered ls u \<longleftrightarrow> (\<exists>kept. subseq kept (came_in ls) \<and> out_bytes ls @ usb_content u = concat kept \<and>
     length (concat (came_in ls)) = length (concat kept) + reported ls + ring_dropped u)"

lemma delivered_step:
  assumes "delivered ls u" and "usb_ok u" and "usb_step u l v"
  shows "delivered (ls @ [l]) v"
proof -
  from assms(1) obtain kept where kept: "subseq kept (came_in ls)"
    "out_bytes ls @ usb_content u = concat kept"
    "length (concat (came_in ls)) = length (concat kept) + reported ls + ring_dropped u"
    by (auto simp: delivered_def)
  have ring: "usb_ring_ok u" using assms(2) by (simp add: usb_ok_def)
  have quiet: "delivered (ls @ [Quiet]) w" if "same_ring u w" for w
    using kept same_ring_content [OF that] that by (auto simp: delivered_def same_ring_def)
  from assms(3) show ?thesis
  proof cases
    case (callback i status got r)
    let ?xs = "if status = LIBUSB_TRANSFER_COMPLETED then got else []"
    from rx_done_ring(2) [OF ring refl, of status got r i]
    consider "usb_content v = usb_content u" "ring_dropped v = ring_dropped u + length ?xs"
      | "usb_content v = usb_content u @ ?xs" "ring_dropped v = ring_dropped u"
      using callback(2) by blast
    then show ?thesis
    proof cases
      case 1
      have "subseq kept (came_in ls @ [?xs])" using kept(1) by (rule list_emb_prefix)
      with 1 kept callback(1) show ?thesis
        by (intro delivered_def [THEN iffD2] exI [of _ kept]) (simp split del: if_split)
    next
      case 2
      have "subseq (kept @ [?xs]) (came_in ls @ [?xs])" using kept(1) by simp
      with 2 kept callback(1) show ?thesis
        by (intro delivered_def [THEN iffD2] exI [of _ "kept @ [?xs]"]) (simp split del: if_split)
    qed
  next
    case round
    then show ?thesis using quiet by simp
  next
    case (read cap sub st got lost)
    note r = read_region_spec [OF ring read(3)]
    have "out_bytes (ls @ [l]) @ usb_content v = concat kept"
      using kept(2) r(2) read(1) by simp
    with kept(1,3) r(3,4) read(1) show ?thesis
      by (intro delivered_def [THEN iffD2] exI [of _ kept]) simp
  next
    case cancel
    then show ?thesis using quiet by simp
  qed
qed

lemma delivered_path:
  "usb_path u ls v \<Longrightarrow> usb_ok u \<Longrightarrow> usb_content u = [] \<Longrightarrow> ring_dropped u = 0 \<Longrightarrow> delivered ls v"
proof (induction rule: usb_path.induct)
  case (stay u)
  then show ?case by (auto simp: delivered_def intro!: exI [of _ "[]"])
next
  case (go u ls v l w)
  then show ?case by (auto intro: delivered_step dest: usb_ok_path)
qed

lemma subseq_concat:
  "subseq xs ys \<Longrightarrow> length (concat xs) \<le> length (concat ys) \<and>
   (length (concat xs) = length (concat ys) \<longrightarrow> concat xs = concat ys)"
  by (induction rule: list_emb.induct) auto

lemma delivered_all:
  assumes "delivered ls u" and "reported ls = 0" and "ring_dropped u = 0"
  shows "out_bytes ls @ usb_content u = concat (came_in ls)"
  using assms subseq_concat by (fastforce simp: delivered_def)

text \<open>Each read returned bytes exactly when its status is good.\<close>

lemma outputs_path:
  "usb_path u ls v \<Longrightarrow> usb_ok u \<Longrightarrow> (st, got) \<in> set (went_out ls) \<Longrightarrow> st = OP_OK \<longleftrightarrow> got \<noteq> []"
proof (induction rule: usb_path.induct)
  case (go u ls v l w)
  have v: "usb_ring_ok v" using usb_ok_path [OF go.hyps(1) go.prems(1)] by (simp add: usb_ok_def)
  from go.prems(2) consider "(st, got) \<in> set (went_out ls)" | lost where "l = Out st got lost"
    by (cases l) auto
  then show ?case
  proof cases
    case 2
    with go.hyps(2) obtain cap sub where "0 < cap" "read_region sub cap v = (st, got, lost, w)"
      by (auto elim: OutE)
    then show ?thesis using read_region_spec(6) [OF v] by blast
  qed (use go in simp)
qed simp

section \<open>\<open>usb_read\<close> is a path\<close>

lemma event_path:
  "\<exists>ls. usb_path u ls (rx_event_step e u) \<and> went_out ls = [] \<and> reported ls = 0"
proof (cases "rx_can e u")
  case True
  then have "\<exists>l. usb_step u l (rx_event_step e u) \<and> went_out [l] = [] \<and> reported [l] = 0"
    by (cases e) (auto simp: rx_event_step_def intro!: exI usb_step.intros(1,2))
  then show ?thesis using usb_path.go [OF usb_path.stay] by fastforce
next
  case False
  then show ?thesis using usb_path.stay by (fastforce simp: rx_event_step_def)
qed

lemma path_after:
  assumes "\<exists>ls. usb_path u ls v \<and> went_out ls = [] \<and> reported ls = 0"
    and "\<exists>ls. usb_path v ls w \<and> went_out ls = os \<and> reported ls = n"
  shows "\<exists>ls. usb_path u ls w \<and> went_out ls = os \<and> reported ls = n"
proof -
  from assms obtain ls ms where "usb_path u ls v" "went_out ls = []" "reported ls = 0"
    "usb_path v ms w" "went_out ms = os" "reported ms = n" by blast
  then show ?thesis by (intro exI [of _ "ls @ ms"]) (simp add: usb_path_trans)
qed

lemma events_path:
  "\<exists>ls. usb_path u ls (fold rx_event_step evs u) \<and> went_out ls = [] \<and> reported ls = 0"
proof (induction evs arbitrary: u)
  case Nil
  then show ?case using usb_path.stay by fastforce
next
  case (Cons e evs)
  from path_after [OF event_path Cons.IH] show ?case by simp
qed

lemma read_wait_path:
  "\<exists>ls. usb_path u ls (read_wait ws u) \<and> went_out ls = [] \<and> reported ls = 0"
proof (induction ws u rule: read_wait.induct)
  case (1 u)
  then show ?case using usb_path.stay by fastforce
next
  case (2 evs timedout ws u)
  show ?case
  proof (cases "ring_used u = 0 \<and> rx_error u = OP_OK \<and> \<not> timedout")
    case True
    from path_after [OF events_path 2 [of "fold rx_event_step evs u"]] True show ?thesis by simp
  next
    case False
    then have "read_wait ((evs, timedout) # ws) u \<in> {u, fold rx_event_step evs u}" by auto
    moreover have "\<exists>ls. usb_path u ls u \<and> went_out ls = [] \<and> reported ls = 0"
      using usb_path.stay by fastforce
    ultimately show ?thesis using events_path [of u evs] by auto
  qed
qed

lemma usb_read_path:
  assumes "0 < cap" and "usb_read ws sub cap u = (st, got, lost, v)"
  shows "\<exists>ls. usb_path u ls v \<and> went_out ls = [(st, got)] \<and> reported ls = lost"
proof -
  have "usb_step (read_wait ws u) (Out st got lost) v"
    using assms by (auto simp: usb_read_def intro: usb_step.read)
  from usb_path.go [OF usb_path.stay this]
  have "\<exists>ls. usb_path (read_wait ws u) ls v \<and> went_out ls = [(st, got)] \<and> reported ls = lost"
    by fastforce
  with read_wait_path show ?thesis by (rule path_after)
qed


section \<open>Stopping\<close>

lemma stop_wait_path: "\<exists>ls. usb_path u ls (stop_wait ws u) \<and> went_out ls = [] \<and> reported ls = 0"
proof (induction ws u rule: stop_wait.induct)
  case (1 u)
  then show ?case using usb_path.stay by fastforce
next
  case (2 evs timedout ws u)
  show ?case
  proof (cases "rx_flying u > 0 \<and> events_started u \<and> \<not> timedout")
    case True
    from path_after [OF events_path 2 [of "fold rx_event_step evs u"]] True show ?thesis by simp
  next
    case False
    then have "stop_wait ((evs, timedout) # ws) u \<in> {u, fold rx_event_step evs u}" by auto
    moreover have "\<exists>ls. usb_path u ls u \<and> went_out ls = [] \<and> reported ls = 0"
      using usb_path.stay by fastforce
    ultimately show ?thesis using events_path [of u evs] by auto
  qed
qed

lemma usb_ok_events: "usb_ok u \<Longrightarrow> usb_ok (fold rx_event_step evs u)"
  using events_path [of u evs] by (auto dest: usb_ok_path)

lemma usb_ok_stop_wait: "usb_ok u \<Longrightarrow> usb_ok (stop_wait ws u)"
  using stop_wait_path [of u ws] by (auto dest: usb_ok_path)

lemma rx_stop_eq:
  assumes "usb_ok u"
  shows "\<exists>w. usb_ok w \<and> rx_stop ws late u = rx_free (w\<lparr>events_started := False\<rparr>)"
proof -
  let ?a = "stop_wait ws (rx_cancel u)"
  have "usb_ok (rx_cancel u)" using usb_step.cancel assms by (rule usb_ok_step)
  then have a: "usb_ok ?a" by (rule usb_ok_stop_wait)
  then have "usb_ok (?a\<lparr>events_stop := True\<rparr>)"
    by (rule usb_ok_quiet [rotated -1]) (simp_all add: same_ring_def)
  then have b: "usb_ok (fold rx_event_step late (?a\<lparr>events_stop := True\<rparr>))" by (rule usb_ok_events)
  show ?thesis
  proof (cases "events_started ?a")
    case True
    then show ?thesis using b by (auto simp: rx_stop_def Let_def)
  next
    case False
    then have "?a\<lparr>events_started := False\<rparr> = ?a" by simp
    with a False show ?thesis by (metis rx_stop_def)
  qed
qed

text \<open>Once stopping, a callback only takes reads away; when each posted read was called back, none is left.\<close>

lemma stopping_done:
  "stopping u \<Longrightarrow> posted (rx_done status got r i u) = posted u - {i} \<and> stopping (rx_done status got r i u)"
  by (cases status) (auto simp: rx_done_def posted_def rx_fail_def Let_def)

lemma stopping_event:
  assumes "stopping u"
  shows "stopping (rx_event_step e u)"
    and "posted (rx_event_step e u) =
      posted u - (case e of Done i status got r \<Rightarrow> if length got \<le> USB_RX_LEN then {i} else {} | Round \<Rightarrow> {})"
  using assms stopping_done [OF assms]
  by (cases e; auto simp: rx_event_step_def rx_events_turn_def posted_def Let_def)+

lemma all_called_back:
  "stopping u \<Longrightarrow> \<forall>i \<in> posted u. \<exists>status got r. Done i status got r \<in> set evs \<and> length got \<le> USB_RX_LEN \<Longrightarrow>
   posted (fold rx_event_step evs u) = {}"
proof (induction evs arbitrary: u)
  case (Cons e evs)
  have "\<forall>i \<in> posted (rx_event_step e u). \<exists>status got r. Done i status got r \<in> set evs \<and> length got \<le> USB_RX_LEN"
    using Cons.prems stopping_event(2) [OF Cons.prems(1), of e] by (fastforce split: rx_event.splits if_splits)
  with Cons.IH [OF stopping_event(1) [OF Cons.prems(1)]] show ?case by simp
qed auto

lemma step_flags:
  "usb_step u l v \<Longrightarrow> events_started v = events_started u \<and> (stopping u \<longrightarrow> stopping v)"
proof (induction rule: usb_step.induct)
  case (callback i status got r u)
  then show ?case by (cases status) (simp_all add: rx_done_def rx_fail_def Let_def)
next
  case (read cap sub u st got lost u')
  then show ?case by (auto simp: read_region_def split_beta split: if_splits)
qed (simp_all add: rx_events_turn_def rx_cancel_def Let_def)

lemma path_flags:
  "usb_path u ls v \<Longrightarrow> events_started v = events_started u \<and> (stopping u \<longrightarrow> stopping v)"
  by (induction rule: usb_path.induct) (auto dest: step_flags)

lemma rx_stop_clean:
  assumes "events_started u" and "i < USB_RX_TRANSFERS"
    and "\<forall>i < USB_RX_TRANSFERS. \<exists>status got r. Done i status got r \<in> set late \<and> length got \<le> USB_RX_LEN"
  shows "\<not> xfer (rx (rx_stop ws late u) i)"
proof -
  let ?a = "stop_wait ws (rx_cancel u)"
  have a: "stopping ?a" "events_started ?a"
    using stop_wait_path [of "rx_cancel u" ws] path_flags [of "rx_cancel u"] assms(1)
    by (auto simp: rx_cancel_def)
  have "posted (fold rx_event_step late (?a\<lparr>events_stop := True\<rparr>)) = {}"
    using a(1) assms(3) by (intro all_called_back) (simp_all add: posted_def)
  with a(2) assms(2) show ?thesis
    by (auto simp: rx_stop_def Let_def rx_free_def posted_def)
qed

section \<open>A start that succeeds\<close>

definition good_start :: start_env where
  "good_start = \<lparr>s_ring = Some (\<lambda>_. 0), s_transfer = (\<lambda>_. True), s_buffer = (\<lambda>_. True), s_thread = True,
     s_submit = (\<lambda>_. LIBUSB_SUCCESS)\<rparr>"

lemma alloc_slots_good: "fst (alloc_slots good_start k u)"
  by (induction k arbitrary: u) (simp_all add: good_start_def Let_def)

lemma post_all_good: "rx_error u = OP_OK \<Longrightarrow> rx_error (post_all (\<lambda>_. LIBUSB_SUCCESS) k u) = OP_OK"
  by (induction k arbitrary: u) (simp_all add: Let_def rx_submit_def)

lemma rx_start_good: "fst (rx_start good_start (usb0 intf bound i o')) = OP_OK"
proof -
  let ?u = "(usb0 intf bound i o')\<lparr>ring := Some (\<lambda>_. 0)\<rparr>"
  obtain v where v: "alloc_slots good_start USB_RX_TRANSFERS ?u = (True, v)"
    using alloc_slots_good [of USB_RX_TRANSFERS ?u] by (metis prod.collapse)
  have "rx_error v = OP_OK" using alloc_slots_fields [OF v] by (simp add: usb0_def)
  with v show ?thesis by (simp add: rx_start_def) (simp add: good_start_def post_all_good)
qed

definition usb_live :: op_usb where
  "usb_live = snd (rx_start good_start (usb0 1 3 130 2))"

lemma usb_live_eq: "rx_start good_start (usb0 1 3 130 2) = (OP_OK, usb_live)"
  using rx_start_good unfolding usb_live_def by (metis prod.collapse)

lemma usb_live_started: "usb_started usb_live"
  unfolding usb_started_def using usb_live_eq by blast

lemma packet_path:
  assumes "usb_ok u" and "rx_error u = OP_OK" and "\<not> stopping u" and "length xs \<le> USB_RX_LEN"
    and "ring_used u + length xs \<le> USB_RING_BYTES"
  shows "\<exists>v. usb_path u [In xs] v \<and> usb_content v = usb_content u @ xs \<and> ring_dropped v = ring_dropped u"
proof -
  let ?v = "rx_done LIBUSB_TRANSFER_COMPLETED xs LIBUSB_SUCCESS 0 u"
  have "0 \<in> posted u" using assms(1-3) by (simp add: usb_ok_def USB_RX_TRANSFERS_def)
  then have "rx_can (Done 0 LIBUSB_TRANSFER_COMPLETED xs LIBUSB_SUCCESS) u" using assms(4) by (simp add: posted_def)
  from usb_path.go [OF usb_path.stay usb_step.callback [OF this]] have "usb_path u [In xs] ?v" by simp
  moreover have "ring_dropped ?v = ring_dropped u"
    using assms(5) by (simp add: rx_done_def rx_submit_def usb_ring_put_def Let_def)
  moreover have "usb_content ?v = usb_content u @ xs"
    using rx_done_ring(2) [of u xs LIBUSB_TRANSFER_COMPLETED xs LIBUSB_SUCCESS 0] assms(1) calculation(2)
    by (auto simp: usb_ok_def)
  ultimately show ?thesis by blast
qed

lemma read_path:
  assumes "usb_ok u" and "usb_content u \<noteq> []" and "0 < cap"
  shows "\<exists>v. usb_step u (Out OP_OK (take cap (usb_content u)) (ring_dropped u)) v \<and>
    usb_content v = drop cap (usb_content u) \<and> ring_dropped v = 0"
proof -
  have ring: "usb_ring_ok u" using assms(1) by (simp add: usb_ok_def)
  with assms(2) have "ring_used u > 0" using usb_content_length [OF ring] by (metis length_greater_0_conv)
  then obtain v where v: "read_region (\<lambda>_. LIBUSB_SUCCESS) cap u = (OP_OK, fst (usb_ring_get u cap), ring_dropped u, v)"
    by (simp add: read_region_def split_beta)
  note spec = read_region_spec [OF ring v] and get = usb_ring_get_spec [OF ring, of cap]
  from spec(2) get(2) have "take cap (usb_content u) @ usb_content v = usb_content u" by simp
  then have "usb_content v = drop cap (usb_content u)"
    by (metis append_take_drop_id same_append_eq)
  with v spec(4) get(2) usb_step.read [OF assms(3) v] show ?thesis by auto
qed

lemma usb_live_run:
  "\<exists>u. usb_path usb_live [In [1, 2, 3], Out OP_OK [1, 2] 0] u \<and> usb_content u = [3] \<and> ring_dropped u = 0"
proof -
  note live = rx_start_ok [OF usb_live_eq]
  have "ring_used usb_live = 0" using live(1,2) usb_content_length [of usb_live] by (simp add: usb_ok_def)
  then obtain v where v: "usb_path usb_live [In [1, 2, 3]] v" "usb_content v = [1, 2, 3]" "ring_dropped v = 0"
    using packet_path [OF live(1,5,4), of "[1, 2, 3]"] live(2,3) by (auto simp: USB_RING_BYTES_def)
  from read_path [OF usb_ok_path [OF v(1) live(1)], of 2] v(2,3)
  obtain w where "usb_step v (Out OP_OK [1, 2] 0) w" "usb_content w = [3]" "ring_dropped w = 0" by auto
  with usb_path.go [OF v(1)] show ?thesis by fastforce
qed

section \<open>Properties\<close>

text \<open>C8. However callbacks, the event thread and reads interleave: what the reads returned, followed
  by what is still in the ring, is a subsequence of the packets that came in, each whole and in order,
  and every byte left out is in the count that the reads reported or the next one will.\<close>

theorem usb_stream:
  assumes "usb_started u0" and "usb_path u0 ls u"
  shows "\<exists>kept. subseq kept (came_in ls) \<and> out_bytes ls @ usb_content u = concat kept \<and>
    length (concat (came_in ls)) = length (concat kept) + reported ls + ring_dropped u"
  using delivered_path [OF assms(2)] usb_started_ok [OF assms(1)] by (simp add: delivered_def)

theorem usb_stream_witness:
  "\<exists>u kept. usb_path usb_live [In [1, 2, 3], Out OP_OK [1, 2] 0] u \<and> subseq kept [[1, 2, 3]] \<and>
     [1, 2] @ usb_content u = concat kept \<and> length (concat kept) = Suc (Suc (Suc 0))"
proof -
  obtain u where u: "usb_path usb_live [In [1, 2, 3], Out OP_OK [1, 2] 0] u" "ring_dropped u = 0"
    using usb_live_run by blast
  from usb_stream [OF usb_live_started u(1)] u show ?thesis by fastforce
qed

text \<open>C9. In every state of a started transport the ring's indices are in bounds, \<open>rx_flying\<close> is the number
  of reads libusb has, every transfer that may be submitted is allocated, and while no error waits to be
  reported and nothing stops, every read is posted: the pipe is never left without one.\<close>

theorem reads_stay_posted:
  assumes "usb_started u0" and "usb_path u0 ls u"
  shows "ring_head u < USB_RING_BYTES \<and> ring_used u \<le> USB_RING_BYTES \<and>
    rx_flying u = card {i. i < USB_RX_TRANSFERS \<and> flying (rx u i)} \<and>
    (\<forall>i < USB_RX_TRANSFERS. xfer (rx u i)) \<and>
    (rx_error u = OP_OK \<and> \<not> stopping u \<longrightarrow> (\<forall>i < USB_RX_TRANSFERS. flying (rx u i)))"
  using usb_ok_path [OF assms(2)] usb_started_ok(1) [OF assms(1)]
  by (auto simp: usb_ok_def usb_ring_ok_def counted_def posted_def)

theorem reads_stay_posted_witness:
  "\<exists>u. usb_path usb_live [In [1, 2, 3], Out OP_OK [1, 2] 0] u \<and> rx_flying u \<le> USB_RX_TRANSFERS \<and>
     (rx_error u = OP_OK \<and> \<not> stopping u \<longrightarrow> flying (rx u 255))"
proof -
  obtain u where u: "usb_path usb_live [In [1, 2, 3], Out OP_OK [1, 2] 0] u"
    using usb_live_run by blast
  have "card {i. i < USB_RX_TRANSFERS \<and> flying (rx u i)} \<le> USB_RX_TRANSFERS"
    using card_mono [of "{..<USB_RX_TRANSFERS}" "{i. i < USB_RX_TRANSFERS \<and> flying (rx u i)}"] by auto
  with reads_stay_posted [OF usb_live_started u] u show ?thesis by (auto simp: USB_RX_TRANSFERS_def)
qed

text \<open>C40. A stop ends the event thread, frees the ring and frees a transfer exactly when libusb does not
  hold it; when every read is called back before the thread is joined, all are freed.\<close>

theorem rx_stop_frees:
  assumes "usb_started u0" and "usb_path u0 ls u"
  shows "ring (rx_stop ws late u) = None \<and> \<not> events_started (rx_stop ws late u) \<and>
    (\<forall>i < USB_RX_TRANSFERS. xfer (rx (rx_stop ws late u) i) = flying (rx (rx_stop ws late u) i)) \<and>
    ((\<forall>i < USB_RX_TRANSFERS. \<exists>status got r. Done i status got r \<in> set late \<and> length got \<le> USB_RX_LEN) \<longrightarrow>
     (\<forall>i < USB_RX_TRANSFERS. \<not> xfer (rx (rx_stop ws late u) i)))"
proof -
  have "events_started u"
    using assms(1) path_flags [OF assms(2)] rx_start_ok(6) by (auto simp: usb_started_def)
  note clean = rx_stop_clean [OF this]
  from rx_stop_eq [OF usb_ok_path [OF assms(2) usb_started_ok(1) [OF assms(1)]]]
  obtain w where "usb_ok w" "rx_stop ws late u = rx_free (w\<lparr>events_started := False\<rparr>)" by blast
  then have "ring (rx_stop ws late u) = None \<and> \<not> events_started (rx_stop ws late u) \<and>
    (\<forall>i < USB_RX_TRANSFERS. xfer (rx (rx_stop ws late u) i) = flying (rx (rx_stop ws late u) i))"
    by (auto simp: usb_ok_def rx_free_def)
  with clean show ?thesis by blast
qed

theorem rx_stop_frees_witness:
  "ring (rx_stop [([], True)] [Done 0 LIBUSB_TRANSFER_CANCELLED [] LIBUSB_SUCCESS] usb_live) = None"
  using rx_stop_frees [OF usb_live_started usb_path.stay] by blast

end
