(* ===== verification/Usb_Bus.thy ===== *)
theory Usb_Bus
  imports Usb_Rx
begin

unbundle bit_operations_syntax

text \<open>
  The rest of src/op_usb.c: the write loop, the search for the bulk pair in the descriptors, the
  open with its diagnosis, and the close that gives the kernel its interfaces back.

  libusb is outside. A descriptor is a record; the answers of a bulk transfer are a function of the
  call; the kernel side of a device is a state of any type \<open>'k\<close> with the five calls on it.
\<close>

section \<open>The text of a failed open\<close>

definition set_detail :: "string \<Rightarrow> string" where
  "set_detail s = take 255 s"

definition op_transport_last_detail :: "string \<Rightarrow> string option" where
  "op_transport_last_detail g_detail = (if g_detail \<noteq> [] then Some g_detail else None)"

section \<open>Writing\<close>

text \<open>
  \<open>bulk n chunk timeout\<close> is the answer to the \<open>n\<close>-th call: the code and how many bytes moved. The
  result is the status and the bytes that reached the pipe. \<open>sent\<close> grows in every round, so the
  loop ends.
\<close>

type_synonym bulk = "nat \<Rightarrow> u8 list \<Rightarrow> u32 \<Rightarrow> libusb_error \<times> int"

function usb_send :: "bulk \<Rightarrow> u32 \<Rightarrow> u8 list \<Rightarrow> nat \<Rightarrow> nat \<Rightarrow> op_status \<times> u8 list" where
  "usb_send bulk timeout_ms buf n at =
    (if at < length buf then
       let chunk = drop at buf;
           r = fst (bulk n chunk timeout_ms);
           moved = snd (bulk n chunk timeout_ms);
           out = take (nat moved) chunk
       in if r \<noteq> LIBUSB_SUCCESS then
            if r = LIBUSB_ERROR_TIMEOUT \<and> moved > 0 then
              let (st, w) = usb_send bulk timeout_ms buf (n + 1) (at + nat moved) in (st, out @ w)
            else if r = LIBUSB_ERROR_TIMEOUT then (OP_ERR_STALLED, out)
            else (from_libusb r, out)
          else if moved \<le> 0 then (OP_ERR_IO, out)
          else let (st, w) = usb_send bulk timeout_ms buf (n + 1) (at + nat moved) in (st, out @ w)
     else (OP_OK, []))"
  by pat_completeness auto
termination by (relation "measure (\<lambda>(bulk, t, buf, n, at). length buf - at)") auto

declare usb_send.simps [simp del]

definition OP_MIN_TIMEOUT_MS :: u32 where "OP_MIN_TIMEOUT_MS = 1"

definition usb_write :: "bulk \<Rightarrow> u8 list \<Rightarrow> u32 \<Rightarrow> op_status \<times> u8 list" where
  "usb_write bulk buf timeout_ms =
    (if length buf > INT_MAX then (OP_ERR_PARAM, [])
     else usb_send bulk (if timeout_ms = 0 then OP_MIN_TIMEOUT_MS else timeout_ms) buf 0 0)"

lemma from_libusb_no_timeout:
  "r \<noteq> LIBUSB_ERROR_TIMEOUT \<Longrightarrow> from_libusb r \<noteq> OP_ERR_TIMEOUT"
  by (cases r) (simp_all add: from_libusb_def)

lemma usb_send_spec:
  assumes "usb_send bulk t buf n at = (st, w)"
  shows "prefix w (drop at buf)" and "st = OP_OK \<Longrightarrow> w = drop at buf" and "st \<noteq> OP_ERR_TIMEOUT"
proof -
  have "prefix w (drop at buf) \<and> (st = OP_OK \<longrightarrow> w = drop at buf) \<and> st \<noteq> OP_ERR_TIMEOUT"
    using assms
  proof (induction "length buf - at" arbitrary: n at st w rule: less_induct)
    case less
    let ?r = "fst (bulk n (drop at buf) t)" and ?m = "snd (bulk n (drop at buf) t)"
    have go: "prefix (take (nat ?m) (drop at buf) @ w') (drop at buf) \<and>
        (st' = OP_OK \<longrightarrow> take (nat ?m) (drop at buf) @ w' = drop at buf) \<and> st' \<noteq> OP_ERR_TIMEOUT"
      if "at < length buf" "?m > 0" "usb_send bulk t buf (n + 1) (at + nat ?m) = (st', w')" for st' w'
    proof -
      have ih: "prefix w' (drop (nat ?m) (drop at buf)) \<and> (st' = OP_OK \<longrightarrow> w' = drop (nat ?m) (drop at buf)) \<and>
          st' \<noteq> OP_ERR_TIMEOUT"
        using less.hyps [OF _ that(3)] that(1,2) by (simp add: add.commute)
      then have "prefix (take (nat ?m) (drop at buf) @ w')
          (take (nat ?m) (drop at buf) @ drop (nat ?m) (drop at buf))"
        by (simp only: same_prefix_prefix)
      with ih show ?thesis by (metis append_take_drop_id)
    qed
    show ?case
    proof (cases "at < length buf \<and> ?m > 0 \<and> (?r = LIBUSB_SUCCESS \<or> ?r = LIBUSB_ERROR_TIMEOUT)")
      case True
      with less.prems obtain w' where "usb_send bulk t buf (n + 1) (at + nat ?m) = (st, w')"
        "w = take (nat ?m) (drop at buf) @ w'"
        by (subst (asm) usb_send.simps) (auto simp: Let_def split: prod.splits if_splits)
      with go True show ?thesis by blast
    next
      case False
      with less.prems show ?thesis
        by (subst (asm) usb_send.simps)
          (auto simp: Let_def take_is_prefix from_libusb_no_timeout split: if_splits)
    qed
  qed
  then show "prefix w (drop at buf)" "st = OP_OK \<Longrightarrow> w = drop at buf" "st \<noteq> OP_ERR_TIMEOUT"
    by simp_all
qed

lemma usb_write_spec:
  assumes "usb_write bulk buf t = (st, w)"
  shows "prefix w buf" and "st = OP_OK \<Longrightarrow> w = buf" and "st \<noteq> OP_ERR_TIMEOUT"
  using assms usb_send_spec [of bulk _ buf 0 0 st w] by (auto simp: usb_write_def split: if_splits)

text \<open>The status for a device that takes no bytes also ends a write that sent some.\<close>

lemma stalled_after_part:
  "usb_write (\<lambda>n chunk t. (LIBUSB_ERROR_TIMEOUT, if n = 0 then 2 else 0)) [1, 2, 3] t = (OP_ERR_STALLED, [1, 2])"
proof -
  let ?bulk = "\<lambda>n chunk t. (LIBUSB_ERROR_TIMEOUT, if n = 0 then 2 else 0)"
  have 1: "usb_send ?bulk t [1, 2, 3] (Suc 0) (Suc (Suc 0)) = (OP_ERR_STALLED, [])" for t
    by (subst usb_send.simps) simp
  have "usb_send ?bulk t [1, 2, 3] 0 0 = (OP_ERR_STALLED, [1, 2])" for t
    by (subst usb_send.simps) (simp add: 1)
  then show ?thesis by (simp add: usb_write_def INT_MAX_def)
qed

section \<open>Descriptors\<close>

record usb_endpoint =
  bEndpointAddress :: u8
  bmAttributes :: u8
  wMaxPacketSize :: "16 word"

record usb_altsetting =
  bInterfaceNumber :: u8
  bInterfaceClass :: u8
  endpoints :: "usb_endpoint list"

type_synonym usb_config = "usb_altsetting list list"

record usb_descriptor =
  idVendor :: "16 word"
  idProduct :: "16 word"
  bDeviceClass :: u8

text \<open>\<open>None\<close> where libusb fails to give the descriptor.\<close>

record usb_device =
  descriptor :: "usb_descriptor option"
  configs :: "usb_config option list"
  active_config :: "usb_config option"

definition OP_VID :: "16 word" where "OP_VID = 0x0403"
definition OP_PID :: "16 word" where "OP_PID = 0xCC4D"
definition OP_PID_STORAGE :: "16 word" where "OP_PID_STORAGE = 0xCC4C"
definition OP_PID_BOOTLOADER :: "16 word" where "OP_PID_BOOTLOADER = 0xCC4B"
definition LIBUSB_CLASS_MASS_STORAGE :: u8 where "LIBUSB_CLASS_MASS_STORAGE = 8"

text \<open>The first bulk IN endpoint with its packet size, and the first bulk OUT one.\<close>

fun scan_endpoints ::
  "usb_endpoint list \<Rightarrow> (u8 \<times> 16 word) option \<Rightarrow> u8 option \<Rightarrow> (u8 \<times> 16 word) option \<times> u8 option" where
  "scan_endpoints [] i out = (i, out)"
| "scan_endpoints (ed # eds) i out =
    (if bmAttributes ed AND 3 \<noteq> 2 then scan_endpoints eds i out
     else if bEndpointAddress ed AND 0x80 \<noteq> 0 then
       scan_endpoints eds
         (if i = None then Some (bEndpointAddress ed, if wMaxPacketSize ed \<noteq> 0 then wMaxPacketSize ed else 64)
          else i) out
     else scan_endpoints eds i (if out = None then Some (bEndpointAddress ed) else out))"

text \<open>Interface, endpoint in, endpoint out, packet size; and whether mass storage was seen.\<close>

type_synonym bulk_pair = "u8 \<times> u8 \<times> u8 \<times> 16 word"

fun find_alt :: "usb_altsetting list \<Rightarrow> bool \<Rightarrow> bulk_pair option \<times> bool" where
  "find_alt [] ms = (None, ms)"
| "find_alt (a # as) ms =
    (if bInterfaceClass a = LIBUSB_CLASS_MASS_STORAGE then find_alt as True
     else case scan_endpoints (endpoints a) None None of
            (Some (i, mps), Some out) \<Rightarrow> (Some (bInterfaceNumber a, i, out, mps), ms)
          | _ \<Rightarrow> find_alt as ms)"

fun find_interface :: "usb_config \<Rightarrow> bool \<Rightarrow> bulk_pair option \<times> bool" where
  "find_interface [] ms = (None, ms)"
| "find_interface (alts # is) ms =
    (case find_alt alts ms of (Some f, ms) \<Rightarrow> (Some f, ms) | (None, ms) \<Rightarrow> find_interface is ms)"

fun find_config :: "usb_config option list \<Rightarrow> bool \<Rightarrow> bulk_pair option \<times> bool" where
  "find_config [] ms = (None, ms)"
| "find_config (None # cs) ms = find_config cs ms"
| "find_config (Some cd # cs) ms =
    (case find_interface cd ms of (Some f, ms) \<Rightarrow> (Some f, ms) | (None, ms) \<Rightarrow> find_config cs ms)"

definition find_bulk_interface :: "usb_device \<Rightarrow> bulk_pair option \<times> bool" where
  "find_bulk_interface d =
    (case descriptor d of
       None \<Rightarrow> (None, False)
     | Some dd \<Rightarrow> find_config (configs d) (bDeviceClass dd = LIBUSB_CLASS_MASS_STORAGE))"

text \<open>What is found is a bulk pair of an interface that is no mass storage.\<close>

lemma scan_endpoints_found:
  "scan_endpoints eds i out = (Some (a, m), Some b) \<Longrightarrow>
   (i = Some (a, m) \<or> (\<exists>ed \<in> set eds. bEndpointAddress ed = a \<and> bmAttributes ed AND 3 = 2 \<and> a AND 0x80 \<noteq> 0)) \<and>
   (out = Some b \<or> (\<exists>ed \<in> set eds. bEndpointAddress ed = b \<and> bmAttributes ed AND 3 = 2 \<and> b AND 0x80 = 0))"
proof (induction eds i out rule: scan_endpoints.induct)
  case (2 ed eds i out)
  let ?in = "bEndpointAddress ed AND 0x80 \<noteq> 0"
  show ?case
  proof (cases "bmAttributes ed AND 3 = 2")
    case False
    with 2 show ?thesis by (simp; blast)
  next
    case True
    with 2 show ?thesis by (cases ?in; cases i; cases out; simp; blast)
  qed
qed simp

definition bulk_pair_of :: "usb_altsetting \<Rightarrow> bulk_pair \<Rightarrow> bool" where
  "bulk_pair_of a f \<longleftrightarrow> (case f of (intf, i, out, mps) \<Rightarrow>
     intf = bInterfaceNumber a \<and> bInterfaceClass a \<noteq> LIBUSB_CLASS_MASS_STORAGE \<and>
     (\<exists>ed \<in> set (endpoints a). bEndpointAddress ed = i \<and> bmAttributes ed AND 3 = 2 \<and> i AND 0x80 \<noteq> 0) \<and>
     (\<exists>ed \<in> set (endpoints a). bEndpointAddress ed = out \<and> bmAttributes ed AND 3 = 2 \<and> out AND 0x80 = 0))"

lemma scan_pair:
  "scan_endpoints (endpoints a) None None = (Some (i, mps), Some out) \<Longrightarrow>
   bInterfaceClass a \<noteq> LIBUSB_CLASS_MASS_STORAGE \<Longrightarrow> bulk_pair_of a (bInterfaceNumber a, i, out, mps)"
  using scan_endpoints_found [of "endpoints a" None None i mps out] by (simp add: bulk_pair_of_def)

lemma find_alt_found: "find_alt as ms = (Some f, ms') \<Longrightarrow> \<exists>a \<in> set as. bulk_pair_of a f"
  by (induction as ms rule: find_alt.induct)
    (auto dest: scan_pair split: if_splits option.splits prod.splits)

lemma find_interface_found:
  "find_interface cd ms = (Some f, ms') \<Longrightarrow> \<exists>alts \<in> set cd. \<exists>a \<in> set alts. bulk_pair_of a f"
  by (induction cd ms rule: find_interface.induct)
    (auto dest: find_alt_found split: option.splits prod.splits)

lemma find_config_found:
  "find_config cs ms = (Some f, ms') \<Longrightarrow>
   \<exists>cd. Some cd \<in> set cs \<and> (\<exists>alts \<in> set cd. \<exists>a \<in> set alts. bulk_pair_of a f)"
  by (induction cs ms rule: find_config.induct)
    (auto dest: find_interface_found split: option.splits prod.splits)

text \<open>Where there is one, it is found.\<close>

lemma scan_endpoints_finds_in:
  "i \<noteq> None \<or> (\<exists>ed \<in> set eds. bmAttributes ed AND 3 = 2 \<and> bEndpointAddress ed AND 0x80 \<noteq> 0) \<Longrightarrow>
   fst (scan_endpoints eds i out) \<noteq> None"
proof (induction eds i out rule: scan_endpoints.induct)
  case (2 ed eds i out)
  then show ?case by (cases "bmAttributes ed AND 3 = 2"; cases "bEndpointAddress ed AND 0x80 = 0"; cases i) auto
qed simp

lemma scan_endpoints_finds_out:
  "out \<noteq> None \<or> (\<exists>ed \<in> set eds. bmAttributes ed AND 3 = 2 \<and> bEndpointAddress ed AND 0x80 = 0) \<Longrightarrow>
   snd (scan_endpoints eds i out) \<noteq> None"
proof (induction eds i out rule: scan_endpoints.induct)
  case (2 ed eds i out)
  then show ?case by (cases "bmAttributes ed AND 3 = 2"; cases "bEndpointAddress ed AND 0x80 = 0"; cases out) auto
qed simp

lemma pair_scanned:
  assumes "bulk_pair_of a f"
  shows "bInterfaceClass a \<noteq> LIBUSB_CLASS_MASS_STORAGE \<and>
    fst (scan_endpoints (endpoints a) None None) \<noteq> None \<and> snd (scan_endpoints (endpoints a) None None) \<noteq> None"
proof -
  from assms obtain e1 e2 where "bInterfaceClass a \<noteq> LIBUSB_CLASS_MASS_STORAGE"
    "e1 \<in> set (endpoints a)" "bmAttributes e1 AND 3 = 2" "bEndpointAddress e1 AND 0x80 \<noteq> 0"
    "e2 \<in> set (endpoints a)" "bmAttributes e2 AND 3 = 2" "bEndpointAddress e2 AND 0x80 = 0"
    by (auto simp: bulk_pair_of_def split: prod.splits)
  then show ?thesis
    by (intro conjI scan_endpoints_finds_in scan_endpoints_finds_out) blast+
qed

lemma find_alt_finds: "a \<in> set as \<Longrightarrow> bulk_pair_of a f \<Longrightarrow> fst (find_alt as ms) \<noteq> None"
proof (induction as arbitrary: ms)
  case (Cons b as)
  let ?scan = "scan_endpoints (endpoints b) None None"
  show ?case
  proof (cases "bInterfaceClass b \<noteq> LIBUSB_CLASS_MASS_STORAGE \<and> fst ?scan \<noteq> None \<and> snd ?scan \<noteq> None")
    case True
    then obtain i mps out where "?scan = (Some (i, mps), Some out)" by (cases ?scan) auto
    with True show ?thesis by simp
  next
    case False
    then have skip: "\<exists>ms'. find_alt (b # as) ms = find_alt as ms'"
      by (cases ?scan; cases "fst ?scan"; cases "snd ?scan") auto
    have "a \<noteq> b"
      using False Cons.prems(2) pair_scanned by blast
    then have "a \<in> set as" using Cons.prems(1) by simp
    with Cons.IH Cons.prems(2) skip show ?thesis by metis
  qed
qed simp

lemma find_interface_finds:
  "alts \<in> set cd \<Longrightarrow> a \<in> set alts \<Longrightarrow> bulk_pair_of a f \<Longrightarrow> fst (find_interface cd ms) \<noteq> None"
  by (induction cd ms rule: find_interface.induct)
    (auto dest: find_alt_finds [of a _ f] split: option.splits prod.splits, (metis find_alt_finds fst_conv)+)

lemma find_config_finds:
  "Some cd \<in> set cs \<Longrightarrow> alts \<in> set cd \<Longrightarrow> a \<in> set alts \<Longrightarrow> bulk_pair_of a f \<Longrightarrow>
   fst (find_config cs ms) \<noteq> None"
  by (induction cs ms rule: find_config.induct)
    (auto split: option.splits prod.splits, (metis find_interface_finds fst_conv)+)


section \<open>The kernel's side of a device\<close>

text \<open>
  The libusb calls on an open device, over whatever state the operating system keeps for it.
  \<open>k_active k num\<close> is 1 where a kernel driver is bound to the interface, 0 where none is, negative
  for an error.
\<close>

record 'k kernel_ops =
  k_active :: "'k \<Rightarrow> nat \<Rightarrow> int"
  k_detach :: "'k \<Rightarrow> nat \<Rightarrow> libusb_error \<times> 'k"
  k_attach :: "'k \<Rightarrow> nat \<Rightarrow> libusb_error \<times> 'k"
  k_claim :: "'k \<Rightarrow> nat \<Rightarrow> libusb_error \<times> 'k"
  k_release :: "'k \<Rightarrow> nat \<Rightarrow> 'k"

fun bound_mask :: "'k kernel_ops \<Rightarrow> 'k \<Rightarrow> usb_config \<Rightarrow> u32 \<Rightarrow> u32" where
  "bound_mask ops k [] bound = bound"
| "bound_mask ops k ([] # cd) bound = bound_mask ops k cd bound"
| "bound_mask ops k ((a # as) # cd) bound =
    (let n = unat (bInterfaceNumber a)
     in bound_mask ops k cd (if n < 32 \<and> k_active ops k n = 1 then bound OR push_bit n 1 else bound))"

definition kernel_bound_interfaces :: "'k kernel_ops \<Rightarrow> 'k \<Rightarrow> usb_device \<Rightarrow> u32" where
  "kernel_bound_interfaces ops k d =
    (case active_config d of None \<Rightarrow> 0 | Some cd \<Rightarrow> bound_mask ops k cd 0)"

text \<open>The loop of \<open>usb_close\<close>, with \<open>n\<close> interface numbers left.\<close>

fun reattach :: "'k kernel_ops \<Rightarrow> u32 \<Rightarrow> nat \<Rightarrow> 'k \<Rightarrow> 'k" where
  "reattach ops bound 0 k = k"
| "reattach ops bound (Suc n) k =
    (let i = 32 - Suc n in
     if bound AND push_bit i 1 = 0 then reattach ops bound n k
     else if k_active ops k i \<noteq> 0 then reattach ops bound n k
     else reattach ops bound n (snd (k_attach ops k i)))"

text \<open>The wakeups and the last callbacks of \<open>rx_stop\<close> are the first two arguments.\<close>

definition usb_close :: "wakeup list \<Rightarrow> rx_event list \<Rightarrow> 'k kernel_ops \<Rightarrow> op_usb \<Rightarrow> 'k \<Rightarrow> op_usb \<times> 'k" where
  "usb_close ws late ops u k =
    (let u = rx_stop ws late u;
         k = (if claimed u then k_release ops k (interface_num u) else k)
     in (u, reattach ops (kernel_bound u) 32 k))"

section \<open>The open\<close>

text \<open>
  A device as the open meets it: what the bus says of it, the operating system's state, and how the
  open, the allocation, the start and (should the start fail) the stop go.
\<close>

record 'k usb_port =
  p_device :: usb_device
  p_kernel :: 'k
  p_open :: libusb_error
  p_calloc :: bool
  p_start :: start_env
  p_stop :: "wakeup list \<times> rx_event list"

text \<open>A turn of the loop over the devices goes on, or returns from the open.\<close>

datatype 'k verdict =
    Next op_status string bool 'k
  | Return op_status string "op_usb option" 'k

definition try_device ::
  "'k kernel_ops \<Rightarrow> (libusb_error \<Rightarrow> string) \<Rightarrow> 'k usb_port \<Rightarrow> op_status \<Rightarrow> string \<Rightarrow> bool \<Rightarrow> 'k verdict" where
  "try_device ops libusb_error_name p st detail ms =
    (let k = p_kernel p in
     case descriptor (p_device p) of
       None \<Rightarrow> Next st detail ms k
     | Some dd \<Rightarrow>
       if idVendor dd \<noteq> OP_VID then Next st detail ms k
       else if idProduct dd = OP_PID_STORAGE then Next st detail True k
       else if idProduct dd = OP_PID_BOOTLOADER then
         Next OP_ERR_NO_DEVICE
           (set_detail (''The OpenPort is in its bootloader (0403:cc4b): a firmware update was interrupted. '' @
              ''Tactrix's Windows driver recovers it.'')) ms k
       else if idProduct dd \<noteq> OP_PID then Next st detail ms k
       else
         let (f, seen) = find_bulk_interface (p_device p); ms = (ms \<or> seen) in
         case f of
           None \<Rightarrow> Next st detail ms k
         | Some (intf, i, out, mps) \<Rightarrow>
           if p_open p \<noteq> LIBUSB_SUCCESS then
             Next (from_libusb (p_open p))
               (set_detail (''found 0403:cc4d but libusb_open failed: '' @ libusb_error_name (p_open p))) ms k
           else
             let bound = kernel_bound_interfaces ops k (p_device p);
                 k = snd (k_detach ops k (unat intf));
                 (r, k) = k_claim ops k (unat intf) in
             if r \<noteq> LIBUSB_SUCCESS then
               Next (from_libusb r)
                 (set_detail (''interface '' @ show_nat (unat intf) @ '' busy: '' @ libusb_error_name r @
                    ''. Another program may have the cable open.'')) ms k
             else if \<not> p_calloc p then
               Return OP_ERR_IO (set_detail ''out of memory'') None (k_release ops k (unat intf))
             else
               let (st, u) = rx_start (p_start p) (usb0 (unat intf) bound i out) in
               if st \<noteq> OP_OK then
                 Return st (set_detail ''could not post the cable's reads'') None
                   (snd (usb_close (fst (p_stop p)) (snd (p_stop p)) ops u k))
               else Return OP_OK detail (Some u) k)"

text \<open>
  The loop, with the status, the detail and the storage flag so far; the last results are the
  transport and the devices' states after.
\<close>

fun try_devices ::
  "'k kernel_ops \<Rightarrow> (libusb_error \<Rightarrow> string) \<Rightarrow> 'k usb_port list \<Rightarrow> op_status \<Rightarrow> string \<Rightarrow> bool \<Rightarrow>
   op_status \<times> string \<times> op_usb option \<times> 'k list" where
  "try_devices ops nm [] st detail ms =
    (if st = OP_ERR_NO_DEVICE \<and> ms then
       (OP_ERR_MASS_STORAGE,
        set_detail (''The OpenPort enumerated as USB mass storage. Remove the '' @
                    ''microSD card and re-plug the cable.''), None, [])
     else if st = OP_ERR_NO_DEVICE \<and> detail = [] then
       (st, set_detail ''No OpenPort (0403:cc4d) found on any USB bus.'', None, [])
     else (st, detail, None, []))"
| "try_devices ops nm (p # ps) st detail ms =
    (case try_device ops nm p st detail ms of
       Return st detail u k \<Rightarrow> (st, detail, u, k # map p_kernel ps)
     | Next st detail ms k \<Rightarrow>
         let (st, detail, u, ks) = try_devices ops nm ps st detail ms in (st, detail, u, k # ks))"

text \<open>\<open>init\<close> is the code of \<open>libusb_init\<close>; \<open>list\<close> the devices, or the code of a failed listing.\<close>

definition op_usb_open ::
  "'k kernel_ops \<Rightarrow> (libusb_error \<Rightarrow> string) \<Rightarrow> libusb_error \<Rightarrow> libusb_error + 'k usb_port list \<Rightarrow>
   op_status \<times> string \<times> op_usb option \<times> 'k list" where
  "op_usb_open ops nm init devs =
    (let detail = [] in
     if init \<noteq> LIBUSB_SUCCESS then
       (from_libusb init, set_detail (''libusb_init failed: '' @ nm init), None, [])
     else case devs of
       Inl r \<Rightarrow> (from_libusb r, set_detail (''libusb_get_device_list failed: '' @ nm r), None, [])
     | Inr ps \<Rightarrow> try_devices ops nm ps OP_ERR_NO_DEVICE detail False)"


section \<open>What a running transport keeps\<close>

definition opened_as :: "op_usb \<Rightarrow> nat \<times> bool \<times> u32 \<times> u8 \<times> u8" where
  "opened_as u = (interface_num u, claimed u, kernel_bound u, ep_in u, ep_out u)"

lemma opened_as_region [simp]:
  "opened_as (rx_fail st u) = opened_as u" "opened_as (rx_submit r i u) = opened_as u"
  "opened_as (usb_ring_put u xs) = opened_as u" "opened_as (snd (usb_ring_get u n)) = opened_as u"
  "opened_as (rx_events_turn u) = opened_as u" "opened_as (rx_cancel u) = opened_as u"
  "opened_as (rx_free u) = opened_as u"
  by (simp_all add: opened_as_def rx_fail_def rx_submit_def usb_ring_put_def usb_ring_get_def
      rx_events_turn_def rx_cancel_def rx_free_def Let_def)

lemma opened_as_update [simp]:
  "opened_as (u\<lparr>rx := a\<rparr>) = opened_as u" "opened_as (u\<lparr>rx_flying := b\<rparr>) = opened_as u"
  "opened_as (u\<lparr>rx_batch := c\<rparr>) = opened_as u" "opened_as (u\<lparr>rx_error := d\<rparr>) = opened_as u"
  "opened_as (u\<lparr>ring := e\<rparr>) = opened_as u" "opened_as (u\<lparr>ring_dropped := f\<rparr>) = opened_as u"
  "opened_as (u\<lparr>events_started := g\<rparr>) = opened_as u" "opened_as (u\<lparr>events_stop := h\<rparr>) = opened_as u"
  by (simp_all add: opened_as_def)

lemma opened_as_post [simp]:
  "opened_as (post_idle sub k u) = opened_as u" "opened_as (post_all sub k u) = opened_as u"
  by (induction k arbitrary: u) (simp_all add: Let_def)

lemma opened_as_done [simp]: "opened_as (rx_done status got r i u) = opened_as u"
  by (cases status) (simp_all add: rx_done_def Let_def)

lemma opened_as_read:
  "read_region sub cap u = (st, got, lost, v) \<Longrightarrow> opened_as v = opened_as u"
  by (auto simp: read_region_def split_beta split: if_splits)

lemma opened_as_step: "usb_step u l v \<Longrightarrow> opened_as v = opened_as u"
  by (induction rule: usb_step.induct) (auto dest: opened_as_read)

lemma opened_as_path: "usb_path u ls v \<Longrightarrow> opened_as v = opened_as u"
  by (induction rule: usb_path.induct) (auto dest: opened_as_step)

lemma opened_as_events [simp]: "opened_as (fold rx_event_step evs u) = opened_as u"
  using events_path [of u evs] by (auto dest: opened_as_path)

lemma opened_as_stop_wait [simp]: "opened_as (stop_wait ws u) = opened_as u"
  using stop_wait_path [of u ws] by (auto dest: opened_as_path)

lemma opened_as_stop [simp]: "opened_as (rx_stop ws late u) = opened_as u"
  by (simp add: rx_stop_def Let_def)

lemma opened_as_alloc: "alloc_slots e k u = (d, v) \<Longrightarrow> opened_as v = opened_as u"
  by (induction k arbitrary: u) (auto simp: Let_def split: if_splits)

lemma opened_as_start: "rx_start e u = (st, v) \<Longrightarrow> opened_as v = opened_as u"
  by (auto simp: rx_start_def Let_def dest: opened_as_alloc split: if_splits prod.splits)

section \<open>Giving the kernel its interfaces back\<close>

lemma bit_mask [simp]: "(b :: u32) AND 2 ^ i = 0 \<longleftrightarrow> \<not> bit b i"
  using bit_iff_and_push_bit_not_eq_0 [of b i] by simp

lemma bit_or_mask: "i < 32 \<Longrightarrow> bit ((b :: u32) OR 2 ^ n) i \<longleftrightarrow> bit b i \<or> n = i"
  by (auto simp: bit_or_iff bit_exp_iff)

definition has_interface :: "usb_config \<Rightarrow> nat \<Rightarrow> bool" where
  "has_interface cd i \<longleftrightarrow> (\<exists>alts \<in> set cd. alts \<noteq> [] \<and> unat (bInterfaceNumber (hd alts)) = i)"

lemma bit_bound_mask:
  "i < 32 \<Longrightarrow> bit (bound_mask ops k cd b) i \<longleftrightarrow> bit b i \<or> (has_interface cd i \<and> k_active ops k i = 1)"
  by (induction ops k cd b rule: bound_mask.induct)
    (auto simp: has_interface_def Let_def bit_or_mask split del: if_split split: if_splits)

text \<open>
  What the code relies on of libusb and the system under it, as libusb documents it. \<open>held k\<close> are the
  interfaces of the device that are claimed; \<open>fit k i\<close> that the device is present, that the platform
  attaches drivers at all, and that it has one for the interface. Asking after such an interface gives no
  error. An attach may refuse, with \<open>LIBUSB_ERROR_BUSY\<close>, while an interface of the device is claimed: it
  binds only when none is. Neither call takes a driver away, and a release gives up one claim.
\<close>

definition driver_laws :: "'k kernel_ops \<Rightarrow> ('k \<Rightarrow> nat set) \<Rightarrow> ('k \<Rightarrow> nat \<Rightarrow> bool) \<Rightarrow> bool" where
  "driver_laws ops held fit \<longleftrightarrow>
     (\<forall>k i. fit k i \<longrightarrow> k_active ops k i = 0 \<or> k_active ops k i = 1) \<and>
     (\<forall>k i. fit k i \<and> held k = {} \<and> k_active ops k i = 0 \<longrightarrow> k_active ops (snd (k_attach ops k i)) i = 1) \<and>
     (\<forall>k i j. k_active ops k j = 1 \<longrightarrow> k_active ops (snd (k_attach ops k i)) j = 1) \<and>
     (\<forall>k i. held (snd (k_attach ops k i)) = held k) \<and> (\<forall>k i. fit (snd (k_attach ops k i)) = fit k) \<and>
     (\<forall>k i. held (k_release ops k i) = held k - {i}) \<and> (\<forall>k i. fit (k_release ops k i) = fit k) \<and>
     (\<forall>k i j. k_active ops k j = 1 \<longrightarrow> k_active ops (k_release ops k i) j = 1)"

lemma driver_lawsD:
  assumes "driver_laws ops held fit"
  shows driver_law_active: "fit k i \<Longrightarrow> k_active ops k i \<noteq> 0 \<Longrightarrow> k_active ops k i = 1"
    and driver_law_binds: "fit k i \<Longrightarrow> held k = {} \<Longrightarrow> k_active ops k i = 0 \<Longrightarrow>
      k_active ops (snd (k_attach ops k i)) i = 1"
    and driver_law_keeps: "k_active ops k j = 1 \<Longrightarrow> k_active ops (snd (k_attach ops k i)) j = 1"
    and driver_law_attach: "held (snd (k_attach ops k i)) = held k" "fit (snd (k_attach ops k i)) = fit k"
    and driver_law_release: "held (k_release ops k i) = held k - {i}" "fit (k_release ops k i) = fit k"
  using assms by (simp_all add: driver_laws_def) metis

lemma reattach_keeps:
  assumes "driver_laws ops held fit"
  shows "k_active ops k j = 1 \<Longrightarrow> k_active ops (reattach ops bound n k) j = 1"
  by (induction n arbitrary: k) (simp_all add: Let_def driver_law_keeps [OF assms])

lemma reattach_holds:
  assumes "driver_laws ops held fit"
  shows "held (reattach ops bound n k) = held k"
  by (induction n arbitrary: k) (simp_all add: Let_def driver_law_attach [OF assms])

lemma reattach_binds:
  assumes laws: "driver_laws ops held fit" and "bit bound i"
  shows "n \<le> 32 \<Longrightarrow> 32 - n \<le> i \<Longrightarrow> i < 32 \<Longrightarrow> fit k i \<Longrightarrow> held k = {} \<Longrightarrow>
    k_active ops (reattach ops bound n k) i = 1"
proof (induction n arbitrary: k)
  case (Suc n)
  show ?case
  proof (cases "i = 32 - Suc n")
    case True
    have now: "k_active ops (reattach ops bound n k') i = 1" if "k_active ops k' i = 1" for k'
      using reattach_keeps [OF laws that] .
    show ?thesis
      using assms(2) Suc.prems True now driver_law_binds [OF laws, of k i] driver_law_active [OF laws, of k i]
      by (auto simp: Let_def)
  next
    case False
    with Suc show ?thesis by (simp add: Let_def driver_law_attach [OF laws])
  qed
qed simp

text \<open>The close, while nothing but its own interface is claimed.\<close>

lemma usb_close_binds:
  assumes laws: "driver_laws ops held fit" and "claimed u" and "held k \<subseteq> {interface_num u}"
  shows "held (snd (usb_close ws late ops u k)) = {}"
    and "bit (kernel_bound u) i \<Longrightarrow> i < 32 \<Longrightarrow> fit k i \<Longrightarrow>
      k_active ops (snd (usb_close ws late ops u k)) i = 1"
proof -
  have same: "kernel_bound (rx_stop ws late u) = kernel_bound u" "claimed (rx_stop ws late u)"
    "interface_num (rx_stop ws late u) = interface_num u"
    using opened_as_stop [of ws late u] assms(2) by (simp_all add: opened_as_def)
  have free: "held (k_release ops k (interface_num u)) = {}"
    using assms(3) by (simp add: driver_law_release [OF laws] subset_singleton_iff)
  show "held (snd (usb_close ws late ops u k)) = {}"
    by (simp add: usb_close_def Let_def same reattach_holds [OF laws] free)
  show "bit (kernel_bound u) i \<Longrightarrow> i < 32 \<Longrightarrow> fit k i \<Longrightarrow> k_active ops (snd (usb_close ws late ops u k)) i = 1"
    using reattach_binds [OF laws, of "kernel_bound u" i 32] free
    by (simp add: usb_close_def Let_def same driver_law_release [OF laws])
qed

section \<open>What an open finds\<close>

text \<open>The device an open took and the transport it made of it.\<close>

definition opened_on :: "'k kernel_ops \<Rightarrow> 'k usb_port \<Rightarrow> op_usb \<Rightarrow> bool" where
  "opened_on ops p u \<longleftrightarrow>
     (\<exists>dd. descriptor (p_device p) = Some dd \<and> idVendor dd = OP_VID \<and> idProduct dd = OP_PID) \<and>
     (\<exists>cd alts a intf mps. Some cd \<in> set (configs (p_device p)) \<and> alts \<in> set cd \<and> a \<in> set alts \<and>
        bulk_pair_of a (intf, ep_in u, ep_out u, mps) \<and> interface_num u = unat intf) \<and>
     claimed u \<and> kernel_bound u = kernel_bound_interfaces ops (p_kernel p) (p_device p) \<and> usb_started u"

lemma find_bulk_interface_found:
  "find_bulk_interface d = (Some f, ms) \<Longrightarrow>
   \<exists>cd alts a. Some cd \<in> set (configs d) \<and> alts \<in> set cd \<and> a \<in> set alts \<and> bulk_pair_of a f"
  by (auto simp: find_bulk_interface_def dest!: find_config_found split: option.splits)

lemma try_device_ok:
  assumes "try_device ops nm p st detail ms = Return st' detail' u' k'"
  shows "st' = OP_OK \<Longrightarrow> \<exists>u. u' = Some u \<and> opened_on ops p u" and "st' \<noteq> OP_OK \<Longrightarrow> u' = None \<and> detail' \<noteq> []"
proof -
  from assms obtain dd intf i out mps seen where d: "descriptor (p_device p) = Some dd" "idVendor dd = OP_VID"
      "idProduct dd = OP_PID" and f: "find_bulk_interface (p_device p) = (Some (intf, i, out, mps), seen)"
    by (auto simp: try_device_def Let_def split: option.splits if_splits prod.splits)
  let ?bound = "kernel_bound_interfaces ops (p_kernel p) (p_device p)"
  obtain st2 u2 where s: "rx_start (p_start p) (usb0 (unat intf) ?bound i out) = (st2, u2)"
    by fastforce
  have *: "(st' = OP_OK \<and> u' = Some u2 \<and> st2 = OP_OK) \<or> (st' \<noteq> OP_OK \<and> u' = None \<and> detail' \<noteq> [])"
    using assms d f s by (auto simp: try_device_def Let_def set_detail_def OP_PID_def OP_PID_STORAGE_def
        OP_PID_BOOTLOADER_def split: if_splits prod.splits)
  have "opened_on ops p u2" if "st2 = OP_OK"
  proof -
    have "opened_as u2 = (unat intf, True, ?bound, i, out)"
      using opened_as_start [OF s] by (simp add: opened_as_def usb0_def)
    moreover have "usb_started u2" using s that unfolding usb_started_def by blast
    ultimately show ?thesis
      using d find_bulk_interface_found [OF f] unfolding opened_on_def opened_as_def by blast
  qed
  with * show "st' = OP_OK \<Longrightarrow> \<exists>u. u' = Some u \<and> opened_on ops p u"
    and "st' \<noteq> OP_OK \<Longrightarrow> u' = None \<and> detail' \<noteq> []" by auto
qed

lemma try_device_next:
  assumes "try_device ops nm p st detail ms = Next st' detail' ms' k'" and "st \<noteq> OP_OK"
    and "st = OP_ERR_NO_DEVICE \<or> detail \<noteq> []"
  shows "st' \<noteq> OP_OK" and "st' = OP_ERR_NO_DEVICE \<or> detail' \<noteq> []"
  using assms by (auto simp: try_device_def Let_def set_detail_def split: option.splits if_splits prod.splits)

lemma try_devices_result:
  "try_devices ops nm ps st detail ms = (st', detail', u', ks) \<Longrightarrow> st \<noteq> OP_OK \<Longrightarrow>
   st = OP_ERR_NO_DEVICE \<or> detail \<noteq> [] \<Longrightarrow>
   length ks = length ps \<and>
   (if st' = OP_OK then \<exists>p u. p \<in> set ps \<and> u' = Some u \<and> opened_on ops p u else u' = None \<and> detail' \<noteq> [])"
proof (induction ps arbitrary: st detail ms st' detail' u' ks)
  case Nil
  then show ?case by (auto simp: set_detail_def split: if_splits)
next
  case (Cons p ps)
  show ?case
  proof (cases "try_device ops nm p st detail ms")
    case (Next st2 detail2 ms2 k2)
    obtain ks2 where "try_devices ops nm ps st2 detail2 ms2 = (st', detail', u', ks2)" "ks = k2 # ks2"
      using Cons.prems(1) Next by (auto split: prod.splits)
    with Cons.IH [OF this(1)] try_device_next [OF Next Cons.prems(2,3)] show ?thesis
      by (auto split: if_splits)
  next
    case (Return st2 detail2 u2 k2)
    with Cons.prems(1) try_device_ok [OF Return] show ?thesis by auto
  qed
qed

lemma op_usb_open_result:
  assumes "op_usb_open ops nm init devs = (st, detail, u', ks)" and "devs \<noteq> Inl LIBUSB_SUCCESS"
  shows "if st = OP_OK then \<exists>ps p u. devs = Inr ps \<and> p \<in> set ps \<and> u' = Some u \<and> opened_on ops p u
    else u' = None \<and> detail \<noteq> []"
proof (cases "init = LIBUSB_SUCCESS \<and> (\<exists>ps. devs = Inr ps)")
  case True
  then obtain ps where "devs = Inr ps" by blast
  with True assms(1) try_devices_result [of ops nm ps OP_ERR_NO_DEVICE "[]" False st detail u' ks] show ?thesis
    by (auto simp: op_usb_open_def split: if_splits)
next
  case False
  with assms show ?thesis
    by (cases devs) (auto simp: op_usb_open_def set_detail_def split: if_splits)
qed

section \<open>A cable on Linux\<close>

text \<open>
  The cable's descriptors, and a kernel whose state is the set of interfaces with a driver and the set of
  those claimed: the driver of the first two interfaces is detached and attached for both, and not
  attached while one of them is claimed.
\<close>

definition cable :: usb_device where
  "cable = (let cfg =
      [[\<lparr>bInterfaceNumber = 0, bInterfaceClass = 2,
         endpoints = [\<lparr>bEndpointAddress = 0x81, bmAttributes = 3, wMaxPacketSize = 16\<rparr>]\<rparr>],
       [\<lparr>bInterfaceNumber = 1, bInterfaceClass = 10,
         endpoints = [\<lparr>bEndpointAddress = 2, bmAttributes = 2, wMaxPacketSize = 64\<rparr>,
                      \<lparr>bEndpointAddress = 0x82, bmAttributes = 2, wMaxPacketSize = 64\<rparr>]\<rparr>]]
    in \<lparr>descriptor = Some \<lparr>idVendor = 0x0403, idProduct = 0xCC4D, bDeviceClass = 2\<rparr>,
        configs = [Some cfg], active_config = Some cfg\<rparr>)"

definition linux_ops :: "(nat set \<times> nat set) kernel_ops" where
  "linux_ops = \<lparr>k_active = (\<lambda>k i. if i \<in> fst k then 1 else 0),
     k_detach = (\<lambda>k i. (LIBUSB_SUCCESS, (if i < 2 then fst k - {0, 1} else fst k - {i}, snd k))),
     k_attach = (\<lambda>k i. if i \<in> snd k \<or> (i < 2 \<and> (0 \<in> snd k \<or> 1 \<in> snd k)) then (LIBUSB_ERROR_BUSY, k)
       else (LIBUSB_SUCCESS, (if i < 2 then fst k \<union> {0, 1} else insert i (fst k), snd k))),
     k_claim = (\<lambda>k i. if i \<in> fst k \<or> i \<in> snd k then (LIBUSB_ERROR_BUSY, k)
       else (LIBUSB_SUCCESS, (fst k, insert i (snd k)))),
     k_release = (\<lambda>k i. (fst k, snd k - {i}))\<rparr>"

definition cable_port :: "(nat set \<times> nat set) usb_port" where
  "cable_port = \<lparr>p_device = cable, p_kernel = ({0, 1}, {}), p_open = LIBUSB_SUCCESS, p_calloc = True,
     p_start = good_start, p_stop = ([], [])\<rparr>"

lemma linux_driver_laws: "driver_laws linux_ops snd (\<lambda>k i. True)"
  by (auto simp: driver_laws_def linux_ops_def)

text \<open>A driver is not given back while the interface is claimed: the close has to release it first.\<close>

lemma claimed_is_busy: "k_attach linux_ops ({}, {1}) 0 = (LIBUSB_ERROR_BUSY, ({}, {1}))"
  by (simp add: linux_ops_def)

lemma cable_found: "find_bulk_interface cable = (Some (1, 0x82, 2, 64), False)"
  by (simp add: find_bulk_interface_def cable_def Let_def LIBUSB_CLASS_MASS_STORAGE_def)

lemma cable_opens: "op_usb_open linux_ops nm LIBUSB_SUCCESS (Inr [cable_port]) = (OP_OK, [], Some usb_live, [({}, {1})])"
proof -
  have "kernel_bound_interfaces linux_ops ({0, 1}, {}) cable = 3"
    by (simp add: kernel_bound_interfaces_def cable_def linux_ops_def Let_def)
  moreover have "descriptor cable = Some \<lparr>idVendor = 0x0403, idProduct = 0xCC4D, bDeviceClass = 2\<rparr>"
    by (simp add: cable_def Let_def)
  ultimately have "try_device linux_ops nm cable_port OP_ERR_NO_DEVICE [] False = Return OP_OK [] (Some usb_live) ({}, {1})"
    using usb_live_eq
    by (simp add: try_device_def cable_port_def cable_found OP_VID_def OP_PID_def OP_PID_STORAGE_def
        OP_PID_BOOTLOADER_def) (simp add: linux_ops_def)
  then show ?thesis by (simp add: op_usb_open_def)
qed

text \<open>
  An open that cannot claim the interface gives up on the device without attaching what it has
  just detached: the kernel's node is gone, although nothing was opened.
\<close>

lemma failed_claim_stays_detached:
  "op_usb_open (linux_ops\<lparr>k_claim := (\<lambda>k i. (LIBUSB_ERROR_BUSY, k))\<rparr>) (\<lambda>_. ''LIBUSB_ERROR_BUSY'')
     LIBUSB_SUCCESS (Inr [cable_port]) =
   (OP_ERR_ACCESS,
    ''interface 1 busy: LIBUSB_ERROR_BUSY. Another program may have the cable open.'', None, [({}, {})])"
proof -
  have "descriptor cable = Some \<lparr>idVendor = 0x0403, idProduct = 0xCC4D, bDeviceClass = 2\<rparr>"
    by (simp add: cable_def Let_def)
  moreover have "show_nat 1 = ''1''" by code_simp
  ultimately show ?thesis
    by (simp add: op_usb_open_def try_device_def cable_port_def cable_found OP_VID_def OP_PID_def
        OP_PID_STORAGE_def OP_PID_BOOTLOADER_def) (simp add: linux_ops_def set_detail_def from_libusb_def)
qed

section \<open>Properties\<close>

text \<open>C11. A USB open that succeeds took a device of the list that is an OpenPort in its normal mode, and a
  bulk pair of an interface that is no mass storage, claimed, with its reads posted; one that fails
  gives no transport and leaves a reason.\<close>

theorem usb_open_sound:
  assumes "op_usb_open ops nm init (Inr ps) = (st, detail, u', ks)"
  shows "if st = OP_OK then \<exists>p \<in> set ps. \<exists>u. u' = Some u \<and> opened_on ops p u
    else u' = None \<and> op_transport_last_detail detail \<noteq> None"
  using op_usb_open_result [OF assms] by (auto simp: op_transport_last_detail_def split: if_splits)

theorem usb_open_sound_witness:
  "opened_on linux_ops cable_port usb_live"
  using usb_open_sound [OF cable_opens] by simp

text \<open>C12. Whatever happened between, a close leaves no interface of the cable claimed, and a kernel driver
  on each one that had one at the open: provided that the transport's interface is the only one claimed
  when it closes, that the device is still there and the platform has a driver for the interface (\<open>fit\<close>).
  libusb is taken to refuse an attach while an interface is claimed, so the release comes first.\<close>

theorem close_gives_back:
  assumes "op_usb_open ops nm init (Inr ps) = (OP_OK, detail, Some u, ks)"
    and "driver_laws ops held fit" and "usb_path u ls v" and "held k \<subseteq> {interface_num v}"
  shows "held (snd (usb_close ws late ops v k)) = {} \<and>
    (\<exists>p \<in> set ps. opened_on ops p u \<and>
      (\<forall>cd i. active_config (p_device p) = Some cd \<and> has_interface cd i \<and> i < 32 \<and>
         k_active ops (p_kernel p) i = 1 \<and> fit k i \<longrightarrow>
         k_active ops (snd (usb_close ws late ops v k)) i = 1))"
proof -
  from op_usb_open_result [OF assms(1)] obtain p where p: "p \<in> set ps" "opened_on ops p u" by auto
  have v: "kernel_bound v = kernel_bound_interfaces ops (p_kernel p) (p_device p)" "claimed v"
    using opened_as_path [OF assms(3)] p(2) by (simp_all add: opened_as_def opened_on_def)
  note closed = usb_close_binds [OF assms(2) v(2) assms(4)]
  have "bit (kernel_bound v) i"
    if "active_config (p_device p) = Some cd" "has_interface cd i" "i < 32" "k_active ops (p_kernel p) i = 1"
    for cd i using that v(1) by (simp add: kernel_bound_interfaces_def bit_bound_mask)
  with closed p show ?thesis by blast
qed

theorem close_gives_back_witness:
  "k_active linux_ops (snd (usb_close [([], True)] [] linux_ops usb_live ({}, {1}))) 0 = 1"
proof -
  have "\<exists>cd. active_config (p_device cable_port) = Some cd \<and> has_interface cd 0"
    by (simp add: cable_port_def cable_def Let_def has_interface_def)
  moreover have "k_active linux_ops (p_kernel cable_port) 0 = 1"
    by (simp add: cable_port_def linux_ops_def)
  moreover have "snd ({} :: nat set, {1}) \<subseteq> {interface_num usb_live}"
    using opened_as_start [OF usb_live_eq] by (simp add: opened_as_def usb0_def)
  ultimately show ?thesis
    using close_gives_back [OF cable_opens linux_driver_laws usb_path.stay] by auto
qed

end
