(* ===== verification/Serial.thy ===== *)
theory Serial
  imports J2534 "HOL-Library.Sublist"
begin

text \<open>
  src/op_serial.c: the character-device transport. The system calls are outside: each call of
  \<open>poll\<close>, \<open>read\<close> and \<open>write\<close> takes its result from a list, and a loop that outlives its list has not
  returned (\<open>None\<close>).
\<close>

section \<open>Errors of the system\<close>

datatype errno = ENOENT | EACCES | EBUSY | EAGAIN | EINVAL | EINTR | EOTHER nat

definition from_errno :: "errno \<Rightarrow> op_status" where
  "from_errno e =
    (case e of
       ENOENT \<Rightarrow> OP_ERR_NO_DEVICE
     | EACCES \<Rightarrow> OP_ERR_ACCESS
     | EBUSY \<Rightarrow> OP_ERR_ACCESS
     | EAGAIN \<Rightarrow> OP_ERR_TIMEOUT
     | EINVAL \<Rightarrow> OP_ERR_PARAM
     | _ \<Rightarrow> OP_ERR_IO)"

lemma from_errno_error [simp]: "from_errno e \<noteq> OP_OK"
  by (cases e) (simp_all add: from_errno_def)

lemma from_errno_timeout [simp]: "from_errno e = OP_ERR_TIMEOUT \<longleftrightarrow> e = EAGAIN"
  by (cases e) (simp_all add: from_errno_def)

section \<open>Waiting for readiness\<close>

record revents =
  POLLIN :: bool
  POLLERR :: bool
  POLLNVAL :: bool
  POLLHUP :: bool

text \<open>A failed \<open>poll\<close>, one that timed out, and one that has events.\<close>

datatype poll_result = Poll_error errno | Poll_timeout | Poll_ready revents

text \<open>
  The timeout given to \<open>poll\<close> is never negative, so never without end. A call is its answer to that
  timeout.
\<close>

type_synonym poll_call = "int \<Rightarrow> poll_result"

definition poll_timeout :: "u32 \<Rightarrow> int" where
  "poll_timeout timeout_ms = int (if unat timeout_ms > INT_MAX then INT_MAX else unat timeout_ms)"

fun wait_ready :: "poll_call list \<Rightarrow> u32 \<Rightarrow> (op_status \<times> poll_call list) option" where
  "wait_ready [] t = None"
| "wait_ready (p # ps) t =
    (case p (poll_timeout t) of
       Poll_error e \<Rightarrow> if e = EINTR then wait_ready ps t else Some (from_errno e, ps)
     | Poll_timeout \<Rightarrow> Some (OP_ERR_TIMEOUT, ps)
     | Poll_ready r \<Rightarrow>
         Some (if POLLERR r \<or> POLLNVAL r then OP_ERR_IO
               else if POLLHUP r \<and> \<not> POLLIN r then OP_ERR_NO_DEVICE
               else OP_OK, ps))"

lemma poll_timeout_bounds: "0 \<le> poll_timeout t" "poll_timeout t \<le> int INT_MAX"
  by (simp_all only: poll_timeout_def of_nat_le_iff of_nat_0_le_iff) simp_all

section \<open>Writing\<close>

text \<open>
  \<open>write\<close> takes some of the bytes, possibly none, or fails. The result is the status and the bytes
  the system took.
\<close>

fun ser_send :: "poll_call list \<Rightarrow> (errno + nat) list \<Rightarrow> u32 \<Rightarrow> u8 list \<Rightarrow> nat \<Rightarrow> (op_status \<times> u8 list) option" where
  "ser_send polls writes t buf at =
    (if at < length buf then
       (case wait_ready polls t of
          None \<Rightarrow> None
        | Some (st, polls) \<Rightarrow>
            if st = OP_ERR_TIMEOUT then Some (OP_ERR_STALLED, [])
            else if st \<noteq> OP_OK then Some (st, [])
            else
              (case writes of
                 [] \<Rightarrow> None
               | Inl e # ws \<Rightarrow>
                   if e = EINTR \<or> e = EAGAIN then ser_send polls ws t buf at
                   else Some (from_errno e, [])
               | Inr n # ws \<Rightarrow>
                   if n = 0 then Some (OP_ERR_IO, [])
                   else
                     (case ser_send polls ws t buf (at + n) of
                        None \<Rightarrow> None
                      | Some (st, w) \<Rightarrow> Some (st, take n (drop at buf) @ w))))
     else Some (OP_OK, []))"

declare ser_send.simps [simp del]

definition ser_write ::
  "poll_call list \<Rightarrow> (errno + nat) list \<Rightarrow> u8 list \<Rightarrow> u32 \<Rightarrow> (op_status \<times> u8 list) option" where
  "ser_write polls writes buf timeout_ms =
    ser_send polls writes (if timeout_ms = 0 then 1 else timeout_ms) buf 0"

section \<open>Reading\<close>

text \<open>\<open>read\<close> gives at most \<open>cap\<close> bytes; no bytes mean that the peer closed.\<close>

fun read_retry :: "(errno + u8 list) list \<Rightarrow> (errno + u8 list) option" where
  "read_retry [] = None"
| "read_retry (r # rs) = (if r = Inl EINTR then read_retry rs else Some r)"

definition ser_read ::
  "poll_call list \<Rightarrow> (errno + u8 list) list \<Rightarrow> nat \<Rightarrow> u32 \<Rightarrow> (op_status \<times> u8 list) option" where
  "ser_read polls reads cap t =
    (if cap = 0 then Some (OP_ERR_PARAM, [])
     else
       (case wait_ready polls t of
          None \<Rightarrow> None
        | Some (st, _) \<Rightarrow>
            if st \<noteq> OP_OK then Some (st, [])
            else
              (case read_retry reads of
                 None \<Rightarrow> None
               | Some (Inl e) \<Rightarrow> Some (if e = EAGAIN then OP_ERR_TIMEOUT else from_errno e, [])
               | Some (Inr got) \<Rightarrow> Some (if got = [] then (OP_ERR_NO_DEVICE, []) else (OP_OK, take cap got)))))"

section \<open>Opening\<close>

text \<open>The flags of a terminal, and its character size and control characters.\<close>

datatype tcflag =
    IGNBRK | BRKINT | PARMRK | ISTRIP | INLCR | IGNCR | ICRNL | IXON | IXOFF | IXANY
  | OPOST
  | ECHO | ECHONL | ICANON | ISIG | IEXTEN
  | PARENB | CSTOPB | CLOCAL | CREAD | CRTSCTS
  | FLAG nat

record termios =
  c_iflag :: "tcflag set"
  c_oflag :: "tcflag set"
  c_lflag :: "tcflag set"
  c_cflag :: "tcflag set"
  c_csize :: nat
  c_vmin :: nat
  c_vtime :: nat

definition raw :: "termios \<Rightarrow> termios" where
  "raw tio = tio\<lparr>
     c_iflag := c_iflag tio - {IGNBRK, BRKINT, PARMRK, ISTRIP, INLCR, IGNCR, ICRNL, IXON, IXOFF, IXANY},
     c_oflag := c_oflag tio - {OPOST},
     c_lflag := c_lflag tio - {ECHO, ECHONL, ICANON, ISIG, IEXTEN},
     c_cflag := ((c_cflag tio - {PARENB, CSTOPB}) \<union> {CLOCAL, CREAD}) - {CRTSCTS},
     c_csize := 8, c_vmin := 0, c_vtime := 0\<rparr>"

text \<open>
  What an open meets: the result of \<open>open\<close>, the terminal where the node is one, whether its settings
  can be set, the allocation. The exclusive access is asked for; a refusal is only logged.
\<close>

record serial_env =
  s_open :: "errno + int"
  s_tio :: "termios option"
  s_setattr :: bool
  s_calloc :: bool

text \<open>The status, the descriptor of the new transport, the terminal's settings after.\<close>

definition op_serial_open :: "serial_env \<Rightarrow> op_status \<times> int option \<times> termios option" where
  "op_serial_open e =
    (case s_open e of
       Inl err \<Rightarrow> (from_errno err, None, s_tio e)
     | Inr fd \<Rightarrow>
       let tio = (case s_tio e of
                    Some t \<Rightarrow> Some (if s_setattr e then raw t else t)
                  | None \<Rightarrow> None)
       in if \<not> s_calloc e then (OP_ERR_IO, None, tio) else (OP_OK, Some fd, tio))"

section \<open>Finding the node\<close>

text \<open>
  On macOS: the serial services of the registry, each with the vendor and the product of its device
  (-1 where there is none) and its callout path. The path must fit \<open>cap\<close> bytes with its terminator.
\<close>

record io_service =
  io_vendor :: int
  io_product :: int
  io_callout :: "string option"

fun find_service :: "io_service list \<Rightarrow> 16 word \<Rightarrow> 16 word \<Rightarrow> nat \<Rightarrow> string option" where
  "find_service [] vid pid cap = None"
| "find_service (s # ss) vid pid cap =
    (if io_vendor s = uint vid \<and> io_product s = uint pid then
       (case io_callout s of
          Some path \<Rightarrow> if length path < cap then Some path else find_service ss vid pid cap
        | None \<Rightarrow> find_service ss vid pid cap)
     else find_service ss vid pid cap)"

text \<open>\<open>Some ss\<close>: macOS, with its services (\<open>None\<close> where they cannot be listed); \<open>None\<close>: another system.\<close>

definition op_serial_find ::
  "io_service list option option \<Rightarrow> 16 word \<Rightarrow> 16 word \<Rightarrow> nat \<Rightarrow> op_status \<times> string option" where
  "op_serial_find os vid pid cap =
    (case os of
       None \<Rightarrow> (OP_ERR_NO_DEVICE, None)
     | Some services \<Rightarrow>
       if cap = 0 then (OP_ERR_PARAM, None)
       else case services of
         None \<Rightarrow> (OP_ERR_NO_DEVICE, None)
       | Some ss \<Rightarrow>
           (case find_service ss vid pid cap of
              Some path \<Rightarrow> (OP_OK, Some path)
            | None \<Rightarrow> (OP_ERR_NO_DEVICE, None)))"

section \<open>Returning\<close>

text \<open>The answers that do not send the loops round again for nothing.\<close>

definition poll_counts :: "u32 \<Rightarrow> poll_call \<Rightarrow> bool" where
  "poll_counts t p \<longleftrightarrow> p (poll_timeout t) \<noteq> Poll_error EINTR"

definition write_counts :: "errno + nat \<Rightarrow> bool" where
  "write_counts x \<longleftrightarrow> x \<noteq> Inl EINTR \<and> x \<noteq> Inl EAGAIN"

lemma wait_ready_returns:
  "filter (poll_counts t) ps \<noteq> [] \<Longrightarrow>
   \<exists>st ps'. wait_ready ps t = Some (st, ps') \<and> length (filter (poll_counts t) ps) = Suc (length (filter (poll_counts t) ps'))"
  by (induction ps) (auto simp: poll_counts_def split: poll_result.splits)

lemma ser_send_returns:
  "length writes \<le> length (filter (poll_counts t) polls) \<Longrightarrow>
   length buf - at \<le> length (filter write_counts writes) \<Longrightarrow> ser_send polls writes t buf at \<noteq> None"
proof (induction writes arbitrary: polls at)
  case Nil
  then show ?case by (subst ser_send.simps) simp
next
  case (Cons x ws)
  then have "filter (poll_counts t) polls \<noteq> []" by auto
  from wait_ready_returns [OF this] obtain st ps where
    w: "wait_ready polls t = Some (st, ps)" "length ws \<le> length (filter (poll_counts t) ps)"
    using Cons.prems(1) by auto
  show ?case
  proof (cases x)
    case (Inl e)
    with Cons.IH [OF w(2), of at] Cons.prems(2) w(1) show ?thesis
      by (subst ser_send.simps) (auto simp: write_counts_def)
  next
    case (Inr n)
    then have "write_counts x" by (simp add: write_counts_def)
    then have "length buf - (at + n) \<le> length (filter write_counts ws)" if "0 < n"
      using Cons.prems(2) that by simp
    from Cons.IH [OF w(2) this] Inr w(1) show ?thesis
      by (subst ser_send.simps) (auto split: option.split)
  qed
qed

text \<open>What a write loop that returns has sent.\<close>

lemma ser_send_spec:
  assumes "ser_send polls writes t buf at = Some (st, w)"
  shows "prefix w (drop at buf)" and "st = OP_OK \<Longrightarrow> w = drop at buf" and "st \<noteq> OP_ERR_TIMEOUT"
proof -
  have "prefix w (drop at buf) \<and> (st = OP_OK \<longrightarrow> w = drop at buf) \<and> st \<noteq> OP_ERR_TIMEOUT"
    using assms
  proof (induction writes arbitrary: polls at st w)
    case Nil
    then show ?case
      by (subst (asm) ser_send.simps) (auto split: if_splits option.splits)
  next
    case (Cons x ws)
    show ?case
    proof (cases x)
      case (Inl e)
      with Cons.prems show ?thesis
        by (subst (asm) ser_send.simps) (auto dest: Cons.IH split: if_splits option.splits)
    next
      case (Inr n)
      have go: "prefix (take n (drop at buf) @ w') (drop at buf) \<and>
          (st' = OP_OK \<longrightarrow> take n (drop at buf) @ w' = drop at buf) \<and> st' \<noteq> OP_ERR_TIMEOUT"
        if "ser_send ps ws t buf (at + n) = Some (st', w')" for ps st' w'
      proof -
        have ih: "prefix w' (drop n (drop at buf)) \<and> (st' = OP_OK \<longrightarrow> w' = drop n (drop at buf)) \<and>
            st' \<noteq> OP_ERR_TIMEOUT"
          using Cons.IH [OF that] by (simp add: add.commute)
        then have "prefix (take n (drop at buf) @ w') (take n (drop at buf) @ drop n (drop at buf))"
          by (simp only: same_prefix_prefix)
        with ih show ?thesis by (metis append_take_drop_id)
      qed
      from Cons.prems Inr show ?thesis
        by (subst (asm) ser_send.simps) (auto dest: go split: if_splits option.splits)
    qed
  qed
  then show "prefix w (drop at buf)" "st = OP_OK \<Longrightarrow> w = drop at buf" "st \<noteq> OP_ERR_TIMEOUT"
    by simp_all
qed

lemma ser_write_spec:
  assumes "ser_write polls writes buf t = Some (st, w)"
  shows "prefix w buf" and "st = OP_OK \<Longrightarrow> w = buf" and "st \<noteq> OP_ERR_TIMEOUT"
  using assms ser_send_spec [of polls writes _ buf 0 st w] by (simp_all add: ser_write_def)

lemma ser_read_spec:
  assumes "ser_read polls reads cap t = Some (st, got)"
  shows "length got \<le> cap" and "0 < cap \<Longrightarrow> st = OP_OK \<longleftrightarrow> got \<noteq> []" and "cap = 0 \<Longrightarrow> got = [] \<and> st \<noteq> OP_OK"
  using assms by (auto simp: ser_read_def split: if_splits option.splits sum.splits)


section \<open>Properties\<close>

text \<open>C28. A serial write does not go on for ever: given as many answers of \<open>write\<close> that are not
  interruptions as there are bytes, and an uninterrupted \<open>poll\<close> for each answer, it returns; and it says
  \<open>OP_OK\<close> only when all bytes were taken.\<close>

theorem ser_write_returns:
  assumes "length writes \<le> length (filter (\<lambda>p. p (poll_timeout (if t = 0 then 1 else t)) \<noteq> Poll_error EINTR) polls)"
    and "length buf \<le> length (filter (\<lambda>x. x \<noteq> Inl EINTR \<and> x \<noteq> Inl EAGAIN) writes)"
  shows "\<exists>st w. ser_write polls writes buf t = Some (st, w) \<and> (st = OP_OK \<longrightarrow> w = buf)"
proof -
  have "ser_write polls writes buf t \<noteq> None"
    using assms ser_send_returns [of writes "if t = 0 then 1 else t" polls buf 0]
    by (simp add: ser_write_def poll_counts_def [abs_def] write_counts_def [abs_def])
  then obtain st w where "ser_write polls writes buf t = Some (st, w)" by auto
  with ser_write_spec(2) [OF this] show ?thesis by blast
qed

theorem ser_write_returns_witness:
  "\<exists>st w. ser_write
     [\<lambda>_. Poll_error EINTR, \<lambda>_. Poll_ready \<lparr>POLLIN = False, POLLERR = False, POLLNVAL = False, POLLHUP = False\<rparr>,
      \<lambda>_. Poll_ready \<lparr>POLLIN = False, POLLERR = False, POLLNVAL = False, POLLHUP = False\<rparr>, \<lambda>_. Poll_timeout]
     [Inr 1, Inl EAGAIN, Inr 1] [7, 8] 0 = Some (st, w) \<and> (st = OP_OK \<longrightarrow> w = [7, 8])"
  by (rule ser_write_returns) simp_all

end
