(* ===== verification/Transport.thy ===== *)
theory Transport
  imports Usb_Bus Serial Api_Core
begin

text \<open>
  src/op_transport.h and the choice of a transport: the table of operations as a case distinction
  over the two implementations, the contract \<open>byte_pipe\<close> the layers above rely on, and what it gives
  them: the session's reader on top of the USB transport.
\<close>

section \<open>A transport\<close>

text \<open>\<open>T_null\<close>: neither operations nor a state, as after a close or a failed open.\<close>

datatype op_transport =
    T_null
  | T_usb op_usb
  | T_serial int

text \<open>What a call meets, for either implementation.\<close>

record write_env =
  w_bulk :: bulk
  w_polls :: "poll_call list"
  w_writes :: "(errno + nat) list"

record read_env =
  r_wakeups :: "wakeup list"
  r_submit :: "nat \<Rightarrow> libusb_error"
  r_polls :: "poll_call list"
  r_reads :: "(errno + u8 list) list"

text \<open>The status and the bytes that left; \<open>None\<close> where the call has not returned.\<close>

definition op_write :: "write_env \<Rightarrow> u8 list \<Rightarrow> u32 \<Rightarrow> op_transport \<Rightarrow> (op_status \<times> u8 list) option" where
  "op_write e buf timeout_ms T =
    (case T of
       T_null \<Rightarrow> Some (OP_ERR_PARAM, [])
     | T_usb u \<Rightarrow> Some (usb_write (w_bulk e) buf timeout_ms)
     | T_serial fd \<Rightarrow> ser_write (w_polls e) (w_writes e) buf timeout_ms)"

definition op_read ::
  "read_env \<Rightarrow> nat \<Rightarrow> u32 \<Rightarrow> op_transport \<Rightarrow> (op_status \<times> u8 list \<times> op_transport) option" where
  "op_read e cap timeout_ms T =
    (case T of
       T_null \<Rightarrow> Some (OP_ERR_PARAM, [], T)
     | T_usb u \<Rightarrow>
         let (st, got, lost, u) = usb_read (r_wakeups e) (r_submit e) cap u in Some (st, got, T_usb u)
     | T_serial fd \<Rightarrow>
         map_option (\<lambda>(st, got). (st, got, T)) (ser_read (r_polls e) (r_reads e) cap timeout_ms))"

section \<open>The contract\<close>

text \<open>
  What the layers above take from a transport. A write that is not good has sent a beginning of the
  bytes at most, and never says \<open>OP_ERR_TIMEOUT\<close>, which to them means that the device did not answer.
  A read gives bytes exactly when it is good.
\<close>

locale byte_pipe =
  fixes ok :: "'s \<Rightarrow> bool"
    and send :: "'w \<Rightarrow> u8 list \<Rightarrow> u32 \<Rightarrow> 's \<Rightarrow> (op_status \<times> u8 list) option"
    and recv :: "'r \<Rightarrow> nat \<Rightarrow> u32 \<Rightarrow> 's \<Rightarrow> (op_status \<times> u8 list \<times> 's) option"
  assumes write_prefix: "send e buf t s = Some (st, w) \<Longrightarrow> prefix w buf"
    and write_all: "send e buf t s = Some (OP_OK, w) \<Longrightarrow> w = buf"
    and write_no_timeout: "send e buf t s = Some (st, w) \<Longrightarrow> st \<noteq> OP_ERR_TIMEOUT"
    and read_ok: "ok s \<Longrightarrow> recv f cap t s = Some (st, got, s') \<Longrightarrow> ok s'"
    and read_length: "ok s \<Longrightarrow> recv f cap t s = Some (st, got, s') \<Longrightarrow> length got \<le> cap"
    and read_good: "ok s \<Longrightarrow> 0 < cap \<Longrightarrow> recv f cap t s = Some (st, got, s') \<Longrightarrow> st = OP_OK \<longleftrightarrow> got \<noteq> []"

text \<open>The reads of \<open>reader_main\<close>, one after the other.\<close>

fun pipe_reads ::
  "('r \<Rightarrow> nat \<Rightarrow> u32 \<Rightarrow> 's \<Rightarrow> (op_status \<times> u8 list \<times> 's) option) \<Rightarrow> 'r list \<Rightarrow> 's \<Rightarrow>
   ((op_status \<times> u8 list) list \<times> 's) option" where
  "pipe_reads read [] s = Some ([], s)"
| "pipe_reads read (f # fs) s =
    (case read f 1024 10 s of
       None \<Rightarrow> None
     | Some (st, got, s) \<Rightarrow>
         (case pipe_reads read fs s of
            None \<Rightarrow> None
          | Some (rs, s) \<Rightarrow> Some ((st, got) # rs, s)))"

text \<open>What such reads may be, and the session's turns on them.\<close>

definition fair_reads :: "(op_status \<times> u8 list) list \<Rightarrow> bool" where
  "fair_reads rs \<longleftrightarrow> (\<forall>(st, got) \<in> set rs. length got \<le> 1024 \<and> (st = OP_OK \<longleftrightarrow> got \<noteq> []))"

definition reader_turns :: "(op_status \<times> u8 list) list \<Rightarrow> op_device \<Rightarrow> op_device" where
  "reader_turns rs d = fold (\<lambda>(st, got). reader_turn st got) rs d"

lemma reading_handles: "reading (fold handle rs d) = reading d"
  by (induction rs arbitrary: d) (simp_all add: reading_def)

lemma reading_consume: "reading (consume_accum d) = reading d"
proof -
  obtain rs k where "consume_loop d (accum d) = (fold handle rs d, drop k (accum d))"
    using consume_loop_handles by blast
  then have "reading (consume_accum d) = reading (fold handle rs d)"
    by (simp add: consume_accum_def reading_def)
  then show ?thesis by (simp add: reading_handles)
qed

lemma reading_turn: "reading d \<Longrightarrow> got \<noteq> [] \<Longrightarrow> reading (reader_turn OP_OK got d)"
  by (simp add: reader_turn_def Let_def reading_consume reading_def)
    (simp add: reading_consume reading_def [symmetric]; simp add: reading_def)

lemma reader_turns_good:
  assumes "fair_reads rs" and "\<forall>(st, got) \<in> set rs. st = OP_OK \<or> st = OP_ERR_TIMEOUT" and "reading d"
  shows "reader_turns rs d = fold (reader_turn OP_OK) (filter (\<lambda>c. c \<noteq> []) (map snd rs)) d"
  using assms
proof (induction rs arbitrary: d)
  case (Cons r rs)
  obtain st got where r: "r = (st, got)" by (cases r)
  have rest: "fair_reads rs" "\<forall>(st, got) \<in> set rs. st = OP_OK \<or> st = OP_ERR_TIMEOUT"
    using Cons.prems by (auto simp: fair_reads_def)
  have len: "reading (reader_turn OP_OK got d)" if "got \<noteq> []"
    using Cons.prems(3) that by (rule reading_turn)
  show ?case
  proof (cases "st = OP_OK")
    case True
    then have "got \<noteq> []" using Cons.prems(1) r by (auto simp: fair_reads_def)
    with Cons.IH [OF rest len] show ?thesis by (simp add: r True reader_turns_def)
  next
    case False
    then have "got = []" "st = OP_ERR_TIMEOUT" using Cons.prems r by (auto simp: fair_reads_def)
    moreover have "reader_turn OP_ERR_TIMEOUT [] d = d"
      using Cons.prems(3) by (cases d) (simp add: reading_def reader_turn_def)
    ultimately show ?thesis using Cons.IH [OF rest Cons.prems(3)] by (simp add: r reader_turns_def)
  qed
qed (simp add: reader_turns_def)

lemma concat_filter_nonempty: "concat (filter (\<lambda>c. c \<noteq> []) cs) = concat cs"
  by (induction cs) auto

lemma reader_turns_records:
  assumes "fair_reads rs" and "\<forall>(st, got) \<in> set rs. st = OP_OK \<or> st = OP_ERR_TIMEOUT"
    and "reading d" and "accum d = []"
    and "list_all2 dev_record bs ms" and "concat (map snd rs) = concat bs"
  shows "reader_turns rs d = (fold handle ms d)\<lparr>accum := []\<rparr>"
  unfolding reader_turns_good [OF assms(1-3)]
proof (rule turns_stream [OF assms(5,3)])
  show "\<forall>c \<in> set (filter (\<lambda>c. c \<noteq> []) (map snd rs)). c \<noteq> [] \<and> length c \<le> 1024"
    using assms(1) by (auto simp: fair_reads_def)
qed (use assms(4,6) in \<open>simp_all add: concat_filter_nonempty part_record_def\<close>)

context byte_pipe
begin

lemma reads_fair:
  "ok s \<Longrightarrow> pipe_reads recv fs s = Some (rs, s') \<Longrightarrow> fair_reads rs \<and> ok s'"
proof (induction fs arbitrary: s rs)
  case (Cons f fs)
  then obtain st got v qs where r: "recv f 1024 10 s = Some (st, got, v)" "pipe_reads recv fs v = Some (qs, s')"
    "rs = (st, got) # qs"
    by (auto split: option.splits)
  have "ok v" using read_ok [OF Cons.prems(1) r(1)] .
  from Cons.IH [OF this r(2)] show ?case
    using read_length [OF Cons.prems(1) r(1)] read_good [OF Cons.prems(1) _ r(1)] r(3)
    by (auto simp: fair_reads_def)
qed (simp add: fair_reads_def)

text \<open>A session on the pipe handles the records whose bytes the pipe gave, in order.\<close>

lemma session_on_pipe:
  assumes "ok s" and "pipe_reads recv fs s = Some (rs, s')"
    and "\<forall>(st, got) \<in> set rs. st = OP_OK \<or> st = OP_ERR_TIMEOUT"
    and "reading d" and "accum d = []"
    and "list_all2 dev_record bs ms" and "concat (map snd rs) = concat bs"
  shows "reader_turns rs d = (fold handle ms d)\<lparr>accum := []\<rparr>"
  using reads_fair [OF assms(1,2)] assms(3-) by (intro reader_turns_records) auto

end

definition transport_ok :: "op_transport \<Rightarrow> bool" where
  "transport_ok T = (case T of T_usb u \<Rightarrow> usb_ok u | _ \<Rightarrow> True)"

lemma usb_read_ok:
  assumes "usb_ok u" and "usb_read ws sub cap u = (st, got, lost, v)"
  shows "usb_ok v" and "length got \<le> cap" and "0 < cap \<Longrightarrow> st = OP_OK \<longleftrightarrow> got \<noteq> []"
proof -
  have w: "usb_ok (read_wait ws u)"
    using read_wait_path [of u ws] assms(1) by (auto dest: usb_ok_path)
  have *: "usb_ok v \<and> length got \<le> cap \<and> (0 < cap \<longrightarrow> (st = OP_OK \<longleftrightarrow> got \<noteq> []))"
  proof (cases "cap = 0")
    case False
    then have "0 < cap" "read_region sub cap (read_wait ws u) = (st, got, lost, v)"
      using assms(2) by (simp_all add: usb_read_def)
    with w usb_ok_step [OF usb_step.read [OF this] w] read_region_spec(5,6) show ?thesis
      unfolding usb_ok_def by blast
  qed (use assms in \<open>simp add: usb_read_def\<close>)
  then show "usb_ok v" "length got \<le> cap" "0 < cap \<Longrightarrow> st = OP_OK \<longleftrightarrow> got \<noteq> []" by auto
qed

lemma op_write_spec:
  assumes "op_write e buf t T = Some (st, w)"
  shows "prefix w buf" and "st = OP_OK \<Longrightarrow> w = buf" and "st \<noteq> OP_ERR_TIMEOUT"
  using assms usb_write_spec [of "w_bulk e" buf t st w] ser_write_spec [of "w_polls e" "w_writes e" buf t st w]
  by (auto simp: op_write_def split: op_transport.splits)

lemma op_read_spec:
  assumes "transport_ok T" and "op_read e cap t T = Some (st, got, T')"
  shows "transport_ok T'" and "length got \<le> cap" and "0 < cap \<Longrightarrow> st = OP_OK \<longleftrightarrow> got \<noteq> []"
  using assms by (auto simp: op_read_def transport_ok_def dest: usb_read_ok ser_read_spec
      split: op_transport.splits prod.splits)

interpretation pipe: byte_pipe transport_ok op_write op_read
  by unfold_locales (blast dest: op_write_spec op_read_spec)+


section \<open>Choosing and opening\<close>

text \<open>
  What an open meets: the USB side, the node each path leads to, and the services of macOS. The
  detail is the thread's text, which only the USB open touches.
\<close>

record 'k open_world =
  ow_kernel :: "'k kernel_ops"
  ow_name :: "libusb_error \<Rightarrow> string"
  ow_init :: libusb_error
  ow_devices :: "libusb_error + 'k usb_port list"
  ow_node :: "string \<Rightarrow> serial_env"
  ow_os :: "io_service list option option"

definition open_usb :: "'k open_world \<Rightarrow> op_status \<times> op_transport \<times> string" where
  "open_usb e =
    (let (st, detail, u, ks) = op_usb_open (ow_kernel e) (ow_name e) (ow_init e) (ow_devices e)
     in (st, case u of Some u \<Rightarrow> T_usb u | None \<Rightarrow> T_null, detail))"

definition open_serial :: "'k open_world \<Rightarrow> string \<Rightarrow> string \<Rightarrow> op_status \<times> op_transport \<times> string" where
  "open_serial e path detail =
    (let (st, fd, tio) = op_serial_open (ow_node e path)
     in (st, case fd of Some fd \<Rightarrow> T_serial fd | None \<Rightarrow> T_null, detail))"

text \<open>\<open>OPENPORT_DEVICE\<close> is the value of the environment variable.\<close>

definition op_transport_open ::
  "'k open_world \<Rightarrow> string option \<Rightarrow> string \<Rightarrow> op_status \<times> op_transport \<times> string" where
  "op_transport_open e OPENPORT_DEVICE detail =
    (case OPENPORT_DEVICE of
       Some d \<Rightarrow>
         if d = ''usb'' then open_usb e
         else if d \<noteq> [] then open_serial e d detail
         else
           (case op_serial_find (ow_os e) OP_VID OP_PID 256 of
              (OP_OK, Some node) \<Rightarrow> open_serial e node detail
            | _ \<Rightarrow> open_usb e)
     | None \<Rightarrow>
         (case op_serial_find (ow_os e) OP_VID OP_PID 256 of
            (OP_OK, Some node) \<Rightarrow> open_serial e node detail
          | _ \<Rightarrow> open_usb e))"

text \<open>A closed transport.\<close>

definition op_close :: "wakeup list \<Rightarrow> rx_event list \<Rightarrow> 'k kernel_ops \<Rightarrow> op_transport \<Rightarrow> 'k \<Rightarrow> op_transport \<times> 'k" where
  "op_close ws late ops T k =
    (case T of
       T_usb u \<Rightarrow> (T_null, snd (usb_close ws late ops u k))
     | _ \<Rightarrow> (T_null, k))"

lemma open_usb_result:
  assumes "open_usb e = (st, T, detail)" and "ow_devices e \<noteq> Inl LIBUSB_SUCCESS"
  shows "if st = OP_OK then \<exists>u. T = T_usb u \<and> usb_started u else T = T_null \<and> detail \<noteq> []"
proof -
  obtain st' detail' u ks where o: "op_usb_open (ow_kernel e) (ow_name e) (ow_init e) (ow_devices e) = (st', detail', u, ks)"
    using prod_cases4 by blast
  from op_usb_open_result [OF this assms(2)] o assms(1) show ?thesis
    by (auto simp: open_usb_def opened_on_def split: if_splits)
qed

lemma open_serial_result:
  "open_serial e path detail = (st, T, detail') \<Longrightarrow>
   detail' = detail \<and> (if st = OP_OK then \<exists>fd. T = T_serial fd else T = T_null)"
  by (auto simp: open_serial_def op_serial_open_def Let_def split: sum.splits if_splits)

lemma op_transport_open_cases:
  "op_transport_open e OPENPORT_DEVICE detail = open_usb e \<or>
   (\<exists>path. op_transport_open e OPENPORT_DEVICE detail = open_serial e path detail)"
  by (auto simp: op_transport_open_def split: option.split prod.split op_status.split)

text \<open>An open that succeeds gives a sound transport; one that fails gives none.\<close>

lemma op_transport_open_result:
  assumes "op_transport_open e OPENPORT_DEVICE detail = (st, T, detail')" and "ow_devices e \<noteq> Inl LIBUSB_SUCCESS"
  shows "if st = OP_OK then T \<noteq> T_null \<and> transport_ok T else T = T_null"
proof (cases "op_transport_open e OPENPORT_DEVICE detail = open_usb e")
  case True
  with open_usb_result [of e st T detail'] assms show ?thesis
    by (auto simp: transport_ok_def dest: usb_started_ok split: if_splits)
next
  case False
  then obtain path where "open_serial e path detail = (st, T, detail')"
    using op_transport_open_cases [of e OPENPORT_DEVICE detail] assms(1) by auto
  from open_serial_result [OF this] show ?thesis
    by (cases "st = OP_OK") (auto simp: transport_ok_def)
qed

section \<open>Properties\<close>

text \<open>C10. A write that returns, over either transport, has sent a prefix of its bytes, all of them when
  it says \<open>OP_OK\<close>, and never says \<open>OP_ERR_TIMEOUT\<close>, which the session takes for a device that did not
  answer.\<close>

theorem transport_contract:
  assumes "op_write e buf t T = Some (st, w)"
  shows "prefix w buf \<and> (st = OP_OK \<longrightarrow> w = buf) \<and> st \<noteq> OP_ERR_TIMEOUT"
  using pipe.write_prefix [OF assms] pipe.write_no_timeout [OF assms] pipe.write_all [of e buf t T w] assms
  by auto

theorem transport_contract_witness:
  "\<exists>st w. op_write \<lparr>w_bulk = (\<lambda>n chunk t. (LIBUSB_ERROR_TIMEOUT, if n = 0 then 2 else 0)), w_polls = [], w_writes = []\<rparr>
       [1, 2, 3] 0 (T_usb usb_live) = Some (st, w) \<and>
     prefix w [1, 2, 3] \<and> (st = OP_OK \<longrightarrow> w = [1, 2, 3]) \<and> st \<noteq> OP_ERR_TIMEOUT"
proof -
  let ?e = "\<lparr>w_bulk = (\<lambda>n chunk t. (LIBUSB_ERROR_TIMEOUT, if n = 0 then 2 else 0)), w_polls = [], w_writes = []\<rparr>"
  have w: "op_write ?e [1, 2, 3] 0 (T_usb usb_live) = Some (OP_ERR_STALLED, [1, 2])"
    by (simp add: op_write_def stalled_after_part)
  show ?thesis using transport_contract [OF w] w by blast
qed

text \<open>C7. On the USB transport, however libusb's callbacks and the reader's reads interleave: where no byte
  was dropped, all that came in was read and the reads ended well or timed out, the session ends as
  if the records in the packets had been handled whole, in order.\<close>

theorem usb_to_session:
  assumes "usb_started u0" and "usb_path u0 ls u"
    and "usb_content u = []" and "reported ls = 0" and "ring_dropped u = 0"
    and "\<forall>(st, got) \<in> set (went_out ls). length got \<le> 1024 \<and> (st = OP_OK \<or> st = OP_ERR_TIMEOUT)"
    and "list_all2 dev_record bs ms" and "concat (came_in ls) = concat bs"
    and "reading d" and "accum d = []"
  shows "reader_turns (went_out ls) d = (fold handle ms d)\<lparr>accum := []\<rparr>"
proof (rule reader_turns_records [OF _ _ assms(9,10,7)])
  note start = usb_started_ok [OF assms(1)]
  show "fair_reads (went_out ls)"
    using assms(6) outputs_path [OF assms(2) start(1)] by (fastforce simp: fair_reads_def)
  show "\<forall>(st, got) \<in> set (went_out ls). st = OP_OK \<or> st = OP_ERR_TIMEOUT" using assms(6) by auto
  show "out_bytes ls = concat bs"
    using delivered_all [OF delivered_path [OF assms(2) start] assms(4,5)] assms(3,8) by simp
qed

theorem usb_to_session_witness:
  "\<exists>ls u. usb_path usb_live ls u \<and>
     reply_valid (reader_turns (went_out ls) (g_device\<lparr>reader_started := True, cmd_waiting := True\<rparr>))"
proof -
  let ?xs = "ascii ''aro'' @ [13, 10]"
  let ?d = "g_device\<lparr>reader_started := True, cmd_waiting := True\<rparr>"
  note live = rx_start_ok [OF usb_live_eq]
  have "ring_used usb_live = 0" using live(1,2) usb_content_length [of usb_live] by (simp add: usb_ok_def)
  then obtain v where v: "usb_path usb_live [In ?xs] v" "usb_content v = ?xs" "ring_dropped v = 0"
    using packet_path [OF live(1,5,4), of ?xs] live(2,3) by (auto simp: USB_RING_BYTES_def)
  from read_path [OF usb_ok_path [OF v(1) live(1)], of 1024] v(2,3)
  obtain u where "usb_step v (Out OP_OK ?xs 0) u" and u: "usb_content u = []" "ring_dropped u = 0" by auto
  with usb_path.go [OF v(1)] have path: "usb_path usb_live [In ?xs, Out OP_OK ?xs 0] u" by fastforce
  have rec: "list_all2 dev_record [render (D_Ok [])] [meaning (D_Ok [])]"
    by (auto simp: dev_record_def dev_fits_def line_bytes_def text_simps intro!: exI [of _ "D_Ok []"])
  have "reader_turns (went_out [In ?xs, Out OP_OK ?xs 0]) ?d = (fold handle [meaning (D_Ok [])] ?d)\<lparr>accum := []\<rparr>"
    by (rule usb_to_session [OF usb_live_started path u(1) _ u(2) _ rec])
      (auto simp: line_bytes_def text_simps reading_def g_device_def)
  then have "reply_valid (reader_turns (went_out [In ?xs, Out OP_OK ?xs 0]) ?d)"
    by (simp add: handle_def stash_reply_def stash_accepted_def stash_slot_def g_device_def)
  with path show ?thesis by blast
qed

text \<open>After a USB open failed on a thread, a serial open that fails leaves that text in place, and
  \<open>PassThruOpen\<close> gives the old reason for the new failure.\<close>

lemma serial_failure_blames_usb:
  assumes "open_usb e = (st, T, reason)" and "st \<noteq> OP_OK" and "ow_devices e \<noteq> Inl LIBUSB_SUCCESS"
    and "path \<noteq> []" and "path \<noteq> ''usb''" and "s_open (ow_node e' path) = Inl err"
  shows "op_transport_open e' (Some path) reason = (from_errno err, T_null, reason) \<and>
    err_text (snd (open_failed (from_errno err) (op_transport_last_detail reason) w)) = op_err_set reason \<and>
    op_err_set reason \<noteq> []"
proof -
  have "reason \<noteq> []" using open_usb_result [OF assms(1,3)] assms(2) by simp
  moreover have "from_errno err \<noteq> OP_ERR_STALLED" "from_errno err \<noteq> OP_ERR_PROTOCOL"
    by (cases err; simp add: from_errno_def)+
  ultimately show ?thesis
    using assms(4-6)
    by (simp add: op_transport_open_def open_serial_def op_serial_open_def open_failed_def
        op_transport_last_detail_def set_err_def op_err_set_def)
qed

end
