(* ===== verification/Deadline.thy ===== *)
theory Deadline
  imports Prelude
begin

text \<open>
  src/op_time.h: the absolute deadline of a timed wait, from the wall clock in seconds and
  microseconds. \<open>long\<close> is 64 bits and nothing here comes near its end, so the numbers are integers.
\<close>

record timespec =
  tv_sec :: int
  tv_nsec :: int

definition op_deadline_in :: "int \<times> int \<Rightarrow> u32 \<Rightarrow> timespec" where
  "op_deadline_in now ms =
    (let (sec, usec) = now;
         s = sec + uint (ms div 1000);
         ns = usec * 1000 + uint (ms mod 1000) * 1000000
     in if ns \<ge> 1000000000 then \<lparr>tv_sec = s + 1, tv_nsec = ns - 1000000000\<rparr>
        else \<lparr>tv_sec = s, tv_nsec = ns\<rparr>)"

text \<open>The deadline is the clock plus the milliseconds, and a valid time: one carry is enough.\<close>

lemma op_deadline_in_exact:
  assumes "0 \<le> usec" and "usec < 1000000"
  shows "0 \<le> tv_nsec (op_deadline_in (sec, usec) ms)" and "tv_nsec (op_deadline_in (sec, usec) ms) < 1000000000"
    and "tv_sec (op_deadline_in (sec, usec) ms) * 1000000000 + tv_nsec (op_deadline_in (sec, usec) ms) =
      sec * 1000000000 + usec * 1000 + uint ms * 1000000"
proof -
  define q r where "q = uint ms div 1000" and "r = uint ms mod 1000"
  have m: "uint (ms div 1000) = q" "uint (ms mod 1000) = r"
    by (simp_all add: q_def r_def uint_div uint_mod)
  have r: "0 \<le> r" "r < 1000" and ms: "uint ms = q * 1000 + r" by (simp_all add: q_def r_def)
  with assms show "0 \<le> tv_nsec (op_deadline_in (sec, usec) ms)"
    "tv_nsec (op_deadline_in (sec, usec) ms) < 1000000000"
    "tv_sec (op_deadline_in (sec, usec) ms) * 1000000000 + tv_nsec (op_deadline_in (sec, usec) ms) =
      sec * 1000000000 + usec * 1000 + uint ms * 1000000"
    unfolding op_deadline_in_def Let_def prod.case m ms by auto
qed

end
