(* ===== verification/J2534_Params.thy ===== *)
theory J2534_Params
  imports J2534
begin

text \<open>
  The constants of include/j2534/j2534.h that the driver passes to the cable as numbers and only its
  clients name: the J1850 protocols, the configuration parameters, filter types, connect and transmit
  flags, and the values of the vendor's header.
\<close>

definition J1850VPW :: u64 where [simp]: "J1850VPW = 1"
definition J1850PWM :: u64 where [simp]: "J1850PWM = 2"
definition DATA_RATE :: u64 where [simp]: "DATA_RATE = 0x01"
definition LOOPBACK :: u64 where [simp]: "LOOPBACK = 0x03"
definition NODE_ADDRESS :: u64 where [simp]: "NODE_ADDRESS = 0x04"
definition NETWORK_LINE :: u64 where [simp]: "NETWORK_LINE = 0x05"
definition P1_MIN :: u64 where [simp]: "P1_MIN = 0x06"
definition P1_MAX :: u64 where [simp]: "P1_MAX = 0x07"
definition P2_MIN :: u64 where [simp]: "P2_MIN = 0x08"
definition P2_MAX :: u64 where [simp]: "P2_MAX = 0x09"
definition P3_MIN :: u64 where [simp]: "P3_MIN = 0x0A"
definition P3_MAX :: u64 where [simp]: "P3_MAX = 0x0B"
definition P4_MIN :: u64 where [simp]: "P4_MIN = 0x0C"
definition P4_MAX :: u64 where [simp]: "P4_MAX = 0x0D"
definition W1 :: u64 where [simp]: "W1 = 0x0E"
definition W2 :: u64 where [simp]: "W2 = 0x0F"
definition W3 :: u64 where [simp]: "W3 = 0x10"
definition W4 :: u64 where [simp]: "W4 = 0x11"
definition W5 :: u64 where [simp]: "W5 = 0x12"
definition TIDLE :: u64 where [simp]: "TIDLE = 0x13"
definition TINIL :: u64 where [simp]: "TINIL = 0x14"
definition TWUP :: u64 where [simp]: "TWUP = 0x15"
definition PARITY :: u64 where [simp]: "PARITY = 0x16"
definition BIT_SAMPLE_POINT :: u64 where [simp]: "BIT_SAMPLE_POINT = 0x17"
definition SYNC_JUMP_WIDTH :: u64 where [simp]: "SYNC_JUMP_WIDTH = 0x18"
definition W0 :: u64 where [simp]: "W0 = 0x19"
definition T1_MAX :: u64 where [simp]: "T1_MAX = 0x1A"
definition T2_MAX :: u64 where [simp]: "T2_MAX = 0x1B"
definition T4_MAX :: u64 where [simp]: "T4_MAX = 0x1C"
definition T5_MAX :: u64 where [simp]: "T5_MAX = 0x1D"
definition ISO15765_BS :: u64 where [simp]: "ISO15765_BS = 0x1E"
definition ISO15765_STMIN :: u64 where [simp]: "ISO15765_STMIN = 0x1F"
definition DATA_BITS :: u64 where [simp]: "DATA_BITS = 0x20"
definition FIVE_BAUD_MOD :: u64 where [simp]: "FIVE_BAUD_MOD = 0x21"
definition BS_TX :: u64 where [simp]: "BS_TX = 0x22"
definition STMIN_TX :: u64 where [simp]: "STMIN_TX = 0x23"
definition T3_MAX :: u64 where [simp]: "T3_MAX = 0x24"
definition ISO15765_WFT_MAX :: u64 where [simp]: "ISO15765_WFT_MAX = 0x25"
definition ISO15765_PAD_VALUE :: u64 where [simp]: "ISO15765_PAD_VALUE = 0x2B"
definition PASS_FILTER :: u64 where [simp]: "PASS_FILTER = 0x01"
definition BLOCK_FILTER :: u64 where [simp]: "BLOCK_FILTER = 0x02"
definition FLOW_CONTROL_FILTER :: u64 where [simp]: "FLOW_CONTROL_FILTER = 0x03"
definition ISO9141_NO_CHECKSUM :: u64 where [simp]: "ISO9141_NO_CHECKSUM = 0x00000200"
definition CAN_ID_BOTH :: u64 where [simp]: "CAN_ID_BOTH = 0x00000800"
definition ISO9141_K_LINE_ONLY :: u64 where [simp]: "ISO9141_K_LINE_ONLY = 0x00001000"
definition ISO15765_FRAME_PAD :: u64 where [simp]: "ISO15765_FRAME_PAD = 0x00000040"
definition WAIT_P3_MIN_ONLY :: u64 where [simp]: "WAIT_P3_MIN_ONLY = 0x00000200"
definition SW_CAN_HV_TX :: u64 where [simp]: "SW_CAN_HV_TX = 0x00000400"
definition TX_PARAM_STOP_BITS :: u64 where [simp]: "TX_PARAM_STOP_BITS = 0x9000"
definition PIN_VADJ :: u64 where [simp]: "PIN_VADJ = 17"
definition CAN_MIXED_FORMAT :: u64 where [simp]: "CAN_MIXED_FORMAT = 0x8000"

end
