(* ===== verification/Client.thy ===== *)
theory Client
  imports Api_Safety J2534_Params "HOL-Library.Sublist"
begin

text \<open>
  Programs that call a J2534 library: what they ask, what they are answered, and how a program runs
  on a library. A program is a tree: at a call it goes on with every answer. The interface
  \<open>device_library\<close> is what a program relies on to leave the device closed.
\<close>

section \<open>Calls and answers\<close>

text \<open>
  The fourteen entry points with their input. The pointers to results are always given, but for
  those of an I/O control, which say whether they are. \<open>R_Write\<close> has the array and the count.
\<close>

datatype request =
    R_Open
  | R_Close u64
  | R_Connect u64 u64 u64 u64
  | R_Disconnect u64
  | R_Read u64 u64 u64
  | R_Write u64 "PASSTHRU_MSG list" u64 u64
  | R_Start_Periodic u64 PASSTHRU_MSG u64
  | R_Stop_Periodic u64 u64
  | R_Start_Filter u64 u64 "PASSTHRU_MSG option" "PASSTHRU_MSG option" "PASSTHRU_MSG option"
  | R_Stop_Filter u64 u64
  | R_Voltage u64 u64 u64
  | R_Version u64
  | R_Last_Error
  | R_Ioctl u64 ioctl

text \<open>The return code and what was stored through the pointers; \<open>None\<close> where nothing was.\<close>

record answer =
  a_rc :: int
  a_id :: "u64 option"
  a_count :: "nat option"
  a_msgs :: "PASSTHRU_MSG list"
  a_out :: ioctl_out

definition answer0 :: answer where
  "answer0 = \<lparr>a_rc = 0, a_id = None, a_count = None, a_msgs = [], a_out = Out_Nothing\<rparr>"

text \<open>A variable whose address was passed, after the call.\<close>

definition given :: "'a option \<Rightarrow> 'a \<Rightarrow> 'a" where
  "given x before = (case x of None \<Rightarrow> before | Some v \<Rightarrow> v)"

section \<open>Programs\<close>

datatype 'a program = Finish 'a | Ask request "answer \<Rightarrow> 'a program"

type_synonym trace = "(request \<times> answer) list"

text \<open>
  A run: the calls with their answers, the result, the library's state. A library that does not
  answer (\<open>None\<close>) ends the run without a result.
\<close>

primrec run :: "('s \<Rightarrow> request \<Rightarrow> (answer \<times> 's) option) \<Rightarrow> 'a program \<Rightarrow> 's \<Rightarrow> trace \<times> 'a option \<times> 's" where
  "run serve (Finish x) s = ([], Some x, s)"
| "run serve (Ask r k) s =
     (case serve s r of
        None \<Rightarrow> ([], None, s)
      | Some (a, s') \<Rightarrow> let (tr, x, s'') = run serve (k a) s' in ((r, a) # tr, x, s''))"

text \<open>The calls a run made, whatever it ran on.\<close>

definition asked :: "('s \<Rightarrow> request \<Rightarrow> (answer \<times> 's) option) \<Rightarrow> 'a program \<Rightarrow> 's \<Rightarrow> request list" where
  "asked serve p s = map fst (fst (run serve p s))"

section \<open>What a program does whatever it is answered\<close>

text \<open>
  A watch over the calls of a program: the answers that are believed, the calls that are allowed in
  a state, the next state, and the states it may finish in.
\<close>

record 'h watch =
  believes :: "'h \<Rightarrow> request \<Rightarrow> answer \<Rightarrow> bool"
  allows :: "'h \<Rightarrow> request \<Rightarrow> bool"
  moves :: "'h \<Rightarrow> request \<Rightarrow> answer \<Rightarrow> 'h"
  accepts :: "'h \<Rightarrow> bool"

primrec obeys :: "'h watch \<Rightarrow> 'a program \<Rightarrow> 'h \<Rightarrow> bool" where
  "obeys W (Finish x) h \<longleftrightarrow> accepts W h"
| "obeys W (Ask r k) h \<longleftrightarrow> allows W h r \<and> (\<forall>a. believes W h r a \<longrightarrow> obeys W (k a) (moves W h r a))"

fun follows :: "'h watch \<Rightarrow> trace \<Rightarrow> 'h \<Rightarrow> bool" where
  "follows W [] h \<longleftrightarrow> True"
| "follows W ((r, a) # tr) h \<longleftrightarrow> allows W h r \<and> (believes W h r a \<longrightarrow> follows W tr (moves W h r a))"

lemma obeys_follows: "obeys W p h \<Longrightarrow> follows W (fst (run serve p s)) h"
proof (induction p arbitrary: h s)
  case (Ask r k)
  then show ?case by (auto split: option.split prod.split) (metis fst_conv rangeI)
qed simp

text \<open>A watch that only looks at calls.\<close>

definition only :: "(request \<Rightarrow> bool) \<Rightarrow> unit watch" where
  "only P = \<lparr>believes = (\<lambda>h r a. True), allows = (\<lambda>h. P), moves = (\<lambda>h r a. ()), accepts = (\<lambda>h. True)\<rparr>"

lemma only_simps [simp]:
  "believes (only P) = (\<lambda>h r a. True)" "allows (only P) = (\<lambda>h. P)" "moves (only P) = (\<lambda>h r a. ())"
  "accepts (only P) = (\<lambda>h. True)"
  by (simp_all add: only_def)

lemma follows_only: "follows (only P) tr h \<longleftrightarrow> list_all P (map fst tr)"
  by (induction tr) auto

lemma obeys_asked: "obeys (only P) p () \<Longrightarrow> list_all P (asked serve p s)"
  unfolding asked_def follows_only [symmetric, where h = "()"] by (rule obeys_follows)

lemma run_invariant:
  assumes "obeys (only P) p ()" and "I s"
    and "\<And>s r a s'. P r \<Longrightarrow> serve s r = Some (a, s') \<Longrightarrow> I s \<Longrightarrow> I s'"
  shows "I (snd (snd (run serve p s)))"
  using assms(1,2)
proof (induction p arbitrary: s)
  case (Ask r k)
  show ?case
  proof (cases "serve s r")
    case (Some y)
    obtain a s' where y: "y = (a, s')" by force
    have "obeys (only P) (k a) ()" "I s'" using Ask.prems assms(3) Some y by auto
    with Ask.IH [OF rangeI] Some y show ?thesis by (simp add: split_beta)
  qed (use Ask.prems in simp)
qed simp

text \<open>
  What a call puts on the vehicle's lines, if it is carried out: messages, a periodic message, the
  request or the address of a K-line initialisation.
\<close>

definition payloads :: "request \<Rightarrow> u8 list list" where
  "payloads r =
    (case r of
       R_Write c ms n t \<Rightarrow> map msg_bytes (take (unat n) ms)
     | R_Start_Periodic c m i \<Rightarrow> [msg_bytes m]
     | R_Ioctl c (Io_Fast_Init m b) \<Rightarrow> (case m of Some m \<Rightarrow> [msg_bytes m] | None \<Rightarrow> [])
     | R_Ioctl c (Io_Five_Baud_Init (Some i) out) \<Rightarrow> [take (unat (NumOfBytes i)) (given (BytePtr i) [])]
     | _ \<Rightarrow> [])"

text \<open>A watch for the payloads still to come, in order.\<close>

definition says :: "u8 list list watch" where
  "says = \<lparr>believes = (\<lambda>h r a. True), allows = (\<lambda>h r. prefix (payloads r) h),
     moves = (\<lambda>h r a. drop (length (payloads r)) h), accepts = (\<lambda>h. True)\<rparr>"

lemma says_simps [simp]:
  "believes says h r a" "allows says h r \<longleftrightarrow> prefix (payloads r) h"
  "moves says h r a = drop (length (payloads r)) h" "accepts says h"
  by (simp_all add: says_def)

lemma follows_says: "follows says tr h \<Longrightarrow> prefix (concat (map payloads (map fst tr))) h"
proof (induction says tr h rule: follows.induct)
  case (2 r a tr h)
  then have "prefix (payloads r) h" "prefix (concat (map payloads (map fst tr))) (drop (length (payloads r)) h)"
    by simp_all
  then show ?case by (auto simp: prefix_def)
qed simp

lemma obeys_says: "obeys says p h \<Longrightarrow> prefix (concat (map payloads (asked serve p s))) h"
  unfolding asked_def by (intro follows_says obeys_follows)

text \<open>A loop of calls over a list, in the order of the list.\<close>

definition each :: "('b \<Rightarrow> 'a program \<Rightarrow> 'a program) \<Rightarrow> 'b list \<Rightarrow> 'a program \<Rightarrow> 'a program" where
  "each step xs k = foldr step xs k"

lemma each_simps [simp]: "each step [] k = k" "each step (x # xs) k = step x (each step xs k)"
  by (simp_all add: each_def)

lemma obeys_each:
  assumes "\<And>x p. x \<in> set xs \<Longrightarrow> obeys W p h \<Longrightarrow> obeys W (step x p) h" and "obeys W k h"
  shows "obeys W (each step xs k) h"
  using assms by (induction xs) simp_all

section \<open>Leaving the device closed\<close>

text \<open>
  Opened at most once at a time, no other call before an open, and closed with the id that the open
  gave. The state is that id while the device is open.
\<close>

definition closing :: "u64 option watch" where
  "closing = \<lparr>
     believes = (\<lambda>h r a. r = R_Open \<longrightarrow> a_rc a = 0 \<longrightarrow> a_id a \<noteq> None),
     allows = (\<lambda>h r. r = R_Open \<longrightarrow> h = None),
     moves = (\<lambda>h r a. if r = R_Open then (if a_rc a = 0 then a_id a else None)
                      else if \<exists>d. r = R_Close d \<and> h = Some d then None else h),
     accepts = (\<lambda>h. h = None)\<rparr>"

lemma closing_simps [simp]:
  "believes closing h r a \<longleftrightarrow> (r = R_Open \<longrightarrow> a_rc a = 0 \<longrightarrow> a_id a \<noteq> None)"
  "allows closing h r \<longleftrightarrow> (r = R_Open \<longrightarrow> h = None)"
  "moves closing h r a = (if r = R_Open then (if a_rc a = 0 then a_id a else None)
     else if \<exists>d. r = R_Close d \<and> h = Some d then None else h)"
  "accepts closing h \<longleftrightarrow> h = None"
  by (simp_all add: closing_def)

text \<open>What a library promises of its one device.\<close>

locale device_library =
  fixes serve :: "'s \<Rightarrow> request \<Rightarrow> (answer \<times> 's) option"
    and is_open :: "'s \<Rightarrow> bool"
    and device :: u64
  assumes stays_closed: "serve s r = Some (a, s') \<Longrightarrow> r \<noteq> R_Open \<Longrightarrow> \<not> is_open s \<Longrightarrow> \<not> is_open s'"
    and open_gives: "serve s R_Open = Some (a, s') \<Longrightarrow> \<not> is_open s \<Longrightarrow> a_rc a = 0 \<Longrightarrow> a_id a = Some device"
    and open_fails: "serve s R_Open = Some (a, s') \<Longrightarrow> \<not> is_open s \<Longrightarrow> a_rc a \<noteq> 0 \<Longrightarrow> \<not> is_open s'"
    and close_closes: "serve s (R_Close device) = Some (a, s') \<Longrightarrow> \<not> is_open s'"
begin

lemma obeys_closes:
  assumes "obeys closing p h" and "run serve p s = (tr, Some x, s')"
    and "h = None \<and> \<not> is_open s \<or> h = Some device"
  shows "\<not> is_open s'"
  using assms
proof (induction p arbitrary: h s tr)
  case (Ask r k)
  then obtain a t tr' where a: "serve s r = Some (a, t)" "run serve (k a) t = (tr', Some x, s')"
    by (auto split: option.splits prod.splits)
  have "believes closing h r a" and step: "moves closing h r a = None \<and> \<not> is_open t \<or> moves closing h r a = Some device"
    using Ask.prems(1,3) a(1) stays_closed [OF a(1)] open_gives [of s a t] open_fails [of s a t] close_closes [of s a t]
    by auto
  with Ask.prems(1) have "obeys closing (k a) (moves closing h r a)" by simp
  from Ask.IH [OF rangeI this a(2) step] show ?case .
qed auto

end

end
