(* ===== verification/Wire.thy ===== *)
theory Wire
  imports Api_Setup "HOL-Library.Sublist"
begin

text \<open>
  What the driver hands to the transport, over any sequence of calls. The interface \<open>sender\<close> is a
  predicate on what was sent that survives every command whose line and payload are allowed; its
  lemmas say which lines each entry point sends. Docs/PROTOCOL.md section 9.1: a payload that is not
  as long as its line says puts the cable out of step, so that it takes later commands for payload.
\<close>

section \<open>What the entry points send\<close>

text \<open>The lines of an I/O control are allowed.\<close>

definition io_allowed :: "(u8 list \<Rightarrow> u8 list \<Rightarrow> bool) \<Rightarrow> u64 \<Rightarrow> ioctl \<Rightarrow> bool" where
  "io_allowed may c io \<longleftrightarrow>
    (case io of
       Io_Get_Config l \<Rightarrow> (\<forall>p. may (op_cmd_get_config OP_CMD_MAX (ucast c) p) [])
     | Io_Set_Config l \<Rightarrow> (\<forall>p v. may (op_cmd_set_config OP_CMD_MAX (ucast c) p v) [])
     | Io_Read_Vbatt b \<Rightarrow> (\<forall>p. may (op_cmd_read_pin OP_CMD_MAX p) [])
     | Io_Read_Prog_Voltage p b \<Rightarrow> (\<forall>p. may (op_cmd_read_pin OP_CMD_MAX p) [])
     | Io_Five_Baud_Init i out \<Rightarrow> (\<forall>a. may (op_cmd_five_baud OP_CMD_MAX (ucast c) a) [])
     | Io_Fast_Init m b \<Rightarrow>
         (\<forall>p. length p \<le> 255 \<longrightarrow> may (op_cmd_fast_init OP_CMD_MAX (ucast c) (length p)) p)
     | Io_Clear_Periodic_Msgs \<Rightarrow> may (op_cmd_clear_periodic OP_CMD_MAX (ucast c)) []
     | Io_Clear_Msg_Filters \<Rightarrow> may (op_cmd_clear_filters OP_CMD_MAX (ucast c)) []
     | _ \<Rightarrow> True)"

locale sender =
  fixes may :: "u8 list \<Rightarrow> u8 list \<Rightarrow> bool"
    and P :: "world \<Rightarrow> bool"
  assumes exchange: "may l p \<Longrightarrow> P w \<Longrightarrow> P (snd (snd (cmd_exchange l p t wt w)))"
    and unsent: "sent w' = sent w \<Longrightarrow> P w \<Longrightarrow> P w'"
    and terminator: "P w \<Longrightarrow> P (w\<lparr>sent := sent w @ [([13, 10, 13, 10], 200)]\<rparr>)"
begin

lemma same [simp]:
  "P (on_dev f w) = P w" "P (clear_err w) = P w" "P (set_err s w) = P w" "P (snd (fail c s w)) = P w"
  "P (snd (failed c s w)) = P w" "P (on_chan k g w) = P w" "P (w\<lparr>dev := d\<rparr>) = P w"
  by (auto simp: on_dev_def clear_err_def set_err_def fail_def failed_def on_chan_def Let_def
      intro: unsent [where w = w, rotated] unsent [where w' = w, rotated])

lemma simple_cmd: "may l p \<Longrightarrow> P w \<Longrightarrow> P (snd (snd (simple_cmd l p t w)))"
  using exchange [of l p w t True]
  by (simp add: simple_cmd_def op_device_cmd_def split_beta split: option.split)

lemma device_cmd: "may l p \<Longrightarrow> P w \<Longrightarrow> P (snd (snd (op_device_cmd l p t w)))"
  using exchange [of l p w t True] by (simp add: op_device_cmd_def)

lemma nowait: "may l p \<Longrightarrow> P w \<Longrightarrow> P (snd (op_device_send_nowait l p w))"
  using exchange by (simp add: op_device_send_nowait_def split_beta)

lemma next_env [simp]: "P (snd (next_env w)) = P w"
  by (auto intro: unsent [where w = w, rotated] unsent [where w' = w, rotated])

lemma close_device [simp]: "P w \<Longrightarrow> P (op_device_close w)"
  by (simp add: op_device_close_def Let_def split_beta)

subsection \<open>Open and close\<close>

lemma sync_resets: "may (op_cmd_reset OP_CMD_MAX) [] \<Longrightarrow> P w \<Longrightarrow> P (snd (sync_resets n w))"
  by (induction n arbitrary: w) (simp_all add: Let_def split_beta device_cmd)

lemma sync_device:
  assumes "may (op_cmd_reset OP_CMD_MAX) []" and "may (op_cmd_close_all OP_CMD_MAX) []" and "P w"
  shows "P (snd (sync_device w))"
proof -
  let ?v = "(snd (next_env w))\<lparr>sent := sent w @ [([13, 10, 13, 10], 200)]\<rparr>"
  have v: "P ?v" using terminator [of "snd (next_env w)"] assms(3) by simp
  then have "P (snd (sync_resets n (on_dev f ?v)))" for n f using sync_resets [OF assms(1)] by simp
  with v show ?thesis
    by (simp add: sync_device_def Let_def split_beta device_cmd [OF assms(2)] del: OP_CMD_MAX_def)
qed

lemma device_open:
  assumes "may (op_cmd_reset OP_CMD_MAX) []" and "may (op_cmd_close_all OP_CMD_MAX) []" and "P w"
  shows "P (snd (op_device_open oe w))"
  using assms by (simp add: op_device_open_def Let_def split_beta sync_device)

lemma identify: "may (op_cmd_version OP_CMD_MAX) [] \<Longrightarrow> P w \<Longrightarrow> P (snd (open_identify w))"
  using simple_cmd [of "op_cmd_version OP_CMD_MAX" "[]" w OP_DEFAULT_CMD_MS]
  by (simp add: open_identify_def Let_def split_beta del: OP_CMD_MAX_def split: option.split)

lemma open_device:
  assumes "may (op_cmd_reset OP_CMD_MAX) []" and "may (op_cmd_close_all OP_CMD_MAX) []"
    and "may (op_cmd_version OP_CMD_MAX) []" and "P w"
  shows "P (snd (snd (PassThruOpen oe detail b w)))"
proof -
  have "P (snd (op_device_open oe v))" if "P v" for v using device_open assms(1,2) that .
  moreover have "P (snd (open_identify v))" if "P v" for v using identify assms(3) that .
  moreover have "P (snd (open_failed st detail v)) = P v" for st v
    by (simp add: open_failed_def Let_def split: option.split)
  ultimately show ?thesis
    using assms(4) by (simp add: PassThruOpen_def Let_def split_beta)
qed

lemma close: "may (op_cmd_reset OP_CMD_MAX) [] \<Longrightarrow> P w \<Longrightarrow> P (snd (PassThruClose i w))"
  by (simp add: PassThruClose_def Let_def split_beta simple_cmd)

subsection \<open>Channels\<close>

lemma connect:
  assumes "\<And>f. may (op_cmd_open OP_CMD_MAX f (ucast fl) (ucast baud)) []"
    and "\<And>c. may (op_cmd_close OP_CMD_MAX c) []" and "P w"
  shows "P (snd (snd (PassThruConnect fresh i p fl baud b w)))"
proof -
  have "P (snd (connect_channel fresh fw p fl baud v))" if "P v" for fw v
    using that by (simp add: connect_channel_def Let_def split_beta simple_cmd assms(1,2) del: OP_CMD_MAX_def)
  then show ?thesis
    using assms(3) by (simp add: PassThruConnect_def Let_def split_beta split: option.split)
qed

lemma disconnect:
  "(\<And>c. may (op_cmd_close OP_CMD_MAX c) []) \<Longrightarrow> P w \<Longrightarrow> P (snd (PassThruDisconnect c w))"
  by (simp add: PassThruDisconnect_def Let_def split_beta simple_cmd del: OP_CMD_MAX_def)

subsection \<open>Messages\<close>

lemma msg_ok [simp]: "P (snd (msg_ok c m w)) = P w"
  by (simp add: msg_ok_def Let_def split_beta)

lemma pop: "P w \<Longrightarrow> P (snd (snd (op_device_pop k t w)))"
  by (erule unsent [rotated]) (simp add: op_device_pop_def Let_def split_beta)

lemma read_loop: "P w \<Longrightarrow> read_loop clk c want T got w = Some (got', cl, w') \<Longrightarrow> P w'"
proof (induction clk c want T got w rule: read_loop.induct)
  case (2 e es c want T got w)
  obtain st m w1 where x: "op_device_pop (unat c) (read_remaining e T) w = (st, m, w1)"
    by (metis prod_cases3)
  have "P w1" using pop [OF 2(3), of "unat c" "read_remaining e T"] x by simp
  with 2 x show ?case by (auto simp: Let_def split: if_splits)
qed simp

lemma read_result: "P (snd (read_result c want T n w)) = P w"
  by (simp add: read_result_def Let_def split_beta)

lemma read_msgs:
  assumes "P w" and "PassThruReadMsgs clk c pm n T w = Some (rc, cnt, got, w')"
  shows "P w'"
  using assms read_loop [of "clear_err w" clk c _ T "[]"]
  by (auto simp: PassThruReadMsgs_def Let_def split_beta read_result split: if_splits option.splits)

lemma write_one:
  assumes "\<And>f t. may (op_cmd_transmit OP_CMD_MAX (ucast c) (msg_size m) f t) (msg_bytes m)" and "P w"
  shows "P (snd (write_one c m t w))"
  using assms by (simp add: write_one_def Let_def split_beta simple_cmd nowait del: OP_CMD_MAX_def)

lemma write_loop:
  assumes "\<And>m f t. m \<in> set ms \<Longrightarrow> may (op_cmd_transmit OP_CMD_MAX (ucast c) (msg_size m) f t) (msg_bytes m)"
    and "P w"
  shows "P (snd (snd (write_loop clk c ms want T n w)))"
  using assms
proof (induction ms arbitrary: clk n w)
  case (Cons m ms)
  have "P (snd (write_one c m t w))" for t using Cons.prems by (intro write_one) auto
  with Cons.IH [OF Cons.prems(1)] Cons.prems(2) show ?case
    by (cases "T = 0") (auto simp: Let_def split_beta simp del: OP_CMD_MAX_def)
qed simp

lemma write_msgs:
  assumes "\<And>m f t. may (op_cmd_transmit OP_CMD_MAX (ucast c) (msg_size m) f t) (msg_bytes m)" and "P w"
  shows "P (snd (snd (PassThruWriteMsgs clk c ms n T w)))"
  using assms by (simp add: PassThruWriteMsgs_def Let_def split_beta write_loop del: OP_CMD_MAX_def split: option.split)

subsection \<open>Periodic messages and filters\<close>

lemma start_periodic_msg:
  assumes "\<And>i f m. may (op_cmd_periodic_start OP_CMD_MAX (ucast c) i f (msg_size m)) (msg_bytes m)" and "P w"
  shows "P (snd (snd (PassThruStartPeriodicMsg c m b T w)))"
proof -
  have "P (snd (snd (start_periodic c m T v)))" if "P v" for m v
    using that assms(1) by (simp add: start_periodic_def Let_def split_beta simple_cmd del: OP_CMD_MAX_def split: option.split)
  then show ?thesis
    using assms(2) by (simp add: PassThruStartPeriodicMsg_def Let_def split_beta split: option.split)
qed

lemma stop_periodic_msg:
  assumes "\<And>i. may (op_cmd_periodic_stop OP_CMD_MAX (ucast c) i) []" and "P w"
  shows "P (snd (PassThruStopPeriodicMsg c i w))"
  using assms
  by (simp add: PassThruStopPeriodicMsg_def periodic_stop_def Let_def split_beta simple_cmd del: OP_CMD_MAX_def)

lemma filter_payload_length:
  "filter_payload n ms acc = Some p \<Longrightarrow> length p = length acc + n * length ms"
  by (induction ms arbitrary: acc) (auto split: if_splits)

lemma start_msg_filter:
  assumes "\<And>c f p n. length p = op_filter_msg_count (ucast ft) * n \<Longrightarrow> may (op_cmd_filter OP_CMD_MAX c (ucast ft) f n) p"
    and "P w"
  shows "P (snd (snd (PassThruStartMsgFilter c ft a b f i w)))"
proof -
  let ?n = "op_filter_msg_count (ucast ft)"
  have "P (snd (snd (start_filter c ft ?n x y f v)))" if "P v" "?n \<noteq> 0" for x y v
  proof (cases rule: start_filter_cases [of c ft ?n x y f v])
    case (asked line fl p rc r w1 what)
    have "length (take ?n [x, y, z]) = ?n" for z using filter_count [of "ucast ft"] that(2) by auto
    with filter_payload_length [OF asked(3)] have "may line p" unfolding asked(1) by (intro assms(1)) simp
    with simple_cmd [OF this that(1), of OP_DEFAULT_CMD_MS] asked(7,8) show ?thesis by simp
  qed (use that in simp)
  with assms(2) show ?thesis
    by (simp add: PassThruStartMsgFilter_def Let_def split_beta)
qed

lemma stop_msg_filter:
  assumes "\<And>i. may (op_cmd_stop_filter OP_CMD_MAX (ucast c) i) []" and "P w"
  shows "P (snd (PassThruStopMsgFilter c i w))"
  using assms by (simp add: PassThruStopMsgFilter_def Let_def split_beta simple_cmd del: OP_CMD_MAX_def)

subsection \<open>Voltage, version, controls\<close>

lemma programming_voltage:
  assumes "may (voltage_line pin v) []" and "P w"
  shows "P (snd (PassThruSetProgrammingVoltage i pin v w))"
proof -
  have "P (snd (set_voltage pin v (clear_err w)))"
    using assms by (simp add: set_voltage_def Let_def split_beta simple_cmd)
  with assms(2) show ?thesis
    by (auto simp: PassThruSetProgrammingVoltage_def Let_def split_beta split: option.split)
qed

lemma read_version: "P (snd (snd (PassThruReadVersion v i a b c w))) = P w"
  by (simp add: PassThruReadVersion_def Let_def split_beta)

lemma last_error: "P (snd (snd (PassThruGetLastError b w))) = P w"
  by (simp add: PassThruGetLastError_def)

lemma get_config_loop:
  assumes "\<And>p. may (op_cmd_get_config OP_CMD_MAX (ucast c) p) []" and "P w"
  shows "P (snd (snd (get_config_loop c ps rc w)))"
  using assms(2)
  by (induction ps arbitrary: rc w)
    (simp, simp add: split_paired_all Let_def split_beta simple_cmd assms(1) del: OP_CMD_MAX_def)

lemma set_config_loop:
  assumes "\<And>p v. may (op_cmd_set_config OP_CMD_MAX (ucast c) p v) []" and "P w"
  shows "P (snd (set_config_loop c ps rc w))"
  using assms(2)
  by (induction ps arbitrary: rc w)
    (simp, simp add: split_paired_all Let_def split_beta simple_cmd assms(1) del: OP_CMD_MAX_def)

lemma read_pin:
  assumes "\<And>p. may (op_cmd_read_pin OP_CMD_MAX p) []" and "P w"
  shows "P (snd (snd (ioctl_read_pin pin b w)))"
  using assms by (simp add: ioctl_read_pin_def Let_def split_beta simple_cmd del: OP_CMD_MAX_def split: option.split)

lemma init_exchange:
  assumes "l \<noteq> [] \<Longrightarrow> may l pl" and "P w"
  shows "P (snd (snd (init_exchange l pl w)))"
  using assms by (simp add: init_exchange_def Let_def split_beta simple_cmd split: option.split)

lemma fast_init:
  assumes "\<forall>p. length p \<le> 255 \<longrightarrow> may (op_cmd_fast_init OP_CMD_MAX (ucast c) (length p)) p" and "P w"
  shows "P (snd (snd (ioctl_fast_init c m b w)))"
proof -
  let ?p = "case m of Some m \<Rightarrow> msg_bytes m | None \<Rightarrow> []"
  have "P (snd (snd (init_exchange (op_cmd_fast_init OP_CMD_MAX (ucast c) (length ?p)) ?p w)))"
    using assms by (intro init_exchange) (auto simp: op_cmd_fast_init_def split: if_splits)
  then show ?thesis using assms(2)
    by (simp add: ioctl_fast_init_def Let_def split_beta del: OP_CMD_MAX_def)
qed

lemma run_ioctl:
  assumes "io_allowed may c io" and "P w"
  shows "P (snd (snd (run_ioctl c io w)))"
  using assms
  by (cases io)
    (simp_all add: io_allowed_def run_ioctl_def Let_def split_beta ioctl_get_config_def ioctl_set_config_def
      get_config_loop set_config_loop read_pin ioctl_five_baud_def init_exchange fast_init simple_cmd
      del: OP_CMD_MAX_def split: option.split)

lemma ioctl: "io_allowed may c io \<Longrightarrow> P w \<Longrightarrow> P (snd (snd (PassThruIoctl c io w)))"
  by (simp add: PassThruIoctl_def Let_def split_beta run_ioctl split: option.split)

end

section \<open>In step with the cable\<close>

text \<open>
  The bytes that follow a line, from its verb and its numbers (the table of docs/PROTOCOL.md
  section 4): a transmit, a filter of two or three messages, a periodic message, a fast init.
\<close>

definition payload_len :: "u8 \<Rightarrow> u32 list \<Rightarrow> nat" where
  "payload_len verb args =
    (if verb = of_char CHR ''t'' then unat (args ! 1)
     else if verb = of_char CHR ''f'' then op_filter_msg_count (args ! 1) * unat (args ! 3)
     else if verb = of_char CHR ''m'' then unat (args ! 4)
     else if verb = of_char CHR ''y'' then unat (args ! 1)
     else 0)"

text \<open>A write: the terminator, or one line and exactly the payload it says.\<close>

definition in_step :: "u8 list \<Rightarrow> bool" where
  "in_step b \<longleftrightarrow> b = [13, 10, 13, 10] \<or>
    (let line = takeWhile (\<lambda>c. c \<noteq> 13) b; rest = drop (length line) b in
     3 \<le> length line \<and> take 2 line = ascii ''at'' \<and> take 2 rest = crlf \<and>
     length (drop 2 rest) = payload_len (line ! 2) (parse_tail (drop 3 line)))"

lemma in_step_line:
  assumes "13 \<notin> set body" and "v \<noteq> 13" and "length p = payload_len v (parse_tail body)"
  shows "in_step (97 # 116 # v # body @ crlf @ p)"
proof -
  have "takeWhile (\<lambda>c. c \<noteq> 13) (97 # 116 # v # body @ crlf @ p) = 97 # 116 # v # body"
    using assms(1,2) by (auto simp: crlf_def takeWhile_append)
  then show ?thesis using assms(3) by (simp add: in_step_def Let_def crlf_def text_simps)
qed

text \<open>What a command announces, and the payloads it may be sent with.\<close>

definition announced :: "command \<Rightarrow> nat" where
  "announced c = payload_len (of_char (verb_of c)) (args_of c)"

definition may_line :: "u8 list \<Rightarrow> u8 list \<Rightarrow> bool" where
  "may_line l p \<longleftrightarrow> (\<exists>c. l = encode c \<and> (encodable c \<longrightarrow> length p = announced c)) \<or>
     (\<exists>pin v. l = voltage_line pin v \<and> p = [])"

lemma announced_numbered: "payload_len (of_char (verb_of c)) (args_of c @ [seq]) = announced c"
  by (cases c) (simp_all add: announced_def payload_len_def nth_append)

lemma encode_bad: "\<not> encodable c \<Longrightarrow> encode c = []"
  by (cases c) (auto simp: op_cmd_transmit_def op_cmd_filter_def op_cmd_periodic_start_def
      op_cmd_fast_init_def op_cmd_five_baud_def)

lemma verb_not_cr: "(of_char (verb_of c) :: u8) \<noteq> 13"
  by (cases c) simp_all

lemma announced_args:
  assumes "n = announced c"
  shows "n = payload_len (of_char (verb_of c)) (parse_tail (args_text c))"
proof (cases "\<exists>ch. c = C_Clear_filters ch")
  case False
  then show ?thesis
    using args_text_tokens [of c "[]"] args_of_length [of c] assms by (simp add: announced_def)
qed (use assms in \<open>auto simp: announced_def payload_len_def\<close>)

lemma announced_args_numbered:
  assumes "n = announced c"
  shows "n = payload_len (of_char (verb_of c)) (parse_tail (args_text c @ spaced [seq]))"
proof (cases "\<exists>ch. c = C_Clear_filters ch")
  case False
  then have "parse_tail (args_text c @ spaced [seq]) = args_of c @ [seq]"
    using args_text_tokens [of c "[seq]"] args_of_length [of c] by (simp del: spaced_simps)
  then show ?thesis using assms by (simp only: announced_numbered)
qed (use assms in \<open>auto simp: announced_def payload_len_def\<close>)

lemma command_in_step:
  assumes "encodable c" and "length p = announced c"
  shows "in_step (encode c @ p)" and "in_step (op_cmd_number (encode c) (OP_CMD_MAX + 16) seq @ p)"
proof -
  let ?s = "97 # 116 # of_char (verb_of c) # args_text c"
  have enc: "encode c = ?s @ crlf" using encode_eq [OF assms(1)] by simp
  then have n: "op_cmd_number (encode c) (OP_CMD_MAX + 16) seq = ?s @ spaced [seq] @ crlf"
    using args_text_length [of c] by (intro op_cmd_number_line) (simp_all add: crlf_def)
  have plain: "13 \<notin> set (args_text c)" using args_text_plain [of c] by simp
  have seq: "13 \<notin> set (spaced [seq])" by (auto simp flip: num_def)
  note args = announced_args [OF assms(2)] announced_args_numbered [OF assms(2), of seq]
  show "in_step (encode c @ p)"
    using in_step_line [OF plain verb_not_cr args(1)] enc by simp
  show "in_step (op_cmd_number (encode c) (OP_CMD_MAX + 16) seq @ p)"
    using in_step_line [OF _ verb_not_cr args(2)] plain seq n by simp
qed

lemma voltage_in_step:
  "in_step (voltage_line pin v)" "in_step (op_cmd_number (voltage_line pin v) (OP_CMD_MAX + 16) seq)"
proof -
  let ?b = "32 # dec (unat pin) @ 32 # dec_int (sint (ucast v :: u32))"
  have v: "voltage_line pin v = 97 # 116 # 118 # ?b @ crlf @ []"
    by (simp add: voltage_line_def text_simps)
  have cr: "13 \<notin> set (dec n)" for n using dec_digits [of 13 n] by (auto simp: is_digit_def)
  then have plain: "13 \<notin> set ?b" by (auto simp: dec_int_def)
  show "in_step (voltage_line pin v)"
    unfolding v by (rule in_step_line [OF plain]) (simp_all add: payload_len_def)
  have "op_cmd_number (voltage_line pin v) (OP_CMD_MAX + 16) seq =
      (97 # 116 # 118 # ?b) @ spaced [seq] @ crlf"
    using length_voltage_line [of pin v] by (intro op_cmd_number_line) (simp_all add: v)
  then show "in_step (op_cmd_number (voltage_line pin v) (OP_CMD_MAX + 16) seq)"
    using in_step_line [of "?b @ spaced [seq]" 118 "[]"] plain cr by (simp add: payload_len_def)
qed

lemma exchange_record:
  assumes "cmd_exchange l p t wt w = (st, r, w')"
  shows "sent w' = sent w \<or> l \<noteq> [] \<and> (\<exists>n s. sent w' = sent w @ [(n @ p, s)] \<and> n \<noteq> [] \<and>
    (n = l \<or> n = op_cmd_number l (OP_CMD_MAX + 16) (seq_next (dev w))))"
  using assms
proof (cases rule: exchange_cases)
  case (2 n seq d e)
  then show ?thesis by (auto simp: number_line_def split_beta take_seq_def split: if_splits)
qed (simp add: refused_def)

definition all_in_step :: "world \<Rightarrow> bool" where
  "all_in_step w \<longleftrightarrow> list_all in_step (map fst (sent w))"

interpretation step: sender may_line all_in_step
proof (unfold_locales, goal_cases)
  case (1 l p w t wt)
  have *: "in_step (n @ p)" if "l \<noteq> []" "n = l \<or> n = op_cmd_number l (OP_CMD_MAX + 16) k" for n k
  proof -
    from 1(1) consider c where "l = encode c" "encodable c \<longrightarrow> length p = announced c"
      | pin v where "l = voltage_line pin v" "p = []" unfolding may_line_def by blast
    then show ?thesis
    proof cases
      case 1
      with that(1) encode_bad have "encodable c" by blast
      with 1 that(2) command_in_step [of c p] show ?thesis by blast
    next
      case 2
      with that(2) voltage_in_step show ?thesis by auto
    qed
  qed
  obtain st r w' where x: "cmd_exchange l p t wt w = (st, r, w')" by (metis prod_cases3)
  from exchange_record [OF x] * [of _ "seq_next (dev w)"] 1(2) x show ?case
    by (elim disjE exE conjE) (simp_all add: all_in_step_def del: OP_CMD_MAX_def)
qed (simp_all add: all_in_step_def in_step_def)

text \<open>Every line of the entry points is one of these commands.\<close>

lemma may_encode: "(encodable c \<Longrightarrow> length p = announced c) \<Longrightarrow> may_line (encode c) p"
  unfolding may_line_def by blast

lemma msg_max: "n \<le> OP_MSG_MAX \<Longrightarrow> unat (of_nat n :: u32) = n" "n \<le> 255 \<Longrightarrow> unat (of_nat n :: u32) = n"
  by (simp_all add: unat_of_nat)

lemma may_plain: "announced c = 0 \<Longrightarrow> may_line (encode c) []"
  by (rule may_encode) simp

lemma may_lines:
  "may_line (op_cmd_reset OP_CMD_MAX) []"
  "may_line (op_cmd_close_all OP_CMD_MAX) []"
  "may_line (op_cmd_version OP_CMD_MAX) []"
  "may_line (op_cmd_open OP_CMD_MAX pr fl b) []"
  "may_line (op_cmd_close OP_CMD_MAX c) []"
  "may_line (op_cmd_read_pin OP_CMD_MAX pin) []"
  "may_line (op_cmd_get_config OP_CMD_MAX c prm) []"
  "may_line (op_cmd_set_config OP_CMD_MAX c prm v) []"
  "may_line (op_cmd_stop_filter OP_CMD_MAX c i) []"
  "may_line (op_cmd_clear_filters OP_CMD_MAX c) []"
  "may_line (op_cmd_clear_periodic OP_CMD_MAX c) []"
  "may_line (op_cmd_periodic_stop OP_CMD_MAX c i) []"
  "may_line (op_cmd_five_baud OP_CMD_MAX c x) []"
  "may_line (voltage_line p64 v64) []"
  by (rule may_plain [of "C_Reset", unfolded encode.simps]
      may_plain [of "C_Close_all", unfolded encode.simps]
      may_plain [of "C_Version", unfolded encode.simps]
      may_plain [of "C_Open pr fl b", unfolded encode.simps]
      may_plain [of "C_Close c", unfolded encode.simps]
      may_plain [of "C_Read_pin pin", unfolded encode.simps]
      may_plain [of "C_Get_config c prm", unfolded encode.simps]
      may_plain [of "C_Set_config c prm v", unfolded encode.simps]
      may_plain [of "C_Stop_filter c i", unfolded encode.simps]
      may_plain [of "C_Clear_filters c", unfolded encode.simps]
      may_plain [of "C_Clear_periodic c", unfolded encode.simps]
      may_plain [of "C_Periodic_stop c i", unfolded encode.simps]
      may_plain [of "C_Five_baud c x", unfolded encode.simps];
      simp add: announced_def payload_len_def)+ (auto simp: may_line_def)

lemma may_payload_lines:
  "may_line (op_cmd_transmit OP_CMD_MAX c (msg_size m) fl t) (msg_bytes m)"
  "may_line (op_cmd_periodic_start OP_CMD_MAX c i fl (msg_size m)) (msg_bytes m)"
  "length p = op_filter_msg_count ty * n \<Longrightarrow> may_line (op_cmd_filter OP_CMD_MAX c ty fl n) p"
  "length p \<le> 255 \<Longrightarrow> may_line (op_cmd_fast_init OP_CMD_MAX c (length p)) p"
  by (rule may_encode [of "C_Transmit c (msg_size m) fl t", unfolded encode.simps]
      may_encode [of "C_Periodic_start c i fl (msg_size m)", unfolded encode.simps]
      may_encode [of "C_Filter c ty fl n", unfolded encode.simps]
      may_encode [of "C_Fast_init c (length p)", unfolded encode.simps];
      simp add: announced_def payload_len_def msg_max [simplified])+

lemma may_io: "io_allowed may_line c io"
  by (cases io) (simp_all add: io_allowed_def may_lines may_payload_lines del: OP_CMD_MAX_def)

lemma result_in_step:
  assumes "api_result w rc w'" and "all_in_step w"
  shows "all_in_step w'"
  using assms(1)
proof cases
  case (Open oe detail p out)
  with step.open_device [OF may_lines(1,2,3) assms(2), of oe detail p] show ?thesis by simp
next
  case (Close i)
  with step.close [OF may_lines(1) assms(2), of i] show ?thesis by simp
next
  case (Connect fresh i p fl baud b out)
  with step.connect [OF may_lines(4,5) assms(2), of fresh i p fl baud b] show ?thesis by simp
next
  case (Disconnect c)
  with step.disconnect [OF may_lines(5) assms(2), of c] show ?thesis by simp
next
  case (Read_Msgs clk c pm n t cnt ms)
  with step.read_msgs [OF assms(2)] show ?thesis by blast
next
  case (Write_Msgs clk c pm n t cnt)
  with step.write_msgs [OF may_payload_lines(1) assms(2), of clk c pm n t] show ?thesis by simp
next
  case (Start_Periodic c m b t out)
  with step.start_periodic_msg [OF may_payload_lines(2) assms(2), of c m b t] show ?thesis by simp
next
  case (Stop_Periodic c i)
  with step.stop_periodic_msg [OF may_lines(12) assms(2), of c i] show ?thesis by simp
next
  case (Start_Filter c ft m1 m2 m3 b out)
  with step.start_msg_filter [OF may_payload_lines(3) assms(2), of ft c m1 m2 m3 b] show ?thesis by simp
next
  case (Stop_Filter c i)
  with step.stop_msg_filter [OF may_lines(9) assms(2), of c i] show ?thesis by simp
next
  case (Voltage i pin v)
  with step.programming_voltage [OF may_lines(14) assms(2), where pin = pin and v = v and i = i] show ?thesis by simp
next
  case (Version ver i b1 b2 b3 vs)
  with step.read_version [of ver i b1 b2 b3 w] assms(2) show ?thesis by simp
next
  case (Ioctl c io res)
  with step.ioctl [OF may_io assms(2), of c io] show ?thesis by simp
qed

lemma reachable_in_step: "reachable w \<Longrightarrow> all_in_step w"
proof (induction rule: reachable.induct)
  case (Step w w')
  from Step.hyps(2) show ?case
  proof cases
    case (Call rc)
    then show ?thesis using Step.IH by (rule result_in_step)
  next
    case (Last_Error b rc s)
    with step.last_error [of b w] Step.IH show ?thesis by simp
  qed (use Step.IH in simp_all)
qed (simp add: all_in_step_def)

section \<open>Property\<close>

text \<open>What was sent stays sent.\<close>

interpretation grow: sender "\<lambda>l p. True" "\<lambda>w. prefix s (sent w)" for s
proof (unfold_locales, goal_cases)
  case (1 l p w t wt)
  obtain st r w' where x: "cmd_exchange l p t wt w = (st, r, w')" by (metis prod_cases3)
  from 1 exchange_record [OF x] x show ?case by (auto simp: prefix_def)
qed (auto simp: prefix_def)

text \<open>C5. After any sequence of calls with any arguments, replies and interleavings, everything that was
  handed to the transport is the terminator or one complete command line with exactly as many payload
  bytes as the line announces: the driver never puts the cable out of step.\<close>

theorem wire_in_step:
  assumes "reachable w"
  shows "list_all in_step (map fst (sent w))"
  using reachable_in_step [OF assms] by (simp add: all_in_step_def)

text \<open>The open of a cable that answers, after which the terminator was written.\<close>

theorem wire_in_step_witness:
  "\<exists>w'. w' = snd (snd (PassThruOpen opening_env None True opening_world)) \<and>
     sent w' \<noteq> [] \<and> list_all in_step (map fst (sent w'))"
proof -
  let ?w = "snd (snd (PassThruOpen opening_env None True opening_world))"
  have "reachable ?w"
    by (rule Step [OF Start Call [OF Open]]) (auto simp: opening_world_def prod_eq_iff)
  moreover have "sent ?w \<noteq> []"
  proof -
    obtain v where v: "op_device_open opening_env opening_world = (OP_OK, v)"
      using opening_succeeds by (metis prod.collapse)
    then have "sync_device (on_dev (\<lambda>d. d\<lparr>t_open := True, reader_started := True, reader_done := False,
        failures := 0, d_open := True\<rparr>) (on_dev (reset_session 0) opening_world)) = (OP_OK, v)"
      by (auto simp: op_device_open_def opening_env_def opening_world_def g_device_def Let_def split_beta
          prod_eq_iff split: if_splits)
    from sync_device_run [OF this] have "sent v \<noteq> []"
      by (auto simp: reset_session_def start_seq)
    moreover have "?w = snd (open_identify v)"
      using v by (simp add: PassThruOpen_def clear_err_def opening_world_def g_device_def Let_def split_beta op_err_clear_def)
    ultimately show ?thesis using grow.identify [of "sent v" v] by (auto simp: prefix_def)
  qed
  ultimately show ?thesis using wire_in_step by blast
qed

end
