(* ===== verification/Driver.thy ===== *)
theory Driver
  imports Client Wire
begin

text \<open>
  The library of this repository as a program sees it: every call of a program is the entry point of
  src/op_j2534.c, in any environment. What an entry point sends, by the verb of the line; the driver
  in the interface \<open>device_library\<close>.
\<close>

section \<open>The driver as a library\<close>

text \<open>What the environment does during one call: the transport's open, the clock, \<open>malloc\<close>.\<close>

record environment =
  v_open :: open_env
  v_detail :: "string option"
  v_clock :: "int list"
  v_fresh :: "mem option"
  v_version :: string

text \<open>\<open>None\<close>: the readings of the clock end before the read does.\<close>

definition serve_call :: "environment \<Rightarrow> request \<Rightarrow> world \<Rightarrow> (answer \<times> world) option" where
  "serve_call v r w =
    (let status = (\<lambda>(rc, w). Some (answer0\<lparr>a_rc := rc\<rparr>, w));
         with_id = (\<lambda>(rc, i, w). Some (answer0\<lparr>a_rc := rc, a_id := i\<rparr>, w)) in
     case r of
       R_Open \<Rightarrow> with_id (PassThruOpen (v_open v) (v_detail v) True w)
     | R_Close d \<Rightarrow> status (PassThruClose d w)
     | R_Connect d p f b \<Rightarrow> with_id (PassThruConnect (v_fresh v) d p f b True w)
     | R_Disconnect c \<Rightarrow> status (PassThruDisconnect c w)
     | R_Read c n t \<Rightarrow>
         map_option (\<lambda>(rc, cnt, ms, w). (answer0\<lparr>a_rc := rc, a_count := cnt, a_msgs := ms\<rparr>, w))
           (PassThruReadMsgs (v_clock v) c True (Some n) t w)
     | R_Write c ms n t \<Rightarrow>
         (let (rc, cnt, w) = PassThruWriteMsgs (v_clock v) c (Some ms) (Some n) t w
          in Some (answer0\<lparr>a_rc := rc, a_count := cnt\<rparr>, w))
     | R_Start_Periodic c m i \<Rightarrow> with_id (PassThruStartPeriodicMsg c (Some m) True i w)
     | R_Stop_Periodic c i \<Rightarrow> status (PassThruStopPeriodicMsg c i w)
     | R_Start_Filter c ft a b f \<Rightarrow> with_id (PassThruStartMsgFilter c ft a b f True w)
     | R_Stop_Filter c i \<Rightarrow> status (PassThruStopMsgFilter c i w)
     | R_Voltage d p x \<Rightarrow> status (PassThruSetProgrammingVoltage d p x w)
     | R_Version d \<Rightarrow>
         (let (rc, vs, w) = PassThruReadVersion (v_version v) d True True True w in Some (answer0\<lparr>a_rc := rc\<rparr>, w))
     | R_Last_Error \<Rightarrow>
         (let (rc, s, w) = PassThruGetLastError True w in Some (answer0\<lparr>a_rc := rc\<rparr>, w))
     | R_Ioctl c io \<Rightarrow>
         (let (rc, out, w) = PassThruIoctl c io w in Some (answer0\<lparr>a_rc := rc, a_out := out\<rparr>, w)))"

text \<open>A process and the environments of the calls to come; a run ends where they end.\<close>

type_synonym process = "world \<times> environment list"

definition driver :: "process \<Rightarrow> request \<Rightarrow> (answer \<times> process) option" where
  "driver p r =
    (case snd p of
       [] \<Rightarrow> None
     | v # vs \<Rightarrow> map_option (\<lambda>(a, w). (a, (w, vs))) (serve_call v r (fst p)))"

lemma driver_cases:
  assumes "driver p r = Some (a, p')"
  obtains v vs where "snd p = v # vs" "serve_call v r (fst p) = Some (a, fst p')" "snd p' = vs"
  using assms by (auto simp: driver_def split: list.splits)

section \<open>Open and closed\<close>

text \<open>On a closed device every call but an open fails at once.\<close>

lemma closed_calls:
  assumes "\<not> d_open (dev w)" and "serve_call v r w = Some (a, w')" and "r \<noteq> R_Open"
  shows "dev w' = dev w"
  using assms
  by (cases r) (auto simp: serve_call_def PassThruClose_def PassThruConnect_def PassThruDisconnect_def
      PassThruReadMsgs_def PassThruWriteMsgs_def PassThruStartPeriodicMsg_def PassThruStopPeriodicMsg_def
      PassThruStartMsgFilter_def PassThruStopMsgFilter_def PassThruSetProgrammingVoltage_def
      PassThruReadVersion_def PassThruGetLastError_def PassThruIoctl_def Let_def split_beta)

lemma events_stay_closed: "\<not> d_open d \<Longrightarrow> \<not> d_open (apply_events es d)"
proof (rule apply_events_keeps [where P = "\<lambda>d. \<not> d_open d"])
  fix e and d :: op_device
  assume "\<not> d_open d"
  then show "\<not> d_open (apply_event e d)"
    by (cases e) (simp_all add: reader_turn_keeps [where P = "\<lambda>d. \<not> d_open d"])
qed

lemma close_device_closed: "\<not> d_open (dev (op_device_close w))"
  using events_stay_closed by (simp add: op_device_close_def Let_def split_beta)

lemma PassThruClose_closes: "\<not> d_open (dev (snd (PassThruClose OP_DEVICE_ID w)))"
  using close_device_closed
  by (simp add: PassThruClose_def failed_def Let_def split_beta)

lemma open_failed_dev [simp]: "dev (snd (open_failed st detail w)) = dev w"
  by (simp add: open_failed_def Let_def split: option.split)

lemma PassThruOpen_result:
  assumes "PassThruOpen oe detail True w = (rc, i, w')" and "\<not> d_open (dev w)"
  shows "rc = 0 \<longrightarrow> i = Some OP_DEVICE_ID" and "rc \<noteq> 0 \<longrightarrow> \<not> d_open (dev w')"
proof -
  obtain st v where o: "op_device_open oe (clear_err w) = (st, v)" by force
  have v: "\<not> d_open (dev v)" if "st \<noteq> OP_OK"
    using o that assms(2) close_device_closed
    by (auto simp: op_device_open_def Let_def split_beta reset_session_def split: if_splits)
  have ident: "fst (open_identify v) = 0 \<or> \<not> d_open (dev (snd (open_identify v)))"
    using close_device_closed
    by (simp add: open_identify_def Let_def split_beta split: option.split)
  have zero: "fst (open_failed st detail v) \<noteq> 0"
    by (simp add: open_failed_def Let_def)
  show "rc = 0 \<longrightarrow> i = Some OP_DEVICE_ID" "rc \<noteq> 0 \<longrightarrow> \<not> d_open (dev w')"
    using assms(1) o v ident zero assms(2)
    by (auto simp: PassThruOpen_def Let_def split_beta split: if_splits)
qed

lemma opened:
  "serve_call v R_Open w = Some (a, w') \<longleftrightarrow>
    (\<exists>rc i. PassThruOpen (v_open v) (v_detail v) True w = (rc, i, w') \<and> a = answer0\<lparr>a_rc := rc, a_id := i\<rparr>)"
  by (auto simp: serve_call_def split_beta prod_eq_iff)

interpretation lib: device_library driver "\<lambda>p. d_open (dev (fst p))" OP_DEVICE_ID
proof (unfold_locales, goal_cases)
  case (1 s r a s')
  then show ?case by (metis closed_calls driver_cases)
next
  case (2 s a s')
  then show ?case using PassThruOpen_result(1) by (elim driver_cases) (auto simp: opened)
next
  case (3 s a s')
  then show ?case using PassThruOpen_result(2) by (elim driver_cases) (auto simp: opened)
next
  case (4 s a s')
  then show ?case using PassThruClose_closes [of "fst s"]
    by (elim driver_cases) (auto simp: serve_call_def split_beta)
qed

section \<open>Nothing on the vehicle's lines\<close>

text \<open>
  The lines that make the cable put something on a vehicle's lines: a transmit, a periodic message,
  the two K-line initialisations. A write is silent when it is not one of these.
\<close>

definition speaking :: "u8 list" where "speaking = ascii ''tmwy''"

definition silent :: "u8 list \<Rightarrow> bool" where
  "silent b \<longleftrightarrow> \<not> (take 2 b = ascii ''at'' \<and> b ! 2 \<in> set speaking)"

definition may_silent :: "u8 list \<Rightarrow> u8 list \<Rightarrow> bool" where
  "may_silent l p \<longleftrightarrow> l = [] \<or> 5 \<le> length l \<and> l ! 2 \<notin> set speaking"

definition silent_since :: "nat \<Rightarrow> world \<Rightarrow> bool" where
  "silent_since n w \<longleftrightarrow> list_all silent (map fst (drop n (sent w)))"

lemma silent_since_snoc:
  "silent_since n w \<Longrightarrow> silent b \<Longrightarrow> sent w' = sent w @ [(b, s)] \<Longrightarrow> silent_since n w'"
  by (simp add: silent_since_def drop_Cons split: nat.split)

lemma number_third: "5 \<le> length l \<Longrightarrow> op_cmd_number l sz k \<noteq> [] \<Longrightarrow> (op_cmd_number l sz k @ p) ! 2 = l ! 2"
  by (auto simp: op_cmd_number_def Let_def nth_append split: if_splits)

interpretation hush: sender may_silent "silent_since n" for n
proof (unfold_locales, goal_cases)
  case (1 l p w t wt)
  obtain st r w' where x: "cmd_exchange l p t wt w = (st, r, w')" by (metis prod_cases3)
  show ?case
  proof (cases "sent w' = sent w")
    case False
    from exchange_record [OF x] False obtain b s where b: "l \<noteq> []" "sent w' = sent w @ [(b @ p, s)]" "b \<noteq> []"
      "b = l \<or> b = op_cmd_number l (OP_CMD_MAX + 16) (seq_next (dev w))" by blast
    then have "5 \<le> length l" "l ! 2 \<notin> set speaking" using 1(1) by (simp_all add: may_silent_def)
    with b(3,4) number_third [of l "OP_CMD_MAX + 16" "seq_next (dev w)" p] have "(b @ p) ! 2 = l ! 2"
      by (elim disjE) (simp add: nth_append, metis)
    then have "silent (b @ p)" using \<open>l ! 2 \<notin> set speaking\<close> by (simp add: silent_def)
    with silent_since_snoc [OF 1(2)] b(2) x show ?thesis by simp
  qed (use 1 x in \<open>simp add: silent_since_def\<close>)
qed (simp_all add: silent_since_def silent_def text_simps drop_Cons split: nat.split)

lemma may_silent_command:
  assumes "verb_of c \<notin> set ''tmwy''"
  shows "may_silent (encode c) p"
proof (cases "encodable c")
  case True
  have "(of_char (verb_of c) :: u8) \<notin> set speaking"
    using assms by (cases c) (simp_all add: speaking_def text_simps)
  then show ?thesis using encode_eq [OF True] by (simp add: may_silent_def crlf_def)
qed (simp add: encode_bad may_silent_def)

lemma may_silent_lines:
  "may_silent (op_cmd_reset OP_CMD_MAX) p" "may_silent (op_cmd_close_all OP_CMD_MAX) p"
  "may_silent (op_cmd_version OP_CMD_MAX) p" "may_silent (op_cmd_open OP_CMD_MAX pr fl b) p"
  "may_silent (op_cmd_close OP_CMD_MAX c) p" "may_silent (op_cmd_read_pin OP_CMD_MAX pin) p"
  "may_silent (op_cmd_get_config OP_CMD_MAX c prm) p" "may_silent (op_cmd_set_config OP_CMD_MAX c prm v) p"
  "may_silent (op_cmd_stop_filter OP_CMD_MAX c i) p" "may_silent (op_cmd_clear_filters OP_CMD_MAX c) p"
  "may_silent (op_cmd_clear_periodic OP_CMD_MAX c) p" "may_silent (op_cmd_periodic_stop OP_CMD_MAX c i) p"
  "may_silent (op_cmd_filter OP_CMD_MAX c ty fl n) p" "may_silent (voltage_line p64 v64) p"
  by (rule may_silent_command [of C_Reset, unfolded encode.simps]
      may_silent_command [of C_Close_all, unfolded encode.simps]
      may_silent_command [of C_Version, unfolded encode.simps]
      may_silent_command [of "C_Open pr fl b", unfolded encode.simps]
      may_silent_command [of "C_Close c", unfolded encode.simps]
      may_silent_command [of "C_Read_pin pin", unfolded encode.simps]
      may_silent_command [of "C_Get_config c prm", unfolded encode.simps]
      may_silent_command [of "C_Set_config c prm v", unfolded encode.simps]
      may_silent_command [of "C_Stop_filter c i", unfolded encode.simps]
      may_silent_command [of "C_Clear_filters c", unfolded encode.simps]
      may_silent_command [of "C_Clear_periodic c", unfolded encode.simps]
      may_silent_command [of "C_Periodic_stop c i", unfolded encode.simps]
      may_silent_command [of "C_Filter c ty fl n", unfolded encode.simps]; simp)+
    (simp add: may_silent_def voltage_line_def text_simps crlf_def speaking_def)

text \<open>A call without payloads, other than a fast init without a request, sends only such lines.\<close>

definition quiet_call :: "request \<Rightarrow> bool" where
  "quiet_call r =
    (case r of
       R_Write c ms n t \<Rightarrow> False
     | R_Start_Periodic c m i \<Rightarrow> False
     | R_Ioctl c (Io_Fast_Init m b) \<Rightarrow> False
     | R_Ioctl c (Io_Five_Baud_Init i out) \<Rightarrow> False
     | _ \<Rightarrow> True)"

lemma serve_silent:
  assumes "serve_call v r w = Some (a, w')" and "quiet_call r" and "silent_since n w"
  shows "silent_since n w'"
proof (cases r)
  case R_Open
  with assms(1) hush.open_device [OF may_silent_lines(1,2,3) assms(3), of "v_open v" "v_detail v" True]
  show ?thesis by (auto simp: serve_call_def split_beta)
next
  case (R_Close d)
  with assms(1) hush.close [OF may_silent_lines(1) assms(3), of d] show ?thesis
    by (auto simp: serve_call_def split_beta)
next
  case (R_Connect d p f b)
  with assms(1) hush.connect [OF may_silent_lines(4,5) assms(3), of "v_fresh v" d p f b True] show ?thesis
    by (auto simp: serve_call_def split_beta)
next
  case (R_Disconnect c)
  with assms(1) hush.disconnect [OF may_silent_lines(5) assms(3), of c] show ?thesis
    by (auto simp: serve_call_def split_beta)
next
  case (R_Read c m t)
  with assms(1) hush.read_msgs [OF assms(3)] show ?thesis by (fastforce simp: serve_call_def)
next
  case (R_Stop_Periodic c i)
  with assms(1) hush.stop_periodic_msg [OF may_silent_lines(12) assms(3), of c i] show ?thesis
    by (auto simp: serve_call_def split_beta)
next
  case (R_Start_Filter c ft x y f)
  with assms(1) hush.start_msg_filter [OF may_silent_lines(13) assms(3), where c = c and ft = ft and a = x and b = y and f = f and i = True] show ?thesis
    by (auto simp: serve_call_def split_beta)
next
  case (R_Stop_Filter c i)
  with assms(1) hush.stop_msg_filter [OF may_silent_lines(9) assms(3), of c i] show ?thesis
    by (auto simp: serve_call_def split_beta)
next
  case (R_Voltage d p x)
  with assms(1) hush.programming_voltage [OF may_silent_lines(14) assms(3), where pin = p and v = x and i = d]
  show ?thesis by (auto simp: serve_call_def split_beta)
next
  case (R_Version d)
  with assms(1,3) hush.read_version [of n "v_version v" d True True True w] show ?thesis
    by (auto simp: serve_call_def split_beta)
next
  case R_Last_Error
  with assms(1,3) hush.last_error [of n True w] show ?thesis by (auto simp: serve_call_def split_beta)
next
  case (R_Ioctl c io)
  then have "io_allowed may_silent c io"
    using assms(2) by (cases io) (simp_all add: quiet_call_def io_allowed_def may_silent_lines del: OP_CMD_MAX_def)
  with assms(1) R_Ioctl hush.ioctl [OF _ assms(3), of c io] show ?thesis
    by (auto simp: serve_call_def split_beta)
qed (use assms(2) in \<open>simp_all add: quiet_call_def\<close>)

lemma program_silent:
  assumes "obeys (only quiet_call) p ()"
  shows "silent_since (length (sent w)) (fst (snd (snd (run driver p (w, vs)))))"
proof (rule run_invariant [OF assms, where I = "\<lambda>s. silent_since (length (sent w)) (fst s)"])
  fix s r a s'
  assume "quiet_call r" "driver s r = Some (a, s')" "silent_since (length (sent w)) (fst s)"
  then show "silent_since (length (sent w)) (fst s')" by (metis driver_cases serve_silent)
qed (simp add: silent_since_def)

end
