(* ===== verification/Recording.thy ===== *)
theory Recording
  imports J2534
begin

text \<open>
  The call recording of src/op_j2534.c: with OPENPORT_RECORD set, each entry point appends a line
  with what the application asked for. The lines as bytes; whether a file is open is outside.
\<close>

section \<open>Calls\<close>

text \<open>
  What is recorded of a call. \<open>C_result\<close> is the line after a call that hands out an id. A message
  pointer that is NULL is \<open>None\<close>; a NULL array has no messages.
\<close>

datatype call =
    C_open
  | C_close u64
  | C_connect u64 u64 u64 u64
  | C_disconnect u64
  | C_read u64 u64 u64
  | C_write u64 u64 u64 "PASSTHRU_MSG list"
  | C_startp u64 u64 "PASSTHRU_MSG option"
  | C_stopp u64 u64
  | C_filter u64 u64 "PASSTHRU_MSG option" "PASSTHRU_MSG option" "PASSTHRU_MSG option"
  | C_stopf u64 u64
  | C_progv u64 u64 u64
  | C_version u64
  | C_lasterr
  | C_ioctl u64 u64 "(u64 \<times> u64) list"
  | C_result u64

section \<open>Texts\<close>

definition hex_digit :: "nat \<Rightarrow> u8" where
  "hex_digit n = (if n < 10 then of_nat (48 + n) else of_nat (87 + n))"

text \<open>\<open>%02x\<close> of a byte, and \<open>%lu\<close>.\<close>

definition hex2 :: "u8 \<Rightarrow> u8 list" where
  "hex2 b = [hex_digit (unat b div 16), hex_digit (unat b mod 16)]"

definition lu :: "u64 \<Rightarrow> u8 list" where
  "lu x = dec (unat x)"

definition rec_hex :: "u8 list \<Rightarrow> u8 list" where
  "rec_hex d = (if d = [] then [45] else concat (map hex2 d))"

text \<open>The bytes of a message that are recorded: a size beyond the array is cut to it.\<close>

definition rec_data :: "PASSTHRU_MSG \<Rightarrow> u8 list" where
  "rec_data m = mem_read (Data m) 0
     (if unat (DataSize m) > J2534_MSG_DATA_MAX then J2534_MSG_DATA_MAX else unat (DataSize m))"

definition rec_msg :: "PASSTHRU_MSG option \<Rightarrow> u8 list" where
  "rec_msg mo =
    (case mo of
       None \<Rightarrow> [32, 45, 32, 45, 32, 45]
     | Some m \<Rightarrow> [32] @ lu (ProtocolID m) @ [32] @ lu (TxFlags m) @ [32] @ rec_hex (rec_data m))"

text \<open>A line of a verb and numbers.\<close>

definition rec_line :: "string \<Rightarrow> u64 list \<Rightarrow> u8 list" where
  "rec_line verb xs = ascii verb @ concat (map (\<lambda>x. 32 # lu x) xs) @ [10]"

text \<open>The messages after a head, at most 64.\<close>

definition rec_msgs :: "u8 list \<Rightarrow> PASSTHRU_MSG list \<Rightarrow> u8 list" where
  "rec_msgs head ms = head @ concat (map (\<lambda>m. rec_msg (Some m)) (take 64 ms)) @ [10]"

definition rec_head :: "string \<Rightarrow> u64 list \<Rightarrow> u8 list" where
  "rec_head verb xs = ascii verb @ concat (map (\<lambda>x. 32 # lu x) xs)"

definition rec_write :: "u64 \<Rightarrow> u64 \<Rightarrow> u64 \<Rightarrow> PASSTHRU_MSG list \<Rightarrow> u8 list" where
  "rec_write ch n timeout ms = rec_msgs (rec_head ''write'' [ch, n, timeout]) ms"

text \<open>\<open>rec_msgs\<close> with a NULL array writes no message at all.\<close>

definition rec_startp :: "u64 \<Rightarrow> u64 \<Rightarrow> PASSTHRU_MSG option \<Rightarrow> u8 list" where
  "rec_startp ch interval mo =
    rec_msgs (rec_head ''startp'' [ch, interval]) (case mo of None \<Rightarrow> [] | Some m \<Rightarrow> [m])"

definition rec_filter ::
  "u64 \<Rightarrow> u64 \<Rightarrow> PASSTHRU_MSG option \<Rightarrow> PASSTHRU_MSG option \<Rightarrow> PASSTHRU_MSG option \<Rightarrow> u8 list" where
  "rec_filter ch typ m1 m2 m3 =
    rec_head ''filter'' [ch, typ] @ rec_msg m1 @ rec_msg m2 @ rec_msg m3 @ [10]"

text \<open>
  The parameters of a configuration call, at most 32; a get records the value 0. Every other input
  of an ioctl is left out.
\<close>

definition rec_ioctl :: "u64 \<Rightarrow> u64 \<Rightarrow> (u64 \<times> u64) list \<Rightarrow> u8 list" where
  "rec_ioctl ch ioctl_id cfg =
    rec_head ''ioctl'' [ch, ioctl_id] @
    (if ioctl_id = SET_CONFIG \<or> ioctl_id = GET_CONFIG then
       concat (map (\<lambda>(p, v). [32] @ lu p @ [61] @ lu (if ioctl_id = SET_CONFIG then v else 0)) (take 32 cfg))
     else []) @ [10]"

definition rec_call :: "call \<Rightarrow> u8 list" where
  "rec_call c =
    (case c of
       C_open \<Rightarrow> rec_line ''open'' []
     | C_close d \<Rightarrow> rec_line ''close'' [d]
     | C_connect d p f b \<Rightarrow> rec_line ''connect'' [d, p, f, b]
     | C_disconnect ch \<Rightarrow> rec_line ''disconnect'' [ch]
     | C_read ch n t \<Rightarrow> rec_line ''read'' [ch, n, t]
     | C_write ch n t ms \<Rightarrow> rec_write ch n t ms
     | C_startp ch i mo \<Rightarrow> rec_startp ch i mo
     | C_stopp ch i \<Rightarrow> rec_line ''stopp'' [ch, i]
     | C_filter ch t a b f \<Rightarrow> rec_filter ch t a b f
     | C_stopf ch i \<Rightarrow> rec_line ''stopf'' [ch, i]
     | C_progv d p v \<Rightarrow> rec_line ''progv'' [d, p, v]
     | C_version d \<Rightarrow> rec_line ''version'' [d]
     | C_lasterr \<Rightarrow> rec_line ''lasterr'' []
     | C_ioctl ch i cfg \<Rightarrow> rec_ioctl ch i cfg
     | C_result i \<Rightarrow> rec_line ''='' [i])"

section \<open>The file\<close>

text \<open>
  Whether there is a file to record to, given whether there was one: \<open>OPENPORT_RECORD\<close>, and whether it can
  be opened now. A file that could not be opened is tried again at the next line.
\<close>

definition rec_on :: "u8 list option \<Rightarrow> bool \<Rightarrow> bool \<Rightarrow> bool" where
  "rec_on path opens on \<longleftrightarrow> on \<or> (case path of None \<Rightarrow> False | Some p \<Rightarrow> p \<noteq> [] \<and> opens)"

text \<open>A line, appended to the file where there is one.\<close>

definition rec_append :: "u8 list option \<Rightarrow> bool \<Rightarrow> u8 list \<Rightarrow> bool \<times> u8 list \<Rightarrow> bool \<times> u8 list" where
  "rec_append path opens l f =
    (let on = rec_on path opens (fst f) in (on, if on then snd f @ l else snd f))"

lemma recorded_lines:
  "p \<noteq> [] \<Longrightarrow> snd (fold (rec_append (Some p) True) ls (on, old)) = old @ concat ls"
  "snd (fold (rec_append None opens) ls (False, old)) = old"
  "snd (fold (rec_append (Some []) opens) ls (False, old)) = old"
  by (induction ls arbitrary: on old) (simp_all add: rec_append_def rec_on_def Let_def)

end
