(* ===== verification/Replay.thy ===== *)
theory Replay
  imports Recording
begin

text \<open>
  The replay of tools/ab-official/j2534_trace.c, which reads a recording and makes the calls on
  another library, with the ids of the recording mapped onto those this library hands out. The
  library is outside: the id it gives out for a call is an argument. What is shown: a recorded call
  is read back as it was made, and a session whose ids agree is replayed as it was.
\<close>

section \<open>The C string functions\<close>

definition is_space :: "u8 \<Rightarrow> bool" where
  "is_space c \<longleftrightarrow> c = 32 \<or> (9 \<le> c \<and> c \<le> 13)"

text \<open>\<open>strtok_r\<close>: the token and what follows the delimiter that ended it.\<close>

definition strtok :: "(u8 \<Rightarrow> bool) \<Rightarrow> u8 list \<Rightarrow> (u8 list \<times> u8 list) option" where
  "strtok delim s =
    (let s = dropWhile delim s in
     if s = [] then None
     else Some (takeWhile (\<lambda>c. \<not> delim c) s, drop 1 (dropWhile (\<lambda>c. \<not> delim c) s)))"

definition ws :: "u8 \<Rightarrow> bool" where
  "ws c \<longleftrightarrow> c = 32 \<or> c = 9 \<or> c = 13 \<or> c = 10"

definition blank :: "u8 \<Rightarrow> bool" where
  "blank c \<longleftrightarrow> c = 32"

definition ULONG_MAX :: nat where "ULONG_MAX = 18446744073709551615"

text \<open>A decimal number as \<open>strtoul\<close> and \<open>%lu\<close> read it: space, sign, digits; too large means the largest.\<close>

definition scan_sign :: "u8 list \<Rightarrow> bool \<times> u8 list" where
  "scan_sign s = (if s \<noteq> [] \<and> hd s = 45 then (True, tl s) else if s \<noteq> [] \<and> hd s = 43 then (False, tl s) else (False, s))"

definition scan_lu :: "u8 list \<Rightarrow> (u64 \<times> u8 list) option" where
  "scan_lu s =
    (let (neg, s) = scan_sign (dropWhile is_space s);
         ds = takeWhile is_digit s
     in if ds = [] then None
        else
          let v = dec_value ds;
              x = (if v > ULONG_MAX then of_nat ULONG_MAX else if neg then - of_nat v else of_nat v)
          in Some (x, dropWhile is_digit s))"

definition strtoul :: "u8 list \<Rightarrow> u64" where
  "strtoul s = (case scan_lu s of None \<Rightarrow> 0 | Some (v, _) \<Rightarrow> v)"

text \<open>\<open>sscanf\<close> with \<open>n\<close> times \<open>%lu\<close>; what is not read stays 0.\<close>

fun scan_lus :: "nat \<Rightarrow> u8 list \<Rightarrow> u64 list" where
  "scan_lus 0 s = []"
| "scan_lus (Suc n) s =
    (case scan_lu s of None \<Rightarrow> replicate (Suc n) 0 | Some (v, s) \<Rightarrow> v # scan_lus n s)"

text \<open>\<open>%2x\<close> on two characters of a token.\<close>

definition hex_val :: "u8 \<Rightarrow> nat option" where
  "hex_val c =
    (if 48 \<le> c \<and> c \<le> 57 then Some (unat c - 48)
     else if 97 \<le> c \<and> c \<le> 102 then Some (unat c - 87)
     else if 65 \<le> c \<and> c \<le> 70 then Some (unat c - 55)
     else None)"

definition scan_2x :: "u8 \<Rightarrow> u8 \<Rightarrow> u8 option" where
  "scan_2x a b =
    (case hex_val a of
       Some x \<Rightarrow>
         (case hex_val b of
            Some y \<Rightarrow> Some (of_nat (16 * x + y))
          | None \<Rightarrow> if x = 0 \<and> (b = 120 \<or> b = 88) then None else Some (of_nat x))
     | None \<Rightarrow>
         (case hex_val b of
            Some y \<Rightarrow> if a = 43 then Some (of_nat y) else if a = 45 then Some (- of_nat y) else None
          | None \<Rightarrow> None))"

section \<open>Messages\<close>

fun hex_pairs :: "u8 list \<Rightarrow> nat \<Rightarrow> u8 list" where
  "hex_pairs (a # b # h) (Suc cap) =
    (case scan_2x a b of None \<Rightarrow> [] | Some v \<Rightarrow> v # hex_pairs h cap)"
| "hex_pairs h cap = []"

definition hex_to_bytes :: "u8 list \<Rightarrow> nat \<Rightarrow> u8 list" where
  "hex_to_bytes h cap = (if h = [45] then [] else hex_pairs h cap)"

text \<open>A message as the replayer builds it: the recorded fields, all else 0.\<close>

definition plain_msg :: "u64 \<Rightarrow> u64 \<Rightarrow> u8 list \<Rightarrow> PASSTHRU_MSG" where
  "plain_msg p f d = msg0\<lparr>ProtocolID := p, TxFlags := f, DataSize := of_nat (length d),
     Data := mem_write (\<lambda>_. 0) 0 d\<rparr>"

text \<open>The elements of the array that are reached: \<open>None\<close> where one is counted but not written.\<close>

fun parse_msgs :: "nat \<Rightarrow> u8 list \<Rightarrow> PASSTHRU_MSG option list" where
  "parse_msgs 0 s = []"
| "parse_msgs (Suc cap) s =
    (case strtok ws s of
       None \<Rightarrow> []
     | Some (proto, s) \<Rightarrow>
         (case strtok ws s of
            None \<Rightarrow> []
          | Some (flags, s) \<Rightarrow>
              (case strtok ws s of
                 None \<Rightarrow> []
               | Some (hex, s) \<Rightarrow>
                   (if proto = [45] then None
                    else Some (plain_msg (strtoul proto) (strtoul flags) (hex_to_bytes hex J2534_MSG_DATA_MAX)))
                   # parse_msgs cap s)))"

text \<open>The static array after that.\<close>

definition store :: "(nat \<Rightarrow> PASSTHRU_MSG) \<Rightarrow> PASSTHRU_MSG option list \<Rightarrow> nat \<Rightarrow> PASSTHRU_MSG" where
  "store msgs ps i = (if i < length ps then (case ps ! i of Some m \<Rightarrow> m | None \<Rightarrow> msgs i) else msgs i)"

section \<open>Ids\<close>

type_synonym idmap = "(u64 \<times> u64) list"

definition map_find :: "idmap \<Rightarrow> u64 \<Rightarrow> u64 option" where
  "map_find m x = map_of m x"

text \<open>\<open>map_get\<close>, and with it \<open>map_ch\<close> and \<open>map_dev\<close>, which only warn: an id never mapped is used as it is.\<close>

definition map_get :: "idmap \<Rightarrow> u64 \<Rightarrow> u64" where
  "map_get m x = (case map_find m x of Some v \<Rightarrow> v | None \<Rightarrow> x)"

text \<open>A known id has its first entry overwritten, a new one goes to the end where there is room.\<close>

fun map_set :: "idmap \<Rightarrow> u64 \<Rightarrow> u64 \<Rightarrow> idmap" where
  "map_set [] x live = []"
| "map_set ((r, l) # m) x live = (if r = x then (r, live) # m else (r, l) # map_set m x live)"

definition map_put :: "idmap \<Rightarrow> nat \<Rightarrow> u64 \<Rightarrow> u64 \<Rightarrow> idmap" where
  "map_put m cap x live =
    (if map_find m x \<noteq> None then map_set m x live
     else if length m < cap then m @ [(x, live)] else m)"

datatype last_call = L_none | L_open | L_connect | L_filter | L_periodic

record replay_state =
  m_dev :: idmap
  m_ch :: idmap
  m_filt :: idmap
  m_per :: idmap
  m_msgs :: "nat \<Rightarrow> PASSTHRU_MSG"
  last_kind :: last_call
  last_live :: u64

definition map_any :: "replay_state \<Rightarrow> u64 \<Rightarrow> u64" where
  "map_any s x = (case map_find (m_ch s) x of Some v \<Rightarrow> v | None \<Rightarrow> map_get (m_dev s) x)"

definition replay0 :: replay_state where
  "replay0 = \<lparr>m_dev = [], m_ch = [], m_filt = [], m_per = [], m_msgs = (\<lambda>_. msg0), last_kind = L_none, last_live = 0\<rparr>"


section \<open>A line\<close>

text \<open>A number up to the next blank; \<open>None\<close> where there is no token, which the code does not survive.\<close>

definition next_num :: "u8 list \<Rightarrow> (u64 \<times> u8 list) option" where
  "next_num s = map_option (\<lambda>(tok, rest). (strtoul tok, rest)) (strtok blank s)"

text \<open>A result line: the id of the recording belongs to the id the last call was given.\<close>

definition replay_result :: "u8 list \<Rightarrow> replay_state \<Rightarrow> replay_state" where
  "replay_result save s =
    (let x = (case strtok ws save of None \<Rightarrow> 0 | Some (tok, _) \<Rightarrow> strtoul tok);
         s = (case last_kind s of
                L_open \<Rightarrow> s\<lparr>m_dev := map_put (m_dev s) 4 x (last_live s)\<rparr>
              | L_connect \<Rightarrow> s\<lparr>m_ch := map_put (m_ch s) 16 x (last_live s)\<rparr>
              | L_filter \<Rightarrow> s\<lparr>m_filt := map_put (m_filt s) 64 x (last_live s)\<rparr>
              | L_periodic \<Rightarrow> s\<lparr>m_per := map_put (m_per s) 16 x (last_live s)\<rparr>
              | L_none \<Rightarrow> s)
     in s\<lparr>last_kind := L_none\<rparr>)"

fun scan_params :: "nat \<Rightarrow> u8 list \<Rightarrow> (u64 \<times> u64) list" where
  "scan_params 0 s = []"
| "scan_params (Suc n) s =
    (case strtok ws s of
       None \<Rightarrow> []
     | Some (tok, s) \<Rightarrow>
         (case scan_lu tok of
            None \<Rightarrow> (0, 0)
          | Some (p, rest) \<Rightarrow>
              (if rest \<noteq> [] \<and> hd rest = 61 then (case scan_lu (tl rest) of Some (v, _) \<Rightarrow> (p, v) | None \<Rightarrow> (p, 0))
               else (p, 0)))
         # scan_params n s)"

definition non_null :: "nat \<Rightarrow> nat \<Rightarrow> (nat \<Rightarrow> PASSTHRU_MSG) \<Rightarrow> PASSTHRU_MSG option" where
  "non_null n i ms = (if n > i \<and> ProtocolID (ms i) \<noteq> 0 then Some (ms i) else None)"

definition replay_write :: "u8 list \<Rightarrow> replay_state \<Rightarrow> (call \<times> replay_state) option" where
  "replay_write save s =
    (case next_num save of None \<Rightarrow> None | Some (a, save) \<Rightarrow>
     case next_num save of None \<Rightarrow> None | Some (b, save) \<Rightarrow>
     case next_num save of None \<Rightarrow> None | Some (c, save) \<Rightarrow>
       let ps = parse_msgs 64 save;
           ms = store (m_msgs s) ps;
           cnt = (if unat b < length ps then unat b else length ps)
       in Some (C_write (map_get (m_ch s) a) (of_nat cnt) c (map ms [0..<cnt]), s\<lparr>m_msgs := ms\<rparr>))"

definition replay_startp :: "u64 \<Rightarrow> u8 list \<Rightarrow> replay_state \<Rightarrow> (call \<times> replay_state) option" where
  "replay_startp live save s =
    (case next_num save of None \<Rightarrow> None | Some (a, save) \<Rightarrow>
     case next_num save of None \<Rightarrow> None | Some (b, save) \<Rightarrow>
       let ms = store (m_msgs s) (parse_msgs 1 save)
       in Some (C_startp (map_get (m_ch s) a) b (Some (ms 0)),
                s\<lparr>m_msgs := ms, last_kind := L_periodic, last_live := live\<rparr>))"

definition replay_filter :: "u64 \<Rightarrow> u8 list \<Rightarrow> replay_state \<Rightarrow> (call \<times> replay_state) option" where
  "replay_filter live save s =
    (case next_num save of None \<Rightarrow> None | Some (a, save) \<Rightarrow>
     case next_num save of None \<Rightarrow> None | Some (b, save) \<Rightarrow>
       let ps = parse_msgs 3 save;
           ms = store (m_msgs s) ps;
           n = length ps
       in Some (C_filter (map_get (m_ch s) a) b (non_null n 0 ms) (non_null n 1 ms) (non_null n 2 ms),
                s\<lparr>m_msgs := ms, last_kind := L_filter, last_live := live\<rparr>))"

definition replay_ioctl :: "u8 list \<Rightarrow> replay_state \<Rightarrow> (call \<times> replay_state) option" where
  "replay_ioctl save s =
    (case next_num save of None \<Rightarrow> None | Some (a, save) \<Rightarrow>
     case next_num save of None \<Rightarrow> None | Some (b, save) \<Rightarrow>
       let cfg = scan_params 32 save
       in Some (C_ioctl (map_any s a) b
                  (if b = SET_CONFIG \<or> b = GET_CONFIG then cfg
                   else if b = READ_PROG_VOLTAGE then take 1 cfg else []), s))"

text \<open>A read asks for what the tool's array holds.\<close>

definition read_some :: "u64 \<Rightarrow> u64 \<Rightarrow> u64 \<Rightarrow> call" where
  "read_some ch want timeout = C_read ch (if want > 64 then 64 else want) timeout"

text \<open>
  A line: the call it makes, where it makes one, and the state after. \<open>live\<close> is the id the library
  hands out for the call.
\<close>

definition replay_line :: "u64 \<Rightarrow> u8 list \<Rightarrow> replay_state \<Rightarrow> (call option \<times> replay_state) option" where
  "replay_line live line s =
    (case strtok ws line of
       None \<Rightarrow> Some (None, s)
     | Some (verb, save) \<Rightarrow>
       if verb = ascii ''='' then Some (None, replay_result save s)
       else
         let s = s\<lparr>last_kind := L_none\<rparr>;
             n1 = scan_lus 1 save; n2 = scan_lus 2 save; n3 = scan_lus 3 save; n4 = scan_lus 4 save;
             call = map_option (\<lambda>(c, s). (Some c, s)) in
         if verb = ascii ''open'' then Some (Some C_open, s\<lparr>last_kind := L_open, last_live := live\<rparr>)
         else if verb = ascii ''sleep'' then Some (None, s)
         else if verb = ascii ''close'' then Some (Some (C_close (map_get (m_dev s) (n1 ! 0))), s)
         else if verb = ascii ''version'' then Some (Some (C_version (map_get (m_dev s) (n1 ! 0))), s)
         else if verb = ascii ''lasterr'' then Some (Some C_lasterr, s)
         else if verb = ascii ''connect'' then
           Some (Some (C_connect (map_get (m_dev s) (n4 ! 0)) (n4 ! 1) (n4 ! 2) (n4 ! 3)),
                 s\<lparr>last_kind := L_connect, last_live := live\<rparr>)
         else if verb = ascii ''disconnect'' then Some (Some (C_disconnect (map_get (m_ch s) (n1 ! 0))), s)
         else if verb = ascii ''read'' then
           Some (Some (read_some (map_get (m_ch s) (n3 ! 0)) (n3 ! 1) (n3 ! 2)), s)
         else if verb = ascii ''write'' then call (replay_write save s)
         else if verb = ascii ''startp'' then call (replay_startp live save s)
         else if verb = ascii ''stopp'' then
           Some (Some (C_stopp (map_get (m_ch s) (n2 ! 0)) (map_get (m_per s) (n2 ! 1))), s)
         else if verb = ascii ''filter'' then call (replay_filter live save s)
         else if verb = ascii ''stopf'' then
           Some (Some (C_stopf (map_get (m_ch s) (n2 ! 0)) (map_get (m_filt s) (n2 ! 1))), s)
         else if verb = ascii ''progv'' then
           Some (Some (C_progv (map_get (m_dev s) (n3 ! 0)) (n3 ! 1) (n3 ! 2)), s)
         else if verb = ascii ''ioctl'' then call (replay_ioctl save s)
         else Some (None, s))"

section \<open>Reading back tokens and numbers\<close>

lemma dropWhile_append_stop:
  "\<forall>x \<in> set xs. P x \<Longrightarrow> ys = [] \<or> \<not> P (hd ys) \<Longrightarrow> dropWhile P (xs @ ys) = ys"
  by (induction xs) (cases ys; simp)+

lemma strtok_token:
  assumes "tok \<noteq> []" and "\<forall>c \<in> set tok. \<not> delim c" and "rest = [] \<or> delim (hd rest)"
  shows "strtok delim (tok @ rest) = Some (tok, drop 1 rest)"
proof -
  have "dropWhile delim (tok @ rest) = tok @ rest" using assms(1,2) by (cases tok) auto
  moreover have "takeWhile (\<lambda>c. \<not> delim c) (tok @ rest) = tok" "dropWhile (\<lambda>c. \<not> delim c) (tok @ rest) = rest"
    using assms(2,3) takeWhile_append_stop [of tok "\<lambda>c. \<not> delim c" rest]
      dropWhile_append_stop [of tok "\<lambda>c. \<not> delim c" rest] by simp_all
  ultimately show ?thesis using assms(1) by (simp add: strtok_def)
qed

lemma strtok_skip: "delim c \<Longrightarrow> strtok delim (c # s) = strtok delim s"
  by (simp add: strtok_def)

lemma strtok_none: "\<forall>c \<in> set s. delim c \<Longrightarrow> strtok delim s = None"
  by (simp add: strtok_def dropWhile_eq_Nil_conv)

lemma digit_range: "is_digit c \<Longrightarrow> 48 \<le> unat c \<and> unat c \<le> 57"
  by (simp add: is_digit_def word_le_nat_alt)

lemma nums_not_digit [simp]: "\<not> is_digit 32" "\<not> is_digit 10" "\<not> is_digit 61"
  by (simp_all add: is_digit_def word_le_nat_alt)

lemma digit_not [simp]:
  assumes "is_digit c"
  shows "\<not> ws c" and "\<not> blank c" and "\<not> is_space c" and "c \<noteq> 45" and "c \<noteq> 43"
  using digit_range [OF assms] by (auto simp: ws_def blank_def is_space_def word_le_nat_alt)

lemma lu_digits: "c \<in> set (lu x) \<Longrightarrow> is_digit c"
  by (simp add: lu_def dec_digits)

lemma lu_not_Nil [simp]: "lu x \<noteq> []"
  by (simp add: lu_def)

lemma scan_lu_lu:
  assumes "rest = [] \<or> \<not> is_digit (hd rest)"
  shows "scan_lu (lu x @ rest) = Some (x, rest)"
proof -
  obtain c cs where lu: "lu x = c # cs" by (cases "lu x") simp_all
  have c: "is_digit c" using lu_digits [of c x] lu by simp
  have "dropWhile is_space (lu x @ rest) = lu x @ rest" "scan_sign (lu x @ rest) = (False, lu x @ rest)"
    using c by (simp_all add: lu scan_sign_def)
  moreover have "takeWhile is_digit (lu x @ rest) = lu x" "dropWhile is_digit (lu x @ rest) = rest"
    using assms lu_digits [of _ x] takeWhile_append_stop [of "lu x" is_digit rest]
      dropWhile_append_stop [of "lu x" is_digit rest] by simp_all
  moreover have "dec_value (lu x) = unat x" by (simp add: lu_def)
  moreover have "unat x \<le> ULONG_MAX"
  proof -
    have "unat x < 18446744073709551616" by simp
    then show ?thesis unfolding ULONG_MAX_def by linarith
  qed
  ultimately show ?thesis by (simp add: scan_lu_def)
qed

lemma strtoul_lu: "rest = [] \<or> \<not> is_digit (hd rest) \<Longrightarrow> strtoul (lu x @ rest) = x"
  by (simp add: strtoul_def scan_lu_lu)

lemma strtoul_lu' [simp]: "strtoul (lu x) = x"
  using strtoul_lu [of "[]" x] by simp


lemma next_num_lu:
  assumes "rest = [] \<or> blank (hd rest)"
  shows "next_num (lu x @ rest) = Some (x, drop 1 rest)"
  using strtok_token [of "lu x" blank rest] assms lu_digits [of _ x] by (simp add: next_num_def)

lemma next_num_end: "next_num (lu x @ [10]) = Some (x, [])"
proof -
  have "strtok blank ((lu x @ [10]) @ []) = Some (lu x @ [10], drop 1 [])"
    by (rule strtok_token) (use lu_digits [of _ x] digit_not(2) in \<open>auto simp: blank_def\<close>)
  moreover have "strtoul (lu x @ [10]) = x" by (rule strtoul_lu) (simp add: is_digit_def word_le_nat_alt)
  ultimately show ?thesis by (simp add: next_num_def)
qed

lemma scan_lu_space: "scan_lu (32 # s) = scan_lu s"
  by (simp add: scan_lu_def is_space_def)

text \<open>The numbers of a recorded line, read back.\<close>

lemma scan_lus_line:
  "scan_lus (length xs) (concat (map (\<lambda>x. 32 # lu x) xs) @ [10]) = xs"
proof (induction xs)
  case (Cons x xs)
  have "scan_lu (lu x @ (concat (map (\<lambda>x. 32 # lu x) xs) @ [10])) = Some (x, concat (map (\<lambda>x. 32 # lu x) xs) @ [10])"
    by (rule scan_lu_lu) (cases xs; simp)
  with Cons show ?case by (simp add: scan_lu_space)
qed simp

lemma scan_lus_line' :
  "xs \<noteq> [] \<Longrightarrow> scan_lus (length xs) (drop 1 (concat (map (\<lambda>x. 32 # lu x) xs) @ [10])) = xs"
  using scan_lus_line [of xs] by (cases xs) (simp_all add: scan_lu_space)

section \<open>Reading back messages\<close>

lemma unat_hex_digit: "n < 16 \<Longrightarrow> unat (hex_digit n) = (if n < 10 then 48 + n else 87 + n)"
  by (simp add: hex_digit_def unat_of_nat del: of_nat_add)

lemma hex_val_digit: "n < 16 \<Longrightarrow> hex_val (hex_digit n) = Some n"
  by (auto simp: hex_val_def word_le_nat_alt unat_hex_digit)

lemma high_nibble [simp]: "unat (b :: u8) div 16 < 16"
  by (subst div_less_iff_less_mult) simp_all

lemma scan_2x_hex2: "scan_2x (hex_digit (unat b div 16)) (hex_digit (unat b mod 16)) = Some b"
  by (simp add: scan_2x_def hex_val_digit)

lemma hex_pairs_hex: "length d \<le> cap \<Longrightarrow> hex_pairs (concat (map hex2 d)) cap = d"
proof (induction d arbitrary: cap)
  case (Cons b d)
  then obtain n where "cap = Suc n" "length d \<le> n" by (cases cap) auto
  with Cons.IH show ?case by (simp add: hex2_def scan_2x_hex2)
qed simp

lemma length_hex: "length (concat (map hex2 d)) = 2 * length d"
  by (induction d) (simp_all add: hex2_def)

lemma hex_to_bytes_rec_hex: "length d \<le> cap \<Longrightarrow> hex_to_bytes (rec_hex d) cap = d"
proof (cases "d = []")
  case False
  assume "length d \<le> cap"
  moreover have "concat (map hex2 d) \<noteq> [45]" using length_hex [of d] by auto
  ultimately show ?thesis using False hex_pairs_hex by (simp add: hex_to_bytes_def rec_hex_def)
qed (simp add: hex_to_bytes_def rec_hex_def)

lemma hex_digit_not_ws: "n < 16 \<Longrightarrow> \<not> ws (hex_digit n)"
  by (auto simp: ws_def word_unat_eq_iff unat_hex_digit split: if_splits)

lemma rec_hex_token: "rec_hex d \<noteq> []" "c \<in> set (rec_hex d) \<Longrightarrow> \<not> ws c"
proof -
  show "rec_hex d \<noteq> []" by (cases d) (simp_all add: rec_hex_def hex2_def)
  have "\<not> ws c" if "c \<in> set (hex2 b)" for b c
    using that hex_digit_not_ws [of "unat b div 16"] hex_digit_not_ws [of "unat b mod 16"]
    by (auto simp: hex2_def)
  then show "c \<in> set (rec_hex d) \<Longrightarrow> \<not> ws c" by (auto simp: rec_hex_def ws_def split: if_splits)
qed

lemma length_rec_data: "length (rec_data m) \<le> J2534_MSG_DATA_MAX"
  by (simp add: rec_data_def)

text \<open>What a message keeps in a recording.\<close>

definition kept_msg :: "PASSTHRU_MSG \<Rightarrow> PASSTHRU_MSG" where
  "kept_msg m = plain_msg (ProtocolID m) (TxFlags m) (rec_data m)"

lemma kept_msg_same:
  "ProtocolID (kept_msg m) = ProtocolID m" "TxFlags (kept_msg m) = TxFlags m"
  "unat (DataSize m) \<le> J2534_MSG_DATA_MAX \<Longrightarrow> msg_bytes (kept_msg m) = msg_bytes m"
proof -
  show "ProtocolID (kept_msg m) = ProtocolID m" "TxFlags (kept_msg m) = TxFlags m"
    by (simp_all add: kept_msg_def plain_msg_def)
  assume "unat (DataSize m) \<le> J2534_MSG_DATA_MAX"
  then have d: "rec_data m = msg_bytes m" "length (msg_bytes m) = unat (DataSize m)"
    by (simp_all add: rec_data_def msg_bytes_def msg_size_def)
  then have "unat (of_nat (length (rec_data m)) :: u64) = length (rec_data m)" by simp
  then show "msg_bytes (kept_msg m) = msg_bytes m"
    using mem_read_write [of "\<lambda>_. 0" 0 "msg_bytes m"]
    by (simp add: kept_msg_def plain_msg_def msg_bytes_def [of "msg0\<lparr>ProtocolID := _, TxFlags := _, DataSize := _, Data := _\<rparr>"]
        msg_size_def d(1))
qed

lemma parse_msgs_skip: "parse_msgs n (32 # s) = parse_msgs n s"
  by (cases n) (simp_all add: strtok_skip ws_def)

lemma lu_not_minus [simp]: "lu x \<noteq> [45]"
  using lu_digits [of 45 x] by (auto simp: is_digit_def word_le_nat_alt)

lemma parse_msgs_rec_msg:
  assumes "rest \<noteq> []" and "ws (hd rest)"
  shows "parse_msgs (Suc n) (rec_msg mo @ rest) =
    (case mo of None \<Rightarrow> None | Some m \<Rightarrow> Some (kept_msg m)) # parse_msgs n (drop 1 rest)"
proof -
  have w: "ws 32" "\<not> ws 45" by (simp_all add: ws_def)
  have tok: "strtok ws (32 # tok @ r) = Some (tok, drop 1 r)"
    if "tok \<noteq> []" "\<forall>c \<in> set tok. \<not> ws c" "r = [] \<or> ws (hd r)" for tok r
    using strtok_token [OF that] w by (simp add: strtok_skip)
  note tok' = strtok_token [where delim = ws]
  show ?thesis
  proof (cases mo)
    case None
    with tok [of "[45]"] tok' [of "[45]"] assms w show ?thesis by (simp add: rec_msg_def)
  next
    case (Some m)
    have "\<forall>c \<in> set (lu x). \<not> ws c" for x using lu_digits [of _ x] by auto
    with Some tok [of "lu (ProtocolID m)"] tok' [of "lu (TxFlags m)"] tok' [of "rec_hex (rec_data m)"]
      rec_hex_token(1) [of "rec_data m"] rec_hex_token(2) [of _ "rec_data m"] assms w length_rec_data [of m] show ?thesis
      by (simp add: rec_msg_def kept_msg_def hex_to_bytes_rec_hex)
  qed
qed

lemma parse_msgs_recorded:
  "length ms \<le> n \<Longrightarrow> parse_msgs n (concat (map rec_msg ms) @ [10]) =
   map (\<lambda>mo. case mo of None \<Rightarrow> None | Some m \<Rightarrow> Some (kept_msg m)) ms"
proof (induction ms arbitrary: n)
  case Nil
  then show ?case by (cases n) (simp_all add: strtok_none ws_def)
next
  case (Cons mo ms)
  then obtain k where n: "n = Suc k" "length ms \<le> k" by (cases n) auto
  let ?rest = "concat (map rec_msg ms) @ [10]"
  have starts: "\<exists>s. rec_msg m = 32 # s" for m by (simp add: rec_msg_def split: option.split)
  have hd: "?rest \<noteq> []" "ws (hd ?rest)" "parse_msgs k (drop 1 ?rest) = parse_msgs k ?rest"
  proof -
    show "?rest \<noteq> []" by simp
    show "ws (hd ?rest)"
    proof (cases ms)
      case (Cons m ms')
      then show ?thesis using starts [of m] by (auto simp: ws_def)
    qed (simp add: ws_def)
    show "parse_msgs k (drop 1 ?rest) = parse_msgs k ?rest"
    proof (cases ms)
      case Nil
      then show ?thesis by (cases k) (simp_all add: strtok_none ws_def)
    next
      case (Cons m ms')
      then show ?thesis using starts [of m] by (auto simp: parse_msgs_skip)
    qed
  qed
  have "concat (map rec_msg (mo # ms)) @ [10] = rec_msg mo @ ?rest" by simp
  then show ?case
    unfolding n(1) using parse_msgs_rec_msg [OF hd(1,2), of k mo] hd(3) Cons.IH [OF n(2)]
    by (simp only: list.map)
qed


section \<open>Reading back a line\<close>

lemma verb_token:
  assumes "verb \<noteq> []" and "\<forall>c \<in> set (ascii verb). \<not> ws c" and "rest \<noteq> []" and "ws (hd rest)"
  shows "strtok ws (ascii verb @ rest) = Some (ascii verb, tl rest)"
  using strtok_token [of "ascii verb" ws rest] assms by (cases rest) (auto simp: ascii_def)

text \<open>The numbers after a verb, whatever follows them.\<close>

definition nums :: "u64 list \<Rightarrow> u8 list" where
  "nums xs = concat (map (\<lambda>x. 32 # lu x) xs)"

lemma nums_simps [simp]: "nums [] = []" "nums (x # xs) = 32 # lu x @ nums xs"
  by (simp_all add: nums_def)

lemma scan_nums: "scan_lus (length xs) (tl (nums xs @ [10])) = xs"
proof (cases xs)
  case (Cons x ys)
  with scan_lus_line [of xs] show ?thesis by (simp add: nums_def scan_lu_space)
qed simp

lemma next_num_nums:
  "rest = [] \<or> hd rest = 32 \<Longrightarrow> next_num (lu x @ rest) = Some (x, tl rest)"
  using next_num_lu [of rest x] by (cases rest) (auto simp: blank_def)

lemma next_num_last: "next_num (lu x @ [10]) = Some (x, [])"
  by (rule next_num_end)

text \<open>
  What a replay makes of a recorded call: the ids it stands for; of a message what is recorded; of the
  parameters of an ioctl those recorded. \<open>k\<close> has the id that belongs to a recorded one, for each kind
  of id; one it does not know stays.
\<close>

type_synonym ids = "last_call \<Rightarrow> u64 \<Rightarrow> u64 option"

definition named :: "ids \<Rightarrow> last_call \<Rightarrow> u64 \<Rightarrow> u64" where
  "named k kd x = (case k kd x of Some v \<Rightarrow> v | None \<Rightarrow> x)"

definition named_any :: "ids \<Rightarrow> u64 \<Rightarrow> u64" where
  "named_any k x = (if k L_connect x \<noteq> None then named k L_connect x else named k L_open x)"

definition renamed :: "ids \<Rightarrow> call \<Rightarrow> call" where
  "renamed k c =
    (case c of
       C_open \<Rightarrow> C_open
     | C_close d \<Rightarrow> C_close (named k L_open d)
     | C_connect d p f b \<Rightarrow> C_connect (named k L_open d) p f b
     | C_disconnect ch \<Rightarrow> C_disconnect (named k L_connect ch)
     | C_read ch n t \<Rightarrow> C_read (named k L_connect ch) n t
     | C_write ch n t ms \<Rightarrow> C_write (named k L_connect ch) n t (map kept_msg ms)
     | C_startp ch i mo \<Rightarrow> C_startp (named k L_connect ch) i (map_option kept_msg mo)
     | C_stopp ch i \<Rightarrow> C_stopp (named k L_connect ch) (named k L_periodic i)
     | C_filter ch t a b f \<Rightarrow>
         C_filter (named k L_connect ch) t (map_option kept_msg a) (map_option kept_msg b) (map_option kept_msg f)
     | C_stopf ch i \<Rightarrow> C_stopf (named k L_connect ch) (named k L_filter i)
     | C_progv d p v \<Rightarrow> C_progv (named k L_open d) p v
     | C_version d \<Rightarrow> C_version (named k L_open d)
     | C_lasterr \<Rightarrow> C_lasterr
     | C_ioctl ch i cfg \<Rightarrow>
         C_ioctl (named_any k ch) i
           (if i = SET_CONFIG then cfg else if i = GET_CONFIG then map (\<lambda>(p, v). (p, 0)) cfg else [])
     | C_result i \<Rightarrow> C_result i)"

text \<open>The replayer's four tables as such a map.\<close>

definition table :: "replay_state \<Rightarrow> last_call \<Rightarrow> idmap" where
  "table s kd =
    (case kd of L_open \<Rightarrow> m_dev s | L_connect \<Rightarrow> m_ch s | L_filter \<Rightarrow> m_filt s | L_periodic \<Rightarrow> m_per s | L_none \<Rightarrow> [])"

definition ids_of :: "replay_state \<Rightarrow> ids" where
  "ids_of s kd = map_find (table s kd)"

abbreviation kept_call :: "replay_state \<Rightarrow> call \<Rightarrow> call" where
  "kept_call s \<equiv> renamed (ids_of s)"

lemma named_ids [simp]:
  "named (ids_of s) L_open x = map_get (m_dev s) x"
  "named (ids_of s) L_connect x = map_get (m_ch s) x"
  "named (ids_of s) L_filter x = map_get (m_filt s) x"
  "named (ids_of s) L_periodic x = map_get (m_per s) x"
  "named_any (ids_of s) x = map_any s x"
  by (auto simp: named_any_def named_def ids_of_def table_def map_get_def map_any_def split: option.split)

text \<open>What the line of a call leaves in the replayer's array, and the kind of id a result line after it is.\<close>

definition call_msgs :: "call \<Rightarrow> PASSTHRU_MSG option list" where
  "call_msgs c =
    (case c of
       C_write ch n t ms \<Rightarrow> map (\<lambda>m. Some (kept_msg m)) ms
     | C_startp ch i mo \<Rightarrow> [map_option kept_msg mo]
     | C_filter ch t a b f \<Rightarrow> [map_option kept_msg a, map_option kept_msg b, map_option kept_msg f]
     | _ \<Rightarrow> [])"

definition call_kind :: "call \<Rightarrow> last_call" where
  "call_kind c =
    (case c of C_open \<Rightarrow> L_open | C_connect _ _ _ _ \<Rightarrow> L_connect | C_filter _ _ _ _ _ \<Rightarrow> L_filter
     | C_startp _ _ _ \<Rightarrow> L_periodic | _ \<Rightarrow> L_none)"

definition after_call :: "u64 \<Rightarrow> call \<Rightarrow> replay_state \<Rightarrow> replay_state" where
  "after_call live c s =
    s\<lparr>m_msgs := store (m_msgs s) (call_msgs c), last_kind := call_kind c,
      last_live := (if call_kind c = L_none then last_live s else live)\<rparr>"

lemma store_Nil [simp]: "store ms [] = ms"
  by (simp add: store_def fun_eq_iff)

text \<open>
  The calls whose recording holds them and the tool's arrays too: a read of at most 64 messages, a write of at most 64 messages, as many as its count says; a
  periodic message that is there; filter messages of a protocol, or NULL where the replayer's array
  holds no earlier message; at most 32 parameters.
\<close>

definition filter_msg_kept :: "replay_state \<Rightarrow> nat \<Rightarrow> PASSTHRU_MSG option \<Rightarrow> bool" where
  "filter_msg_kept s i mo \<longleftrightarrow>
     (case mo of Some m \<Rightarrow> ProtocolID m \<noteq> 0 | None \<Rightarrow> ProtocolID (m_msgs s i) = 0)"

definition recordable :: "replay_state \<Rightarrow> call \<Rightarrow> bool" where
  "recordable s c \<longleftrightarrow>
    (case c of
       C_read ch n t \<Rightarrow> n \<le> 64
     | C_write ch n t ms \<Rightarrow> n = of_nat (length ms) \<and> length ms \<le> 64
     | C_startp ch i mo \<Rightarrow> mo \<noteq> None
     | C_filter ch t a b f \<Rightarrow> filter_msg_kept s 0 a \<and> filter_msg_kept s 1 b \<and> filter_msg_kept s 2 f
     | C_ioctl ch i cfg \<Rightarrow> length cfg \<le> 32
     | C_result i \<Rightarrow> False
     | _ \<Rightarrow> True)"

lemma replay_write_recorded:
  assumes "n = of_nat (length ms)" and "length ms \<le> 64"
  shows "replay_write (tl (nums [ch, n, t] @ concat (map (\<lambda>m. rec_msg (Some m)) ms) @ [10])) s =
    Some (C_write (map_get (m_ch s) ch) n t (map kept_msg ms),
          s\<lparr>m_msgs := store (m_msgs s) (map (\<lambda>m. Some (kept_msg m)) ms)\<rparr>)"
proof -
  let ?m = "concat (map (\<lambda>m. rec_msg (Some m)) ms) @ [10]"
  have ps: "parse_msgs 64 ?m = map (\<lambda>m. Some (kept_msg m)) ms"
    using parse_msgs_recorded [of "map Some ms" 64] assms(2) by (simp add: comp_def)
  have n: "unat n = length ms" using assms by (simp add: unat_of_nat)
  have store: "map (store (m_msgs s) (map (\<lambda>m. Some (kept_msg m)) ms)) [0..<length ms] = map kept_msg ms"
    by (rule nth_equalityI) (simp_all add: store_def)
  have two: "next_num (lu ch @ 32 # lu n @ 32 # lu t @ ?m) = Some (ch, lu n @ 32 # lu t @ ?m)"
    "next_num (lu n @ 32 # lu t @ ?m) = Some (n, lu t @ ?m)"
    by (subst next_num_nums; simp)+
  show ?thesis
  proof (cases ms)
    case Nil
    then show ?thesis using two n next_num_last [of t] assms(1)
      by (simp add: replay_write_def Let_def parse_msgs.simps(2) [of 63, simplified] strtok_none)
  next
    case (Cons m ms')
    then obtain r where r: "?m = 32 # r" by (auto simp: rec_msg_def)
    have "next_num (lu t @ ?m) = Some (t, r)" unfolding r by (subst next_num_nums) simp_all
    moreover have "parse_msgs 64 r = map (\<lambda>m. Some (kept_msg m)) ms"
      using ps unfolding r parse_msgs_skip .
    ultimately show ?thesis using two n store assms(1) by (simp add: replay_write_def Let_def)
  qed
qed


lemma rec_msg_starts: "\<exists>r. rec_msg mo = 32 # r"
  by (simp add: rec_msg_def split: option.split)

lemma two_nums:
  assumes "next_num (lu b @ rest) = Some (b, r)"
  shows "next_num (lu a @ 32 # lu b @ rest) = Some (a, lu b @ rest)"
  by (subst next_num_nums) simp_all

lemma replay_startp_recorded:
  "replay_startp live (tl (nums [ch, i] @ rec_msg (Some m) @ [10])) s =
    Some (C_startp (map_get (m_ch s) ch) i (Some (kept_msg m)),
          s\<lparr>m_msgs := store (m_msgs s) [Some (kept_msg m)], last_kind := L_periodic, last_live := live\<rparr>)"
proof -
  obtain r where r: "rec_msg (Some m) = 32 # r" using rec_msg_starts by blast
  have "next_num (lu i @ 32 # r @ [10]) = Some (i, r @ [10])" by (subst next_num_nums) simp_all
  moreover have "next_num (lu ch @ 32 # lu i @ 32 # r @ [10]) = Some (ch, lu i @ 32 # r @ [10])"
    by (subst next_num_nums) simp_all
  moreover have "parse_msgs 1 (r @ [10]) = [Some (kept_msg m)]"
    using parse_msgs_recorded [of "[Some m]" 1] parse_msgs_skip [of 1 "r @ [10]"] by (simp add: r del: parse_msgs.simps)
  ultimately show ?thesis by (simp add: replay_startp_def r store_def Let_def)
qed

text \<open>
  What the replayer passes for a filter message: NULL where the array holds no protocol, which for a
  message recorded as NULL is what an earlier line left there.
\<close>

definition replayed_msg :: "replay_state \<Rightarrow> nat \<Rightarrow> PASSTHRU_MSG option \<Rightarrow> PASSTHRU_MSG option" where
  "replayed_msg s i mo =
    (let m = (case mo of Some m \<Rightarrow> kept_msg m | None \<Rightarrow> m_msgs s i)
     in if ProtocolID m \<noteq> 0 then Some m else None)"

lemma replayed_kept: "filter_msg_kept s i mo \<Longrightarrow> replayed_msg s i mo = map_option kept_msg mo"
  by (cases mo) (auto simp: filter_msg_kept_def replayed_msg_def kept_msg_def plain_msg_def)

lemma non_null_replayed:
  "i < 3 \<Longrightarrow> length ps = 3 \<Longrightarrow> ps ! i = map_option kept_msg mo \<Longrightarrow>
   non_null 3 i (store (m_msgs s) ps) = replayed_msg s i mo"
  by (cases mo) (auto simp: non_null_def store_def replayed_msg_def)

lemma replay_filter_recorded:
  "replay_filter live (tl (nums [ch, t] @ rec_msg a @ rec_msg b @ rec_msg f @ [10])) s =
    Some (C_filter (map_get (m_ch s) ch) t (replayed_msg s 0 a) (replayed_msg s 1 b) (replayed_msg s 2 f),
      s\<lparr>m_msgs := store (m_msgs s) (map (map_option kept_msg) [a, b, f]), last_kind := L_filter, last_live := live\<rparr>)"
proof -
  obtain r where r: "rec_msg a = 32 # r" using rec_msg_starts by blast
  let ?r = "r @ rec_msg b @ rec_msg f @ [10]"
  have "next_num (lu t @ 32 # ?r) = Some (t, ?r)" by (subst next_num_nums) simp_all
  moreover have "next_num (lu ch @ 32 # lu t @ 32 # ?r) = Some (ch, lu t @ 32 # ?r)"
    by (subst next_num_nums) simp_all
  moreover have "parse_msgs 3 ?r = map (map_option kept_msg) [a, b, f]"
    using parse_msgs_recorded [of "[a, b, f]" 3] parse_msgs_skip [of 3 ?r]
    by (simp add: r map_option_case del: parse_msgs.simps)
  moreover have "non_null 3 0 (store (m_msgs s) (map (map_option kept_msg) [a, b, f])) = replayed_msg s 0 a"
    "non_null 3 1 (store (m_msgs s) (map (map_option kept_msg) [a, b, f])) = replayed_msg s 1 b"
    "non_null 3 2 (store (m_msgs s) (map (map_option kept_msg) [a, b, f])) = replayed_msg s 2 f"
    by (rule non_null_replayed; simp)+
  ultimately show ?thesis by (simp add: replay_filter_def r Let_def numeral_3_eq_3)
qed

lemma scan_params_recorded:
  "length cfg \<le> n \<Longrightarrow>
   scan_params n (concat (map (\<lambda>(p, v). [32] @ lu p @ [61] @ lu (g v)) cfg) @ [10]) = map (\<lambda>(p, v). (p, g v)) cfg"
proof (induction cfg arbitrary: n)
  case Nil
  then show ?case by (cases n) (simp_all add: strtok_none ws_def)
next
  case (Cons x cfg)
  obtain p v where x: "x = (p, v)" by (cases x)
  obtain k where n: "n = Suc k" "length cfg \<le> k" using Cons.prems by (cases n) auto
  let ?rest = "concat (map (\<lambda>(p, v). [32] @ lu p @ [61] @ lu (g v)) cfg) @ [10]"
  let ?tok = "lu p @ 61 # lu (g v)"
  have ends: "?rest \<noteq> []" "ws (hd ?rest)" by (cases cfg; auto simp: ws_def split_beta)+
  have skip: "scan_params k (drop 1 ?rest) = scan_params k ?rest"
  proof (cases cfg)
    case Nil
    then show ?thesis by (cases k) (simp_all add: strtok_none ws_def)
  next
    case Cons
    then show ?thesis by (cases k) (auto simp: split_beta strtok_skip ws_def)
  qed
  have "\<not> ws 61" by (simp add: ws_def)
  then have "\<forall>c \<in> set ?tok. \<not> ws c" using lu_digits digit_not(1) by auto
  then have "strtok ws (32 # ?tok @ ?rest) = Some (?tok, drop 1 ?rest)"
    using strtok_token [of ?tok ws ?rest] ends(2) by (simp add: strtok_skip ws_def [of 32])
  moreover have "scan_lu ?tok = Some (p, 61 # lu (g v))" by (rule scan_lu_lu) simp
  moreover have "scan_lu (lu (g v)) = Some (g v, [])" using scan_lu_lu [of "[]" "g v"] by simp
  ultimately show ?case using Cons.IH [OF n(2)] skip by (simp add: n(1) x)
qed

lemma replay_ioctl_recorded:
  assumes "length cfg \<le> 32"
  shows "replay_ioctl (tl (drop (length (ascii ''ioctl'')) (rec_ioctl ch i cfg))) s = Some (kept_call s (C_ioctl ch i cfg), s)"
proof -
  define g where "g v = (if i = SET_CONFIG then v else 0)" for v :: u64
  define P where "P = (if i = SET_CONFIG \<or> i = GET_CONFIG
    then concat (map (\<lambda>(p, v). [32] @ lu p @ [61] @ lu (g v)) cfg) else [])"
  have line: "tl (drop (length (ascii ''ioctl'')) (rec_ioctl ch i cfg)) = lu ch @ 32 # lu i @ P @ [10]"
    using assms by (simp add: rec_ioctl_def rec_head_def P_def g_def)
  have one: "next_num (lu ch @ 32 # lu i @ P @ [10]) = Some (ch, lu i @ P @ [10])"
    by (subst next_num_nums) simp_all
  have kept: "kept_call s (C_ioctl ch i cfg) =
      C_ioctl (map_any s ch) i (if i = SET_CONFIG \<or> i = GET_CONFIG then map (\<lambda>(p, v). (p, g v)) cfg else [])"
    by (simp add: renamed_def g_def split_beta)
  show ?thesis
  proof (cases "(i = SET_CONFIG \<or> i = GET_CONFIG) \<and> cfg \<noteq> []")
    case True
    then obtain r where r: "P @ [10] = 32 # r" by (cases cfg) (auto simp: P_def split_beta)
    have two: "next_num (lu i @ P @ [10]) = Some (i, r)" unfolding r by (subst next_num_nums) simp_all
    have "scan_params 32 (P @ [10]) = map (\<lambda>(p, v). (p, g v)) cfg"
      using scan_params_recorded [OF assms, of g] True by (simp add: P_def)
    then have "scan_params 32 r = map (\<lambda>(p, v). (p, g v)) cfg"
      unfolding r by (simp add: numeral_eq_Suc strtok_skip ws_def)
    with True show ?thesis unfolding line kept
      by (simp only: replay_ioctl_def one two option.case prod.case Let_def if_True)
  next
    case False
    then have p: "P = []" by (auto simp: P_def)
    have "scan_params 32 [] = []" by (simp add: numeral_eq_Suc strtok_def)
    with False show ?thesis unfolding line kept
      using one next_num_last [of i] by (auto simp: p replay_ioctl_def Let_def)
  qed
qed


section \<open>The round trip\<close>

lemma verb_chars:
  "\<forall>c \<in> set (ascii v). \<not> ws c" if "v \<in> {''open'', ''close'', ''connect'', ''disconnect'', ''read'', ''write'', ''startp'',
     ''stopp'', ''filter'', ''stopf'', ''progv'', ''version'', ''lasterr'', ''ioctl'', ''=''}"
  using that by (auto simp: text_simps ws_def)

lemma rec_line_nums: "rec_line v xs = ascii v @ nums xs @ [10]"
  by (simp add: rec_line_def nums_def)

lemma line_verb:
  assumes "v \<noteq> []" and "\<forall>c \<in> set (ascii v). \<not> ws c"
  shows "strtok ws (rec_line v xs) = Some (ascii v, tl (nums xs @ [10]))"
  unfolding rec_line_nums using assms by (intro verb_token) (cases xs; simp add: ws_def)+

lemma scan_line:
  "xs = [a] \<Longrightarrow> scan_lus 1 (tl (nums xs @ [10])) = [a]"
  "xs = [a, b] \<Longrightarrow> scan_lus 2 (tl (nums xs @ [10])) = [a, b]"
  "xs = [a, b, c] \<Longrightarrow> scan_lus 3 (tl (nums xs @ [10])) = [a, b, c]"
  "xs = [a, b, c, d] \<Longrightarrow> scan_lus 4 (tl (nums xs @ [10])) = [a, b, c, d]"
  using scan_nums [of xs] by (simp_all add: numeral_eq_Suc del: nums_simps)

lemmas after = after_call_def call_msgs_def call_kind_def

text \<open>
  A line the replayer has split into its verb and the rest: the simple calls read their numbers from
  the rest, the others go on.
\<close>

lemma replay_simple:
  assumes "c \<notin> range C_result" and "\<And>ch n t ms. c \<noteq> C_write ch n t ms" and "\<And>ch i m. c \<noteq> C_startp ch i m"
    and "\<And>ch t a b f. c \<noteq> C_filter ch t a b f" and "\<And>ch i cfg. c \<noteq> C_ioctl ch i cfg"
    and "\<And>ch n t. c = C_read ch n t \<Longrightarrow> n \<le> 64"
  shows "replay_line live (rec_call c) s = Some (Some (kept_call s c), after_call live c s)"
proof (cases c)
  case C_open
  then show ?thesis using line_verb [of "''open''" "[]"] verb_chars [of "''open''"]
    by (simp add: rec_call_def replay_line_def renamed_def after text_simps)
next
  case (C_close d)
  then show ?thesis using line_verb [of "''close''" "[d]"] verb_chars [of "''close''"] scan_line(1) [OF refl, of d]
    by (simp add: rec_call_def replay_line_def renamed_def after text_simps Let_def)
next
  case (C_connect d p f b)
  then show ?thesis using line_verb [of "''connect''" "[d, p, f, b]"] verb_chars [of "''connect''"]
      scan_line(4) [OF refl, of d p f b]
    by (simp add: rec_call_def replay_line_def renamed_def after text_simps Let_def)
next
  case (C_disconnect ch)
  then show ?thesis using line_verb [of "''disconnect''" "[ch]"] verb_chars [of "''disconnect''"]
      scan_line(1) [OF refl, of ch]
    by (simp add: rec_call_def replay_line_def renamed_def after text_simps Let_def)
next
  case (C_read ch n t)
  then show ?thesis using line_verb [of "''read''" "[ch, n, t]"] verb_chars [of "''read''"]
      scan_line(3) [OF refl, of ch n t] assms(6) [OF C_read]
    by (simp add: read_some_def leD rec_call_def replay_line_def renamed_def after text_simps Let_def)
next
  case (C_stopp ch i)
  then show ?thesis using line_verb [of "''stopp''" "[ch, i]"] verb_chars [of "''stopp''"]
      scan_line(2) [OF refl, of ch i]
    by (simp add: rec_call_def replay_line_def renamed_def after text_simps Let_def)
next
  case (C_stopf ch i)
  then show ?thesis using line_verb [of "''stopf''" "[ch, i]"] verb_chars [of "''stopf''"]
      scan_line(2) [OF refl, of ch i]
    by (simp add: rec_call_def replay_line_def renamed_def after text_simps Let_def)
next
  case (C_progv d p v)
  then show ?thesis using line_verb [of "''progv''" "[d, p, v]"] verb_chars [of "''progv''"]
      scan_line(3) [OF refl, of d p v]
    by (simp add: rec_call_def replay_line_def renamed_def after text_simps Let_def)
next
  case (C_version d)
  then show ?thesis using line_verb [of "''version''" "[d]"] verb_chars [of "''version''"] scan_line(1) [OF refl, of d]
    by (simp add: rec_call_def replay_line_def renamed_def after text_simps Let_def)
next
  case C_lasterr
  then show ?thesis using line_verb [of "''lasterr''" "[]"] verb_chars [of "''lasterr''"]
    by (simp add: rec_call_def replay_line_def renamed_def after text_simps Let_def)
qed (use assms in auto)

lemma last_kind_irrelevant [simp]:
  "map_any (s\<lparr>last_kind := k\<rparr>) x = map_any s x"
  "filter_msg_kept (s\<lparr>last_kind := k\<rparr>) i mo = filter_msg_kept s i mo"
  by (simp_all add: map_any_def filter_msg_kept_def split: option.split)

lemma ids_of_last [simp]: "ids_of (s\<lparr>last_kind := k\<rparr>) = ids_of s"
  by (simp add: ids_of_def table_def fun_eq_iff split: last_call.split)


lemma replay_compound:
  assumes "v \<in> {''write'', ''startp'', ''filter'', ''ioctl''}" and "line = ascii v @ 32 # rest"
    and "(if v = ''write'' then replay_write rest s'
          else if v = ''startp'' then replay_startp live rest s'
          else if v = ''filter'' then replay_filter live rest s'
          else replay_ioctl rest s') = Some (c, s'')"
    and "s' = s\<lparr>last_kind := L_none\<rparr>"
  shows "replay_line live line s = Some (Some c, s'')"
proof -
  from assms(1) consider "v = ''write''" | "v = ''startp''" | "v = ''filter''" | "v = ''ioctl''"
    unfolding insert_iff empty_iff by argo
  note verb = this
  then have "\<forall>c \<in> set (ascii v). \<not> ws c" by cases (simp_all add: text_simps ws_def)
  moreover have "v \<noteq> []" using verb by cases (simp_all only: list.distinct simp_thms)
  moreover have "ws (hd (32 # rest))" by (simp add: ws_def)
  ultimately have "strtok ws line = Some (ascii v, tl (32 # rest))"
    unfolding assms(2) by (intro verb_token list.simps(3)) simp_all
  then have "strtok ws line = Some (ascii v, rest)" by simp
  note tok = this assms(3) [folded assms(4)]
  from verb show ?thesis
    by cases (use tok assms(4) in \<open>simp add: replay_line_def text_simps Let_def\<close>)+
qed

lemma replayed_msg_last [simp]: "replayed_msg (s\<lparr>last_kind := k\<rparr>) i mo = replayed_msg s i mo"
  by (cases mo) (simp_all add: replayed_msg_def)

lemma replay_filter_line:
  "replay_line live (rec_call (C_filter ch t a b f)) s =
    Some (Some (C_filter (map_get (m_ch s) ch) t (replayed_msg s 0 a) (replayed_msg s 1 b) (replayed_msg s 2 f)),
      after_call live (C_filter ch t a b f) s)"
proof -
  let ?s = "s\<lparr>last_kind := L_none\<rparr>"
  from replay_filter_recorded [of live ch t a b f ?s] show ?thesis
    using replay_compound [of "''filter''" "rec_call (C_filter ch t a b f)" _ ?s live _ _ s]
    by (fastforce simp: rec_call_def rec_filter_def rec_head_def after)
qed

text \<open>
  A filter recorded without a flow-control message is replayed with the one an earlier line left in
  the array.
\<close>

lemma stale_flow_control:
  assumes "ProtocolID (m_msgs s 2) \<noteq> 0"
  shows "\<exists>a' b' s'. replay_line live (rec_call (C_filter ch t a b None)) s =
    Some (Some (C_filter (map_get (m_ch s) ch) t a' b' (Some (m_msgs s 2))), s')"
  using replay_filter_line [of live ch t a b None s] assms by (fastforce simp: replayed_msg_def)

section \<open>The round trip of a line\<close>

text \<open>
  The recording of a call, in any state of the replayer that can hold it, is read back as that call:
  every number, the ids mapped, every message with its protocol, its flags and its bytes, and the
  parameters of a configuration.
\<close>

lemma line_replayed:
  assumes "recordable s c"
  shows "replay_line live (rec_call c) s = Some (Some (kept_call s c), after_call live c s)"
proof -
  let ?s = "s\<lparr>last_kind := L_none\<rparr>"
  show ?thesis
  proof (cases c)
    case (C_write ch n t ms)
    then have "n = of_nat (length ms)" "length ms \<le> 64" using assms by (simp_all add: recordable_def)
    from replay_write_recorded [OF this, of ch t ?s] show ?thesis
      using replay_compound [of "''write''" "rec_call c" _ ?s live _ _ s] \<open>length ms \<le> 64\<close> C_write
      by (fastforce simp: rec_call_def rec_write_def rec_msgs_def rec_head_def renamed_def after)
  next
    case (C_startp ch i mo)
    then obtain m where "mo = Some m" using assms by (auto simp: recordable_def)
    with replay_startp_recorded [of live ch i m ?s] C_startp show ?thesis
      using replay_compound [of "''startp''" "rec_call c" _ ?s live _ _ s]
      by (fastforce simp: rec_call_def rec_startp_def rec_msgs_def rec_head_def renamed_def after)
  next
    case (C_filter ch t a b f)
    then have "filter_msg_kept s 0 a" "filter_msg_kept s 1 b" "filter_msg_kept s 2 f"
      using assms by (simp_all add: recordable_def)
    with replay_filter_line [of live ch t a b f s] C_filter show ?thesis
      by (simp add: replayed_kept renamed_def)
  next
    case (C_ioctl ch i cfg)
    then have "length cfg \<le> 32" using assms by (simp add: recordable_def)
    from replay_ioctl_recorded [OF this, of ch i ?s] C_ioctl show ?thesis
      using replay_compound [of "''ioctl''" "rec_call c" _ ?s live _ _ s]
      by (fastforce simp: rec_call_def rec_ioctl_def rec_head_def after)
  next
    case (C_result i)
    with assms show ?thesis by (simp add: recordable_def)
  qed (rule replay_simple; use assms in \<open>auto simp: recordable_def\<close>)+
qed

text \<open>A result line.\<close>

lemma result_replayed: "replay_line live (rec_call (C_result i)) s = Some (None, replay_result (lu i @ [10]) s)"
  using line_verb [of "''=''" "[i]"] verb_chars [of "''=''"] by (simp add: rec_call_def replay_line_def)

end
