(* ===== verification/Examples.thy ===== *)
theory Examples
  imports Driver Wire Replay
begin

text \<open>
  The programs of examples/ as clients of the library: op_smoke.c, op_iso15765.c, op_kline.c. What
  they print is left out; every call they make, the reading of the error text included, is there.
  The lemmas say what they put on a vehicle's lines and that they leave the device closed.
\<close>

section \<open>op_smoke.c\<close>

text \<open>\<open>report\<close> reads the error text and counts a code that is not the wanted one.\<close>

definition report :: "int \<Rightarrow> int \<Rightarrow> nat \<Rightarrow> (nat \<Rightarrow> 'a program) \<Rightarrow> 'a program" where
  "report rc want fails k = Ask R_Last_Error (\<lambda>_. k (if rc = want then fails else fails + 1))"

definition checked :: "request \<Rightarrow> int \<Rightarrow> nat \<Rightarrow> (answer \<Rightarrow> nat \<Rightarrow> 'a program) \<Rightarrow> 'a program" where
  "checked r want fails k = Ask r (\<lambda>a. report (a_rc a) want fails (k a))"

definition config :: "(u64 \<times> u64) list \<Rightarrow> u64 \<Rightarrow> SCONFIG_LIST option" where
  "config ps n = Some \<lparr>NumOfParams = n, ConfigPtr = Some ps\<rparr>"

text \<open>The request and the read of \<open>--tx\<close>.\<close>

definition smoke_tx :: "bool \<Rightarrow> u64 \<Rightarrow> 'a program \<Rightarrow> 'a program" where
  "smoke_tx do_tx c k =
    (if do_tx then
       Ask (R_Write c [plain_msg ISO15765 ISO15765_FRAME_PAD [0, 0, 0x07, 0xE0, 0x3E, 0]] 1 1000) (\<lambda>_.
       Ask (R_Read c 4 500) (\<lambda>_. k))
     else k)"

definition smoke_session :: "bool \<Rightarrow> u64 \<Rightarrow> nat \<Rightarrow> nat program" where
  "smoke_session do_tx d fails =
    checked (R_Version d) STATUS_NOERROR fails (\<lambda>a fails.
    checked (R_Ioctl d (Io_Read_Vbatt True)) STATUS_NOERROR fails (\<lambda>a fails.
    checked (R_Ioctl d (Io_Read_Prog_Voltage None True)) STATUS_NOERROR fails (\<lambda>a fails.
    checked (R_Connect d ISO15765 0 500000) STATUS_NOERROR fails (\<lambda>a fails.
    let c = given (a_id a) 0 in
    checked (R_Connect d ISO15765 0 500000) ERR_CHANNEL_IN_USE fails (\<lambda>a fails.
    checked (R_Ioctl c (Io_Set_Config (config [(ISO15765_BS, 0), (ISO15765_STMIN, 0)] 2)))
      STATUS_NOERROR fails (\<lambda>a fails.
    checked (R_Ioctl c (Io_Get_Config (config [(DATA_RATE, 0), (ISO15765_STMIN, 0)] 1)))
      STATUS_NOERROR fails (\<lambda>a fails.
    checked (R_Start_Filter c FLOW_CONTROL_FILTER
        (Some (plain_msg ISO15765 0 [0xFF, 0xFF, 0xFF, 0xFF]))
        (Some (plain_msg ISO15765 0 [0, 0, 0x07, 0xE8]))
        (Some (plain_msg ISO15765 0 [0, 0, 0x07, 0xE0]))) STATUS_NOERROR fails (\<lambda>a fails.
    let fid = given (a_id a) 0 in
    checked (R_Ioctl c Io_Clear_Rx_Buffer) STATUS_NOERROR fails (\<lambda>a fails.
    checked (R_Voltage d 12 VOLTAGE_OFF) STATUS_NOERROR fails (\<lambda>a fails.
    checked (R_Ioctl c (Io_Other 0xDEAD)) ERR_INVALID_IOCTL_ID fails (\<lambda>a fails.
    smoke_tx do_tx c (
    checked (R_Stop_Filter c fid) STATUS_NOERROR fails (\<lambda>a fails.
    checked (R_Disconnect c) STATUS_NOERROR fails (\<lambda>a fails.
    checked (R_Close d) STATUS_NOERROR fails (\<lambda>a fails.
    Finish (if fails = 0 then 0 else 1))))))))))))))))"

definition op_smoke :: "bool \<Rightarrow> nat program" where
  "op_smoke do_tx =
    checked R_Open STATUS_NOERROR 0 (\<lambda>a fails.
    if a_rc a \<noteq> STATUS_NOERROR then Ask R_Last_Error (\<lambda>_. Finish 1)
    else smoke_session do_tx (given (a_id a) 0) fails)"

section \<open>op_iso15765.c\<close>

text \<open>\<open>fail\<close> reads the error text; the callers count.\<close>

definition note_failure :: "'a program \<Rightarrow> 'a program" where
  "note_failure k = Ask R_Last_Error (\<lambda>_. k)"

definition mk :: "u64 \<Rightarrow> u64 \<Rightarrow> u8 list \<Rightarrow> u64 \<Rightarrow> PASSTHRU_MSG" where
  "mk proto cid pl flags =
    msg0\<lparr>ProtocolID := proto, TxFlags := flags,
      Data := mem_write (\<lambda>_. 0) 0
        ([ucast (drop_bit 24 cid), ucast (drop_bit 16 cid), ucast (drop_bit 8 cid), ucast cid] @ pl),
      DataSize := of_nat (4 + length pl)\<rparr>"

text \<open>The messages that are neither our own nor an indication.\<close>

definition received :: "PASSTHRU_MSG list \<Rightarrow> nat" where
  "received ms = length (filter (\<lambda>m. RxStatus m AND TX_MSG_TYPE = 0 \<and> RxStatus m AND ISO15765_FIRST_FRAME = 0) ms)"

definition drain_print :: "u64 \<Rightarrow> u64 \<Rightarrow> (nat \<Rightarrow> 'a program) \<Rightarrow> 'a program" where
  "drain_print c timeout k = Ask (R_Read c 8 timeout) (\<lambda>a. k (received (a_msgs a)))"

definition pid00 :: "u8 list" where "pid00 = [0x01, 0x00]"
definition vin_pid :: "u8 list" where "vin_pid = [0x09, 0x02]"
definition raw_obd :: "u8 list" where "raw_obd = [0x02, 0x01, 0x00, 0x55, 0x55, 0x55, 0x55, 0x55]"

text \<open>Clear, write and read, then the messages that were received.\<close>

definition request_response :: "u64 \<Rightarrow> u8 list \<Rightarrow> u64 \<Rightarrow> u64 \<Rightarrow> (nat \<Rightarrow> 'a program) \<Rightarrow> 'a program" where
  "request_response c pl flags timeout k =
    Ask (R_Ioctl c Io_Clear_Rx_Buffer) (\<lambda>_.
    Ask (R_Write c [mk ISO15765 0x7E0 pl flags] 1 1000) (\<lambda>_.
    drain_print c timeout k))"

definition iso_part :: "u64 \<Rightarrow> (nat \<Rightarrow> 'a program) \<Rightarrow> 'a program" where
  "iso_part c k =
    Ask (R_Ioctl c (Io_Set_Config (config [(ISO15765_BS, 0), (ISO15765_STMIN, 0)] 2))) (\<lambda>_.
    Ask (R_Start_Filter c FLOW_CONTROL_FILTER (Some (mk ISO15765 0xFFFFFFFF [] ISO15765_FRAME_PAD))
      (Some (mk ISO15765 0x7E8 [] ISO15765_FRAME_PAD)) (Some (mk ISO15765 0x7E0 [] ISO15765_FRAME_PAD))) (\<lambda>a.
    let fid = given (a_id a) 0; fails = (if a_rc a \<noteq> 0 then 1 else 0);
        rest =
          request_response c pid00 0 1000 (\<lambda>_.
          request_response c pid00 ISO15765_FRAME_PAD 1500 (\<lambda>d1.
          request_response c vin_pid ISO15765_FRAME_PAD 2000 (\<lambda>d2.
          Ask (R_Stop_Filter c fid) (\<lambda>_.
          Ask (R_Disconnect c) (\<lambda>_.
          k (fails + (if d1 < 1 then 1 else 0) + (if d2 < 1 then 1 else 0)))))))
    in if a_rc a \<noteq> 0 then note_failure rest else rest))"

definition can_part :: "u64 \<Rightarrow> nat \<Rightarrow> (nat \<Rightarrow> 'a program) \<Rightarrow> 'a program" where
  "can_part d fails k =
    Ask (R_Connect d CAN 0 500000) (\<lambda>a.
    if a_rc a \<noteq> 0 then note_failure (k (fails + 1))
    else
      let c = given (a_id a) 0 in
      Ask (R_Start_Filter c PASS_FILTER (Some (mk CAN 0 [] 0)) (Some (mk CAN 0 [] 0)) None) (\<lambda>_.
      Ask (R_Write c [mk CAN 0x7DF raw_obd 0] 1 1000) (\<lambda>_.
      drain_print c 1500 (\<lambda>_.
      Ask (R_Disconnect c) (\<lambda>_. k fails)))))"

definition op_iso15765 :: "nat program" where
  "op_iso15765 =
    Ask R_Open (\<lambda>a.
    if a_rc a \<noteq> 0 then note_failure (Finish 1)
    else
      let d = given (a_id a) 0 in
      Ask (R_Connect d ISO15765 0 500000) (\<lambda>a.
      if a_rc a \<noteq> 0 then note_failure (Ask (R_Close d) (\<lambda>_. Finish 1))
      else
        iso_part (given (a_id a) 0) (\<lambda>fails.
        can_part d fails (\<lambda>fails.
        Ask (R_Close d) (\<lambda>_. Finish (if fails = 0 then 0 else 1))))))"

section \<open>op_kline.c\<close>

text \<open>The two reads after the initialisation; a write that fails skips its read.\<close>

definition kline_request :: "u64 \<Rightarrow> u8 list \<Rightarrow> 'a program \<Rightarrow> 'a program" where
  "kline_request c req k =
    Ask (R_Write c [plain_msg ISO14230 0 req] 1 2000) (\<lambda>a.
    if a_rc a \<noteq> 0 then note_failure k else Ask (R_Read c 4 3000) (\<lambda>_. k))"

definition kline_init :: "bool \<Rightarrow> bool \<Rightarrow> u64 \<Rightarrow> 'a program \<Rightarrow> 'a program" where
  "kline_init five eobd c k =
    (let target = (if eobd then 0x33 else 0x01);
         io = (if five then
             Io_Five_Baud_Init (Some \<lparr>NumOfBytes = 1, BytePtr = Some [target]\<rparr>)
               (Some \<lparr>NumOfBytes = 8, BytePtr = Some (replicate 8 0)\<rparr>)
           else Io_Fast_Init (Some (plain_msg ISO14230 0 [if eobd then 0xC1 else 0x81, target, 0xF1, 0x81])) True)
     in Ask (R_Ioctl c io) (\<lambda>a. if a_rc a \<noteq> 0 then note_failure k else k))"

definition kline_requests :: "bool \<Rightarrow> u8 list list" where
  "kline_requests eobd =
    (let target = (if eobd then 0x33 else 0x01); base = (if eobd then 0xC0 else 0x80) in
     [[base OR 2, target, 0xF1, 0x1A, 0x9B], [base OR 1, target, 0xF1, 0x3E]])"

definition op_kline :: "bool \<Rightarrow> bool \<Rightarrow> nat program" where
  "op_kline five eobd =
    Ask R_Open (\<lambda>a.
    if a_rc a \<noteq> 0 then note_failure (Finish 1)
    else
      let d = given (a_id a) 0 in
      Ask (R_Connect d ISO14230 0 10400) (\<lambda>a.
      if a_rc a \<noteq> 0 then note_failure (Ask (R_Close d) (\<lambda>_. Finish 1))
      else
        let c = given (a_id a) 0;
            rest = kline_init five eobd c (each (kline_request c) (kline_requests eobd)
              (Ask (R_Disconnect c) (\<lambda>_. Ask (R_Close d) (\<lambda>_. Finish 0)))) in
        Ask (R_Start_Filter c PASS_FILTER (Some (plain_msg ISO14230 0 [0]))
          (Some (plain_msg ISO14230 0 [0])) None) (\<lambda>a.
        if a_rc a \<noteq> 0 then note_failure rest else rest)))"

section \<open>What the examples do\<close>

lemmas smoke_defs = op_smoke_def smoke_session_def smoke_tx_def checked_def report_def Let_def
lemmas iso_defs = op_iso15765_def iso_part_def can_part_def request_response_def drain_print_def
  note_failure_def Let_def
lemmas kline_defs = op_kline_def kline_init_def kline_request_def note_failure_def Let_def

lemma smoke_quiet: "obeys (only quiet_call) (op_smoke False) ()"
  by (simp add: smoke_defs quiet_call_def)

lemma given_some: "x = Some (given x y) \<longleftrightarrow> x \<noteq> None"
  by (cases x) (simp_all add: given_def)

lemma closing_tx: "obeys closing k h \<Longrightarrow> obeys closing (smoke_tx do_tx c k) h"
  by (simp add: smoke_tx_def)

lemma closing_checked:
  assumes "r \<noteq> R_Open" and "\<And>d. r \<noteq> R_Close d" and "\<And>a n. obeys closing (k a n) h"
  shows "obeys closing (checked r want fails k) h"
  using assms by (simp add: checked_def report_def)

lemma closing_close:
  assumes "h = Some d" and "\<And>a n. obeys closing (k a n) None"
  shows "obeys closing (checked (R_Close d) want fails k) h"
  using assms by (simp add: checked_def report_def)

lemma smoke_session_closes:
  assumes "h = Some d"
  shows "obeys closing (smoke_session do_tx d fails) h"
  unfolding smoke_session_def Let_def
  by (rule closing_close closing_tx closing_checked; (simp add: assms; fail)?)+

lemma smoke_closes: "obeys closing (op_smoke do_tx) None"
  using smoke_session_closes by (auto simp: op_smoke_def checked_def report_def given_def)

lemma iso_closes: "obeys closing op_iso15765 None"
  by (simp add: iso_defs given_some)

lemma kline_closes: "obeys closing (op_kline five eobd) None"
  by (simp add: kline_defs kline_requests_def given_some)

lemma msg_bytes_plain:
  "length d \<le> J2534_MSG_DATA_MAX \<Longrightarrow> msg_bytes (plain_msg p f d) = d"
  "length d + 4 \<le> J2534_MSG_DATA_MAX \<Longrightarrow> msg_bytes (mk p c d f) =
    [ucast (drop_bit 24 c), ucast (drop_bit 16 c), ucast (drop_bit 8 c), ucast c] @ d"
proof -
  show "msg_bytes (plain_msg p f d) = d" if "length d \<le> J2534_MSG_DATA_MAX"
    using that mem_read_write [of "\<lambda>_. 0" 0 d] by (simp add: msg_bytes_def msg_size_def plain_msg_def unat_of_nat)
  let ?b = "[ucast (drop_bit 24 c), ucast (drop_bit 16 c), ucast (drop_bit 8 c), ucast c] @ d"
  show "msg_bytes (mk p c d f) = ?b" if "length d + 4 \<le> J2534_MSG_DATA_MAX"
  proof -
    have "unat (of_nat (length ?b) :: u64) = length ?b" using that by (simp only: unat_of_nat) simp
    then show ?thesis
      using mem_read_write [of "\<lambda>_. 0" 0 ?b] by (simp add: msg_bytes_def msg_size_def mk_def)
  qed
qed

text \<open>Mode 1 PID 0 twice, the VIN (mode 9), and mode 1 to the functional address as a raw frame.\<close>

definition iso_reads :: "u8 list list" where
  "iso_reads =
    [[0, 0, 0x07, 0xE0, 0x01, 0x00], [0, 0, 0x07, 0xE0, 0x01, 0x00], [0, 0, 0x07, 0xE0, 0x09, 0x02],
     [0, 0, 0x07, 0xDF, 0x02, 0x01, 0x00, 0x55, 0x55, 0x55, 0x55, 0x55]]"

lemma iso_says: "obeys says op_iso15765 iso_reads"
  by (simp add: iso_defs payloads_def msg_bytes_plain iso_reads_def pid00_def vin_pid_def raw_obd_def)

text \<open>The initialisation, ReadEcuIdentification 0x9B and TesterPresent, to the engine or to the address
  of EOBD.\<close>

definition kline_reads :: "bool \<Rightarrow> bool \<Rightarrow> u8 list list" where
  "kline_reads five eobd =
    (if eobd then [if five then [0x33] else [0xC1, 0x33, 0xF1, 0x81], [0xC2, 0x33, 0xF1, 0x1A, 0x9B], [0xC1, 0x33, 0xF1, 0x3E]]
     else [if five then [0x01] else [0x81, 0x01, 0xF1, 0x81], [0x82, 0x01, 0xF1, 0x1A, 0x9B], [0x81, 0x01, 0xF1, 0x3E]])"

lemma kline_says: "obeys says (op_kline five eobd) (kline_reads five eobd)"
  by (simp add: kline_defs payloads_def msg_bytes_plain kline_requests_def kline_reads_def given_def)

section \<open>Properties\<close>

text \<open>C23. The smoke test without \<open>--tx\<close> is safe on a bench: run on the driver, from any state of the
  process, with any answers of the cable and any interleaving, it hands the transport no transmit, no
  periodic message and no K-line initialisation.\<close>

theorem smoke_bench_safe:
  "list_all silent (map fst (drop (length (sent w)) (sent (fst (snd (snd (run driver (op_smoke False) (w, vs))))))))"
  using program_silent [OF smoke_quiet] by (simp add: silent_since_def)

text \<open>C24. The two examples for a vehicle read only: whatever library they run on and whatever it
  answers, op_kline puts on the line at most one initialisation, one ReadEcuIdentification and one
  TesterPresent, in that order, and op_iso15765 its three OBD requests of mode 1 and mode 9 and the
  raw one.\<close>

theorem examples_read_only:
  "prefix (concat (map payloads (asked serve (op_kline five eobd) s))) (kline_reads five eobd) \<and>
   prefix (concat (map payloads (asked serve op_iso15765 s))) iso_reads"
  by (intro conjI obeys_says kline_says iso_says)

end
