(* ===== verification/Scenarios.thy ===== *)
theory Scenarios
  imports Examples
begin

text \<open>
  The scenarios of tools/ab-official/j2534_trace.c: programs that drive any J2534 library and record
  every call. The JSON line of a call is left out; reading the error text after a call that failed is
  a call and is there. A sleep does nothing here. The static \<open>mark_dev\<close> is the argument \<open>md\<close>.
\<close>

unbundle bit_operations_syntax

section \<open>Helpers\<close>

definition record_call :: "int \<Rightarrow> 'a program \<Rightarrow> 'a program" where
  "record_call rc k = (if rc \<noteq> 0 then Ask R_Last_Error (\<lambda>_. k) else k)"

definition STEP :: "request \<Rightarrow> 'a program \<Rightarrow> 'a program" where
  "STEP r k = Ask r (\<lambda>a. record_call (a_rc a) k)"

definition mk_msg :: "u64 \<Rightarrow> u64 \<Rightarrow> u8 list \<Rightarrow> PASSTHRU_MSG" where
  "mk_msg proto txflags d =
    msg0\<lparr>ProtocolID := proto, TxFlags := txflags, DataSize := of_nat (length d), Data := mem_write (\<lambda>_. 0) 0 d\<rparr>"

definition do_open :: "u64 \<Rightarrow> (int \<Rightarrow> u64 \<Rightarrow> 'a program) \<Rightarrow> 'a program" where
  "do_open d k = Ask R_Open (\<lambda>a. record_call (a_rc a) (k (a_rc a) (given (a_id a) d)))"

definition do_connect :: "u64 \<Rightarrow> u64 \<Rightarrow> u64 \<Rightarrow> u64 \<Rightarrow> (int \<Rightarrow> u64 \<Rightarrow> 'a program) \<Rightarrow> 'a program" where
  "do_connect d proto baud c k =
    Ask (R_Connect d proto 0 baud) (\<lambda>a. record_call (a_rc a) (k (a_rc a) (given (a_id a) c)))"

definition iso_setup :: "u64 \<Rightarrow> u64 \<Rightarrow> (u64 \<Rightarrow> 'a program) \<Rightarrow> 'a program" where
  "iso_setup c fid k =
    STEP (R_Ioctl c (Io_Set_Config (config [(ISO15765_BS, 0), (ISO15765_STMIN, 0)] 2))) (
    Ask (R_Start_Filter c FLOW_CONTROL_FILTER
        (Some (mk_msg ISO15765 ISO15765_FRAME_PAD [0xFF, 0xFF, 0xFF, 0xFF]))
        (Some (mk_msg ISO15765 ISO15765_FRAME_PAD [0, 0, 0x07, 0xE8]))
        (Some (mk_msg ISO15765 ISO15765_FRAME_PAD [0, 0, 0x07, 0xE0]))) (\<lambda>a.
    record_call (a_rc a) (
    STEP (R_Ioctl c Io_Clear_Rx_Buffer) (k (given (a_id a) fid)))))"

definition sc_write :: "u64 \<Rightarrow> u64 \<Rightarrow> u64 \<Rightarrow> u8 list \<Rightarrow> u64 \<Rightarrow> 'a program \<Rightarrow> 'a program" where
  "sc_write c proto flags bytes timeout k = STEP (R_Write c [mk_msg proto flags bytes] 1 timeout) k"

text \<open>A read asks for what the array holds, as \<open>read_some\<close> of the replay does.\<close>

definition sc_read :: "u64 \<Rightarrow> u64 \<Rightarrow> u64 \<Rightarrow> 'a program \<Rightarrow> 'a program" where
  "sc_read c want timeout k = STEP (R_Read c (if want > 64 then 64 else want) timeout) k"

section \<open>Scenarios\<close>

definition TESTER_PRESENT :: "u8 list" where "TESTER_PRESENT = [0x00, 0x00, 0x07, 0xE0, 0x3E, 0x00]"
definition READ_DID_0100 :: "u8 list" where "READ_DID_0100 = [0x00, 0x00, 0x07, 0xE0, 0x22, 0x01, 0x00]"
definition RAW_FRAME :: "u8 list" where
  "RAW_FRAME = [0x00, 0x00, 0x07, 0xDF, 0x02, 0x01, 0x00, 0x00, 0x00, 0x00, 0x00, 0x00]"

definition sc_open :: "unit program" where
  "sc_open =
    do_open 0 (\<lambda>rc d. if rc \<noteq> 0 then Finish () else
    STEP (R_Version d) (
    STEP (R_Ioctl d (Io_Read_Vbatt True)) (
    STEP (R_Close d) (Finish ()))))"

text \<open>Open, connect, the body on the channel where that worked, close.\<close>

definition on_channel :: "u64 \<Rightarrow> u64 \<Rightarrow> (u64 \<Rightarrow> unit program \<Rightarrow> unit program) \<Rightarrow> unit program" where
  "on_channel proto baud body =
    do_open 0 (\<lambda>rc d. if rc \<noteq> 0 then Finish () else
    do_connect d proto baud 0 (\<lambda>rc c.
      let end = STEP (R_Close d) (Finish ()) in
      if rc = 0 then body c end else end))"

definition sc_iso15765 :: "unit program" where
  "sc_iso15765 = on_channel ISO15765 500000 (\<lambda>c k.
    iso_setup c 0 (\<lambda>fid.
    sc_write c ISO15765 ISO15765_FRAME_PAD TESTER_PRESENT 1000 (
    sc_read c 4 500 (
    STEP (R_Stop_Filter c fid) (
    STEP (R_Disconnect c) k)))))"

definition sc_multiframe :: "unit program" where
  "sc_multiframe = on_channel ISO15765 500000 (\<lambda>c k.
    iso_setup c 0 (\<lambda>fid.
    sc_write c ISO15765 ISO15765_FRAME_PAD READ_DID_0100 1000 (
    sc_read c 4 1500 (
    STEP (R_Disconnect c) k))))"

definition sc_timeouts :: "unit program" where
  "sc_timeouts = on_channel ISO15765 500000 (\<lambda>c k.
    iso_setup c 0 (\<lambda>fid.
    sc_read c 1 0 (
    sc_read c 1 100 (
    sc_read c 1 500 (
    sc_write c ISO15765 ISO15765_FRAME_PAD TESTER_PRESENT 0 (
    sc_read c 4 300 (
    STEP (R_Disconnect c) k)))))))"

definition sc_errors :: "unit program" where
  "sc_errors =
    STEP (R_Disconnect 9) (
    do_open 0 (\<lambda>rc d. if rc \<noteq> 0 then Finish () else
    STEP (R_Ioctl d (Io_Other 0xDEAD)) (
    do_connect d ISO15765 500000 0 (\<lambda>rc c.
      let end = STEP (R_Close d) (STEP (R_Close d) (Finish ()));
          zero = mk_msg ISO15765 0 [0, 0, 0, 0] in
      if rc = 0 then
        STEP (R_Connect d ISO15765 0 500000) (
        STEP (R_Ioctl c (Io_Other 0xDEAD)) (
        STEP (R_Start_Filter c FLOW_CONTROL_FILTER None (Some zero) (Some zero)) (
        STEP (R_Stop_Filter c 77) (
        STEP (R_Stop_Periodic c 77) (
        STEP (R_Ioctl c (Io_Get_Config (config [(0x7F, 0)] 1))) (
        STEP (R_Voltage d 12 VOLTAGE_OFF) (
        STEP (R_Disconnect c) (
        STEP (R_Disconnect c) end))))))))
      else end))))"

definition sc_periodic :: "unit program" where
  "sc_periodic = on_channel ISO15765 500000 (\<lambda>c k.
    iso_setup c 0 (\<lambda>fid.
    Ask (R_Start_Periodic c (mk_msg ISO15765 ISO15765_FRAME_PAD TESTER_PRESENT) 100) (\<lambda>a.
    record_call (a_rc a) (
    sc_read c 8 100 (
    STEP (R_Stop_Periodic c (given (a_id a) 0)) (
    STEP (R_Disconnect c) k))))))"

definition sc_raw_can :: "unit program" where
  "sc_raw_can = on_channel CAN 500000 (\<lambda>c k.
    STEP (R_Start_Filter c PASS_FILTER (Some (mk_msg CAN 0 [0, 0, 0, 0])) (Some (mk_msg CAN 0 [0, 0, 0, 0])) None) (
    sc_write c CAN 0 RAW_FRAME 1000 (
    sc_read c 4 500 (
    STEP (R_Disconnect c) k))))"

definition SWEEP :: "u8 list" where "SWEEP = [0x33, 0x01, 0x10, 0x17, 0x19, 0x25, 0x08, 0x46]"

definition kline_starts :: "u8 list list" where
  "kline_starts = [[0xC1, 0x33, 0xF1, 0x81], [0x81, 0x01, 0xF1, 0x81]]"

definition fast_starts :: "u64 \<Rightarrow> 'a program \<Rightarrow> 'a program" where
  "fast_starts c = each (\<lambda>start k.
     STEP (R_Ioctl c (Io_Fast_Init (Some (mk_msg ISO14230 0 start)) True)) (sc_read c 4 500 k)) kline_starts"

definition five_baud_sweep :: "u64 \<Rightarrow> 'a program \<Rightarrow> 'a program" where
  "five_baud_sweep c = each (\<lambda>address k.
     STEP (R_Ioctl c (Io_Five_Baud_Init (Some \<lparr>NumOfBytes = 1, BytePtr = Some [address]\<rparr>)
       (Some \<lparr>NumOfBytes = 16, BytePtr = Some (replicate 16 0)\<rparr>))) k) SWEEP"

text \<open>The second connect has the variable of the first.\<close>

definition sc_kline :: "unit program" where
  "sc_kline =
    do_open 0 (\<lambda>rc d. if rc \<noteq> 0 then Finish () else
    do_connect d ISO14230 10400 0 (\<lambda>rc c.
      let second = do_connect d ISO9141 10400 c (\<lambda>rc c.
            let end = STEP (R_Close d) (Finish ()) in
            if rc = 0 then five_baud_sweep c (STEP (R_Disconnect c) end) else end) in
      if rc = 0 then fast_starts c (STEP (R_Disconnect c) second) else second))"

definition sc_bench :: "nat \<Rightarrow> unit program" where
  "sc_bench bench_cycles = on_channel ISO15765 500000 (\<lambda>c k.
    iso_setup c 0 (\<lambda>fid.
    each (\<lambda>i k.
      sc_write c ISO15765 ISO15765_FRAME_PAD TESTER_PRESENT 1000 (
      sc_read c 4 500 k)) [0..<bench_cycles] (
    STEP (R_Disconnect c) k)))"

section \<open>The sweeps\<close>

definition sw_mark :: "u64 \<Rightarrow> 'a program \<Rightarrow> 'a program" where
  "sw_mark md k = Ask (R_Ioctl md (Io_Read_Prog_Voltage (Some PIN_VADJ) True)) (\<lambda>_. k)"

definition hexmsg :: "u64 \<Rightarrow> u64 \<Rightarrow> string \<Rightarrow> PASSTHRU_MSG" where
  "hexmsg proto flags hex = mk_msg proto flags (hex_to_bytes (ascii hex) J2534_MSG_DATA_MAX)"

definition hexmsg_ptr :: "u64 \<Rightarrow> u64 \<Rightarrow> string option \<Rightarrow> PASSTHRU_MSG option" where
  "hexmsg_ptr proto flags hex = map_option (hexmsg proto flags) hex"

definition sw_connect :: "u64 \<Rightarrow> u64 \<Rightarrow> u64 \<Rightarrow> u64 \<Rightarrow> (int \<Rightarrow> u64 \<Rightarrow> 'a program) \<Rightarrow> 'a program" where
  "sw_connect md proto flags baud k =
    sw_mark md (Ask (R_Connect md proto flags baud) (\<lambda>a.
    record_call (a_rc a) (k (a_rc a) (given (a_id a) 0))))"

definition sw_disconnect :: "u64 \<Rightarrow> u64 \<Rightarrow> 'a program \<Rightarrow> 'a program" where
  "sw_disconnect md c k = sw_mark md (STEP (R_Disconnect c) k)"

definition UNTOUCHED :: u64 where "UNTOUCHED = 0xDEADBEEF"

definition sw_config :: "u64 \<Rightarrow> u64 \<Rightarrow> bool \<Rightarrow> (u64 \<times> u64) list \<Rightarrow> u64 \<Rightarrow> 'a program \<Rightarrow> 'a program" where
  "sw_config md c setting ps n k =
    (let n = (if n > 8 then 8 else n); list = config (take (unat n) ps) n in
     sw_mark md (STEP (R_Ioctl c (if setting then Io_Set_Config list else Io_Get_Config list)) k))"

definition sw_ioctl :: "u64 \<Rightarrow> u64 \<Rightarrow> ioctl \<Rightarrow> 'a program \<Rightarrow> 'a program" where
  "sw_ioctl md c io k = sw_mark md (STEP (R_Ioctl c io) k)"

definition sw_filter ::
  "u64 \<Rightarrow> u64 \<Rightarrow> u64 \<Rightarrow> PASSTHRU_MSG option \<Rightarrow> PASSTHRU_MSG option \<Rightarrow> PASSTHRU_MSG option \<Rightarrow> bool \<Rightarrow>
   'a program \<Rightarrow> 'a program" where
  "sw_filter md c ft m p f keep k =
    sw_mark md (Ask (R_Start_Filter c ft m p f) (\<lambda>a.
    record_call (a_rc a) (
    if a_rc a = 0 \<and> \<not> keep then sw_mark md (STEP (R_Stop_Filter c (given (a_id a) 0)) k) else k)))"

definition sw_write :: "u64 \<Rightarrow> u64 \<Rightarrow> PASSTHRU_MSG list \<Rightarrow> u64 \<Rightarrow> 'a program \<Rightarrow> 'a program" where
  "sw_write md c ms n k = sw_mark md (STEP (R_Write c ms n 100) k)"

definition sw_periodic :: "u64 \<Rightarrow> u64 \<Rightarrow> PASSTHRU_MSG \<Rightarrow> u64 \<Rightarrow> bool \<Rightarrow> 'a program \<Rightarrow> 'a program" where
  "sw_periodic md c m interval keep k =
    sw_mark md (Ask (R_Start_Periodic c m interval) (\<lambda>a.
    record_call (a_rc a) (
    if a_rc a = 0 \<and> \<not> keep then sw_mark md (STEP (R_Stop_Periodic c (given (a_id a) 0)) k) else k)))"

text \<open>\<open>sw_open\<close> and the body of a sweep; \<open>before\<close> is what \<open>mark_dev\<close> held.\<close>

definition sw_open :: "u64 \<Rightarrow> (u64 \<Rightarrow> unit program) \<Rightarrow> unit program" where
  "sw_open before body = do_open before (\<lambda>rc md. if rc \<noteq> 0 then Finish () else body md)"

definition sw_close :: "u64 \<Rightarrow> unit program" where
  "sw_close md = sw_mark md (STEP (R_Close md) (Finish ()))"

text \<open>A sweep over one channel, when it could be connected.\<close>

definition sw_channel ::
  "u64 \<Rightarrow> u64 \<Rightarrow> u64 \<Rightarrow> u64 \<Rightarrow> (u64 \<Rightarrow> 'a program \<Rightarrow> 'a program) \<Rightarrow> 'a program \<Rightarrow> 'a program" where
  "sw_channel md proto flags baud body k =
    sw_connect md proto flags baud (\<lambda>rc c. if rc = 0 then body c (sw_disconnect md c k) else k)"

text \<open>
  The tables. A filter case: type, protocol of mask and pattern (0 for the channel's own), their flags,
  the flow-control message's flags, the three messages in hex or \<open>NULL\<close>. A write case: protocol, flags,
  hex. The names are for the trace only.
\<close>

type_synonym sw_fcase = "u64 \<times> u64 \<times> u64 \<times> u64 \<times> string option \<times> string option \<times> string option"
type_synonym sw_wcase = "u64 \<times> u64 \<times> string"

definition SW_CONNECTS :: "(u64 \<times> u64 \<times> u64) list" where
  "SW_CONNECTS =
    [(CAN, 0, 125000),
     (CAN, 0, 250000),
     (CAN, 0, 1000000),
     (CAN, 0, 33333),
     (CAN, 0, 12345),
     (CAN, CAN_29BIT_ID, 500000),
     (CAN, CAN_ID_BOTH, 500000),
     (CAN, CAN_29BIT_ID OR CAN_ID_BOTH, 500000),
     (CAN, 0x20000000, 500000),
     (ISO15765, 0, 250000),
     (ISO15765, CAN_29BIT_ID, 500000),
     (ISO15765, CAN_ID_BOTH, 500000),
     (ISO14230, 0, 10400),
     (ISO14230, 0, 9600),
     (ISO14230, 0, 4800),
     (ISO14230, ISO9141_NO_CHECKSUM, 10400),
     (ISO14230, ISO9141_K_LINE_ONLY, 10400),
     (ISO9141, 0, 10400),
     (ISO9141, 0, 4800),
     (ISO9141, ISO9141_NO_CHECKSUM, 10400),
     (ISO9141, ISO9141_K_LINE_ONLY, 10400),
     (J1850VPW, 0, 10400),
     (J1850PWM, 0, 41600),
     (CAN_CH1, 0, 500000),
     (ISO15765_CH1, 0, 500000),
     (ISO9141_CH1, 0, 10400),
     (ISO9141_CH2, 0, 10400),
     (ISO9141_CH3, 0, 19200),
     (ISO14230_CH1, 0, 10400),
     (ISO14230_CH2, 0, 10400)]"

definition SW_PARAMS :: "(u64 \<times> u64) list" where
  "SW_PARAMS =
    [(DATA_RATE, 0),
     (LOOPBACK, 0),
     (NODE_ADDRESS, 0),
     (NETWORK_LINE, 0),
     (P1_MIN, 0),
     (P1_MAX, 40),
     (P2_MIN, 0),
     (P2_MAX, 0),
     (P3_MIN, 110),
     (P3_MAX, 0),
     (P4_MIN, 10),
     (P4_MAX, 0),
     (W1, 300),
     (W2, 20),
     (W3, 20),
     (W4, 50),
     (W5, 300),
     (TIDLE, 300),
     (TINIL, 25),
     (TWUP, 50),
     (PARITY, 0),
     (BIT_SAMPLE_POINT, 80),
     (SYNC_JUMP_WIDTH, 15),
     (W0, 300),
     (T1_MAX, 20),
     (T2_MAX, 100),
     (T4_MAX, 20),
     (T5_MAX, 100),
     (ISO15765_BS, 0),
     (ISO15765_STMIN, 0),
     (DATA_BITS, 0),
     (FIVE_BAUD_MOD, 0),
     (BS_TX, 0xFFFF),
     (STMIN_TX, 0xFFFF),
     (T3_MAX, 50),
     (ISO15765_WFT_MAX, 0),
     (ISO15765_PAD_VALUE, 0),
     (CAN_MIXED_FORMAT, 0),
     (TX_PARAM_STOP_BITS, 1)]"

definition SW_CAN_FILTERS :: "sw_fcase list" where
  "SW_CAN_FILTERS =
    [(PASS_FILTER, 0, 0, 0, Some ''00000fff'', Some ''000007e8'', None),
     (BLOCK_FILTER, 0, 0, 0, Some ''00000fff'', Some ''000007e8'', None),
     (PASS_FILTER, 0, CAN_29BIT_ID, 0, Some ''1fffffff'', Some ''18daf110'', None),
     (PASS_FILTER, 0, 0, 0, Some ''1fffffff'', Some ''18daf110'', None),
     (PASS_FILTER, 0, 0, 0, Some ''00'', Some ''00'', None),
     (PASS_FILTER, 0, 0, 0, Some ''00000fff0000000000000000'', Some ''000007e80000000000000000'', None),
     (PASS_FILTER, 0, 0, 0, Some ''00000fff000000000000000000'', Some ''000007e8000000000000000000'', None),
     (PASS_FILTER, 0, 0, 0, Some ''00000fff'', Some ''000007e8'', Some ''000007e0''),
     (FLOW_CONTROL_FILTER, 0, 0, 0, Some ''ffffffff'', Some ''000007e8'', Some ''000007e0''),
     (PASS_FILTER, 0, 0, 0, Some ''00000fff'', Some ''000007e800'', None),
     (PASS_FILTER, 0, 0, 0, Some ''00000fff'', None, None),
     (PASS_FILTER, ISO15765, 0, 0, Some ''00000fff'', Some ''000007e8'', None)]"

definition SW_ISO_FILTERS :: "sw_fcase list" where
  "SW_ISO_FILTERS =
    [(FLOW_CONTROL_FILTER, 0, ISO15765_FRAME_PAD, ISO15765_FRAME_PAD, Some ''ffffffff'', Some ''000007e8'', Some ''000007e0''),
     (FLOW_CONTROL_FILTER, 0, 0, ISO15765_FRAME_PAD, Some ''ffffffff'', Some ''000007e8'', Some ''000007e0''),
     (FLOW_CONTROL_FILTER, 0, ISO15765_FRAME_PAD, 0, Some ''ffffffff'', Some ''000007e8'', Some ''000007e0''),
     (FLOW_CONTROL_FILTER, 0, CAN_29BIT_ID OR ISO15765_FRAME_PAD, CAN_29BIT_ID OR ISO15765_FRAME_PAD, Some ''1fffffff'', Some ''18daf110'', Some ''18da10f1''),
     (FLOW_CONTROL_FILTER, 0, ISO15765_ADDR_TYPE OR ISO15765_FRAME_PAD, ISO15765_ADDR_TYPE OR ISO15765_FRAME_PAD, Some ''ffffffffff'', Some ''00000612f1'', Some ''000006f112''),
     (FLOW_CONTROL_FILTER, 0, ISO15765_ADDR_TYPE OR ISO15765_FRAME_PAD, ISO15765_ADDR_TYPE OR ISO15765_FRAME_PAD, Some ''ffffffff'', Some ''000007e8'', Some ''000007e0''),
     (FLOW_CONTROL_FILTER, 0, ISO15765_FRAME_PAD, 0, Some ''ffffffff'', Some ''000007e8'', None),
     (PASS_FILTER, 0, 0, 0, Some ''ffffffff'', Some ''000007e8'', None),
     (BLOCK_FILTER, 0, 0, 0, Some ''ffffffff'', Some ''000007e8'', None),
     (FLOW_CONTROL_FILTER, CAN, ISO15765_FRAME_PAD, ISO15765_FRAME_PAD, Some ''ffffffff'', Some ''000007e8'', Some ''000007e0'')]"

definition SW_KLINE_FILTERS :: "sw_fcase list" where
  "SW_KLINE_FILTERS =
    [(PASS_FILTER, 0, 0, 0, Some ''c0'', Some ''80'', None),
     (PASS_FILTER, 0, 0, 0, Some ''ffffff'', Some ''80f110'', None),
     (BLOCK_FILTER, 0, 0, 0, Some ''c0'', Some ''80'', None),
     (FLOW_CONTROL_FILTER, 0, 0, 0, Some ''ffffff'', Some ''80f110'', Some ''8010f1'')]"

definition SW_CAN_WRITES :: "sw_wcase list" where
  "SW_CAN_WRITES =
    [(0, 0, ''000007df0201000000000000''),
     (0, 0, ''000007df''),
     (0, CAN_29BIT_ID, ''18db33f10201000000000000''),
     (0, 0, ''18db33f10201000000000000''),
     (0, CAN_29BIT_ID, ''000007df0201000000000000''),
     (0, ISO15765_FRAME_PAD, ''000007df0201''),
     (0, SW_CAN_HV_TX, ''000007df0201000000000000''),
     (ISO15765, 0, ''000007df0201000000000000'')]"

definition SW_ISO_WRITES :: "sw_wcase list" where
  "SW_ISO_WRITES =
    [(0, ISO15765_FRAME_PAD, ''000007e03e00''),
     (0, 0, ''000007e03e00''),
     (0, ISO15765_FRAME_PAD, ''000007e13e00''),
     (0, ISO15765_FRAME_PAD, ''000007e022f190f18cf187f189f191f192f193f194f1a0''),
     (0, CAN_29BIT_ID OR ISO15765_FRAME_PAD, ''18da10f13e00''),
     (0, ISO15765_ADDR_TYPE OR ISO15765_FRAME_PAD, ''000006f1123e00''),
     (CAN, ISO15765_FRAME_PAD, ''000007e03e00'')]"

definition SW_KLINE_WRITES :: "sw_wcase list" where
  "SW_KLINE_WRITES =
    [(0, 0, ''8110f13e''),
     (0, WAIT_P3_MIN_ONLY, ''8110f13e''),
     (0, 0, ''3e'')]"

definition SW_CAN_EDGE_WRITES :: "sw_wcase list" where
  "SW_CAN_EDGE_WRITES =
    [(0, 0, ''000007''),
     (0, 0, ''000007df020100000000000000''),
     (0, 0, ''-'')]"

definition SW_ISO_EDGE_WRITES :: "sw_wcase list" where
  "SW_ISO_EDGE_WRITES =
    [(0, ISO15765_ADDR_TYPE OR ISO15765_FRAME_PAD, ''000006f1''),
     (0, ISO15765_FRAME_PAD, ''000007'')]"

definition sc_sweep_connect :: "u64 \<Rightarrow> unit program" where
  "sc_sweep_connect before = sw_open before (\<lambda>md.
    each (\<lambda>(proto, flags, baud). sw_channel md proto flags baud (\<lambda>c k. k)) SW_CONNECTS (sw_close md))"

definition SW_CHANNELS :: "(u64 \<times> u64) list" where
  "SW_CHANNELS = [(ISO15765, 500000), (CAN, 500000), (ISO14230, 10400), (ISO9141, 10400)]"

definition sweep_params :: "u64 \<Rightarrow> u64 \<Rightarrow> u64 \<Rightarrow> 'a program \<Rightarrow> 'a program" where
  "sweep_params md c baud = each (\<lambda>(i, v) k.
     let v = (if i = DATA_RATE then baud else v) in
     sw_config md c False [(i, UNTOUCHED)] 1 (
     sw_config md c True [(i, v)] 1 (
     sw_config md c False [(i, UNTOUCHED)] 1 k))) SW_PARAMS"

definition sweep_iso_config :: "u64 \<Rightarrow> u64 \<Rightarrow> 'a program \<Rightarrow> 'a program" where
  "sweep_iso_config md c k =
    sw_config md c True [(DATA_RATE, 250000)] 1 (
    sw_config md c False [(DATA_RATE, UNTOUCHED)] 1 (
    sw_config md c True [(DATA_RATE, 500000)] 1 (
    sw_config md c True [(LOOPBACK, 1)] 1 (
    sw_config md c False [(LOOPBACK, UNTOUCHED)] 1 (
    sw_config md c True [(LOOPBACK, 0)] 1 (
    sw_config md c False [(DATA_RATE, UNTOUCHED), (0x7F, UNTOUCHED), (LOOPBACK, UNTOUCHED)] 3 (
    sw_config md c True [(LOOPBACK, 0), (0x7F, 0), (ISO15765_BS, 0)] 3 (
    sw_config md c False [(DATA_RATE, UNTOUCHED), (0x7F, UNTOUCHED), (LOOPBACK, UNTOUCHED)] 0 (
    sw_config md md False [(DATA_RATE, UNTOUCHED)] 1 k)))))))))"

definition sc_sweep_config :: "u64 \<Rightarrow> unit program" where
  "sc_sweep_config before = sw_open before (\<lambda>md.
    each (\<lambda>(proto, baud). sw_channel md proto 0 baud (\<lambda>c k.
      sweep_params md c baud (if proto = ISO15765 then sweep_iso_config md c k else k))) SW_CHANNELS (sw_close md))"

definition sw_filter_cases :: "u64 \<Rightarrow> u64 \<Rightarrow> u64 \<Rightarrow> sw_fcase list \<Rightarrow> 'a program \<Rightarrow> 'a program" where
  "sw_filter_cases md c proto = each (\<lambda>(ft, mproto, mflags, fflags, m, p, f).
     let mp = (if mproto \<noteq> 0 then mproto else proto) in
     sw_filter md c ft (hexmsg_ptr mp mflags m) (hexmsg_ptr mp mflags p) (hexmsg_ptr proto fflags f) False)"

text \<open>The messages of the flow-control filter from 7E8 to 7E0.\<close>

definition fc_7e8 :: "u64 \<Rightarrow> u64 \<Rightarrow> 'a program \<Rightarrow> 'a program" where
  "fc_7e8 md c = sw_filter md c FLOW_CONTROL_FILTER
     (Some (hexmsg ISO15765 ISO15765_FRAME_PAD ''ffffffff'')) (Some (hexmsg ISO15765 ISO15765_FRAME_PAD ''000007e8''))
     (Some (hexmsg ISO15765 ISO15765_FRAME_PAD ''000007e0'')) True"

text \<open>\<open>snprintf(pat, \<dots>, "000007%02x", 0xE0 + i)\<close>.\<close>

definition pass_patterns :: "string list" where
  "pass_patterns = [''000007e0'', ''000007e1'', ''000007e2'', ''000007e3'', ''000007e4'', ''000007e5'',
     ''000007e6'', ''000007e7'', ''000007e8'', ''000007e9'', ''000007ea'']"

definition pass_filters :: "u64 \<Rightarrow> u64 \<Rightarrow> nat \<Rightarrow> 'a program \<Rightarrow> 'a program" where
  "pass_filters md c n = each (\<lambda>p.
     sw_filter md c PASS_FILTER (Some (hexmsg CAN 0 ''00000fff'')) (Some (hexmsg CAN 0 p)) None True)
     (take n pass_patterns)"

definition sc_sweep_filter :: "u64 \<Rightarrow> unit program" where
  "sc_sweep_filter before = sw_open before (\<lambda>md.
    sw_channel md CAN 0 500000 (\<lambda>c k.
      sw_filter_cases md c CAN SW_CAN_FILTERS (
      pass_filters md c 2 (
      sw_ioctl md c Io_Clear_Msg_Filters (
      sw_ioctl md c Io_Clear_Msg_Filters k)))) (
    sw_channel md ISO15765 0 500000 (\<lambda>c k.
      sw_filter_cases md c ISO15765 SW_ISO_FILTERS (
      fc_7e8 md c (
      fc_7e8 md c (
      sw_ioctl md c Io_Clear_Msg_Filters k)))) (
    sw_channel md ISO14230 0 10400 (\<lambda>c.
      sw_filter_cases md c ISO14230 SW_KLINE_FILTERS) (
    sw_close md))))"

definition sw_write_cases :: "u64 \<Rightarrow> u64 \<Rightarrow> u64 \<Rightarrow> sw_wcase list \<Rightarrow> 'a program \<Rightarrow> 'a program" where
  "sw_write_cases md c proto = each (\<lambda>(mproto, flags, hex).
     sw_write md c [hexmsg (if mproto \<noteq> 0 then mproto else proto) flags hex] 1)"

definition can_request :: PASSTHRU_MSG where
  "can_request = hexmsg CAN 0 ''000007df0201000000000000''"

definition sweep_tx_can :: "u64 \<Rightarrow> u64 \<Rightarrow> 'a program \<Rightarrow> 'a program" where
  "sweep_tx_can md c k =
    sw_write_cases md c CAN SW_CAN_WRITES (
    sw_write md c [can_request, can_request, can_request] 3 (
    sw_filter md c PASS_FILTER (Some (hexmsg CAN 0 ''00000000'')) (Some (hexmsg CAN 0 ''00000000'')) None True (
    sw_config md c True [(LOOPBACK, 1)] 1 (
    sw_ioctl md c Io_Clear_Rx_Buffer (
    sw_write md c [can_request] 1 (
    sw_mark md (sc_read c 8 200 (
    sw_config md c True [(LOOPBACK, 0)] 1 (
    sw_ioctl md c Io_Clear_Msg_Filters (
    sw_periodic md c can_request 5 False (
    sw_periodic md c can_request 65535 False (
    sw_periodic md c (hexmsg CAN CAN_29BIT_ID ''18db33f10201000000000000'') 1000 False (
    sw_periodic md c (hexmsg CAN 0 ''000007df'') 1000 False (
    each (\<lambda>i. sw_periodic md c can_request 1000 True) [0..<11] (
    sw_ioctl md c Io_Clear_Periodic_Msgs (
    sw_ioctl md c Io_Clear_Tx_Buffer (
    sw_ioctl md c (Io_Other CLEAR_FUNCT_MSG_LOOKUP_TABLE) k)))))))))))))))))"

text \<open>\<open>big\<close>: a message that is zero after its first bytes.\<close>

definition sw_big_msg :: "u64 \<Rightarrow> u64 \<Rightarrow> u64 \<Rightarrow> u8 list \<Rightarrow> PASSTHRU_MSG" where
  "sw_big_msg proto flags n d =
    msg0\<lparr>ProtocolID := proto, TxFlags := flags, DataSize := n, Data := mem_write (\<lambda>_. 0) 0 d\<rparr>"

definition sweep_tx_iso :: "u64 \<Rightarrow> u64 \<Rightarrow> 'a program \<Rightarrow> 'a program" where
  "sweep_tx_iso md c k =
    fc_7e8 md c (
    sw_filter md c FLOW_CONTROL_FILTER
      (Some (hexmsg ISO15765 (CAN_29BIT_ID OR ISO15765_FRAME_PAD) ''1fffffff''))
      (Some (hexmsg ISO15765 (CAN_29BIT_ID OR ISO15765_FRAME_PAD) ''18daf110''))
      (Some (hexmsg ISO15765 (CAN_29BIT_ID OR ISO15765_FRAME_PAD) ''18da10f1'')) True (
    sw_filter md c FLOW_CONTROL_FILTER
      (Some (hexmsg ISO15765 (ISO15765_ADDR_TYPE OR ISO15765_FRAME_PAD) ''ffffffffff''))
      (Some (hexmsg ISO15765 (ISO15765_ADDR_TYPE OR ISO15765_FRAME_PAD) ''00000612f1''))
      (Some (hexmsg ISO15765 (ISO15765_ADDR_TYPE OR ISO15765_FRAME_PAD) ''000006f112'')) True (
    sw_write_cases md c ISO15765 SW_ISO_WRITES (
    sw_write md c [sw_big_msg ISO15765 ISO15765_FRAME_PAD 4099 [0, 0, 0x07, 0xE0, 0x22]] 1 (
    sw_periodic md c (hexmsg ISO15765 ISO15765_FRAME_PAD ''000007e03e80'') 1000 False (
    sw_periodic md c (hexmsg ISO15765 ISO15765_FRAME_PAD ''000007e022f190f18cf187f189f191f192f193f194f1a0'')
      1000 False k))))))"

definition five_baud_33 :: "u64 \<Rightarrow> ioctl" where
  "five_baud_33 n = Io_Five_Baud_Init (Some \<lparr>NumOfBytes = n, BytePtr = Some [0x33]\<rparr>)
     (Some \<lparr>NumOfBytes = 8, BytePtr = Some (replicate 8 0)\<rparr>)"

definition sweep_tx_kline :: "u64 \<Rightarrow> u64 \<Rightarrow> 'a program \<Rightarrow> 'a program" where
  "sweep_tx_kline md c k =
    sw_write_cases md c ISO14230 SW_KLINE_WRITES (
    sw_periodic md c (hexmsg ISO14230 0 ''8110f13e'') 2000 False (
    sw_ioctl md c (five_baud_33 0) (
    sw_ioctl md c (five_baud_33 1) k)))"

definition sc_sweep_tx :: "u64 \<Rightarrow> unit program" where
  "sc_sweep_tx before = sw_open before (\<lambda>md.
    sw_channel md CAN 0 500000 (sweep_tx_can md) (
    sw_channel md ISO15765 0 500000 (sweep_tx_iso md) (
    sw_channel md ISO14230 0 10400 (sweep_tx_kline md) (
    sw_close md))))"

definition edge_can :: "u64 \<Rightarrow> u64 \<Rightarrow> 'a program \<Rightarrow> 'a program" where
  "edge_can md c k =
    sw_filter md c 0 (Some (hexmsg CAN 0 ''00000fff'')) (Some (hexmsg CAN 0 ''000007e8'')) None False (
    sw_filter md c 4 (Some (hexmsg CAN 0 ''00000fff'')) (Some (hexmsg CAN 0 ''000007e8'')) None False (
    pass_filters md c 11 (
    sw_ioctl md c Io_Clear_Msg_Filters (
    sw_write_cases md c CAN SW_CAN_EDGE_WRITES (
    sw_periodic md c can_request 4 False (
    sw_periodic md c can_request 65536 False (
    sw_periodic md c (hexmsg CAN 0 ''000007'') 1000 False k)))))))"

definition edge_iso :: "u64 \<Rightarrow> u64 \<Rightarrow> 'a program \<Rightarrow> 'a program" where
  "edge_iso md c k =
    fc_7e8 md c (
    sw_write_cases md c ISO15765 SW_ISO_EDGE_WRITES (
    sw_write md c [sw_big_msg ISO15765 ISO15765_FRAME_PAD 4100 [0, 0, 0x07, 0xE0, 0x22]] 1 k))"

definition sc_edge :: "u64 \<Rightarrow> unit program" where
  "sc_edge before = sw_open before (\<lambda>md.
    sw_channel md CAN 0 500000 (edge_can md) (
    sw_channel md ISO15765 0 500000 (edge_iso md) (
    sw_channel md ISO14230 0 10400 (\<lambda>c.
      sw_write md c [sw_big_msg ISO14230 0 260 [0x80, 0x10, 0xF1, 0x3E]] 1) (
    sw_channel md CAN 0 0 (\<lambda>c k. k) (
    sw_close md)))))"

section \<open>Which scenarios run\<close>

definition SCENARIOS :: "nat \<Rightarrow> u64 \<Rightarrow> (string \<times> unit program \<times> bool) list" where
  "SCENARIOS bench_cycles before =
    [(''open'', sc_open, True), (''iso15765'', sc_iso15765, True), (''multiframe'', sc_multiframe, True),
     (''timeouts'', sc_timeouts, True), (''errors'', sc_errors, True), (''periodic'', sc_periodic, True),
     (''raw_can'', sc_raw_can, True), (''kline'', sc_kline, False), (''bench'', sc_bench bench_cycles, False),
     (''sweep_connect'', sc_sweep_connect before, False), (''sweep_config'', sc_sweep_config before, False),
     (''sweep_filter'', sc_sweep_filter before, False), (''sweep_tx'', sc_sweep_tx before, False),
     (''edge'', sc_edge before, False)]"

text \<open>\<open>name[n] == '_'\<close>: past the end there is the NUL.\<close>

definition selects :: "string \<Rightarrow> string \<Rightarrow> bool" where
  "selects sel name \<longleftrightarrow> sel = ''all'' \<or> sel = name \<or>
     take (length sel) name = sel \<and> length sel < length name \<and> name ! length sel = CHR ''_''"

text \<open>The names that one round runs, for the selections on the command line (at most 16 are kept).\<close>

definition round_names :: "string list \<Rightarrow> string list" where
  "round_names sel =
    map fst (filter (\<lambda>(name, p, by_default). if sel = [] then by_default else \<exists>s \<in> set (take 16 sel). selects s name)
      (SCENARIOS 20 0))"

end
