(* ===== verification/Scenario_Props.thy ===== *)
theory Scenario_Props
  imports Scenarios
begin

text \<open>
  What the scenarios do whatever they are answered: they leave the device closed, the sweeps mark
  every call they make, and the messages of the sweeps only read.
\<close>

section \<open>Closing\<close>

named_theorems closing_rules

lemma closing_record [closing_rules]: "obeys closing (record_call rc k) h = obeys closing k h"
  by (simp add: record_call_def)

lemma closing_STEP [closing_rules]:
  "r \<noteq> R_Open \<Longrightarrow> \<forall>d. r \<noteq> R_Close d \<Longrightarrow> obeys closing (STEP r k) h = obeys closing k h"
  by (simp add: STEP_def closing_record)

lemma closing_STEP_close [closing_rules]:
  "obeys closing (STEP (R_Close d) k) h = obeys closing k (if h = Some d then None else h)"
  by (auto simp: STEP_def closing_record)

lemma closing_open:
  assumes "\<And>rc d. rc \<noteq> 0 \<Longrightarrow> obeys closing (k rc d) None" and "\<And>d. obeys closing (k 0 d) (Some d)"
  shows "obeys closing (do_open d0 k) None"
  using assms by (auto simp: do_open_def closing_record given_def)

lemma closing_connect [closing_rules]:
  "obeys closing (do_connect d p b c0 k) h =
    (\<forall>a :: answer. obeys closing (k (a_rc a) (given (a_id a) c0)) h)"
  by (simp add: do_connect_def closing_record)

lemma closing_iso_setup [closing_rules]:
  "obeys closing (iso_setup c f k) h = (\<forall>a :: answer. obeys closing (k (given (a_id a) f)) h)"
  by (simp add: iso_setup_def closing_rules)

lemma closing_sc [closing_rules]:
  "obeys closing (sc_write c p f b t k) h = obeys closing k h" "obeys closing (sc_read c n t k) h = obeys closing k h"
  by (simp_all add: sc_write_def sc_read_def closing_rules)

lemma closing_each [closing_rules]:
  "(\<And>x p. obeys closing (step x p) h = obeys closing p h) \<Longrightarrow> obeys closing (each step xs k) h = obeys closing k h"
  by (induction xs) simp_all

lemma closing_on_channel:
  assumes "\<And>c k h. obeys closing (body c k) h = obeys closing k h"
  shows "obeys closing (on_channel p b body) None"
  unfolding on_channel_def
  by (rule closing_open) (simp_all add: assms closing_rules Let_def)

lemma scenarios_closing:
  "obeys closing sc_open None" "obeys closing sc_iso15765 None" "obeys closing sc_multiframe None"
  "obeys closing sc_timeouts None" "obeys closing sc_errors None" "obeys closing sc_periodic None"
  "obeys closing sc_raw_can None" "obeys closing sc_kline None" "obeys closing (sc_bench n) None"
proof -
  show "obeys closing sc_open None"
    unfolding sc_open_def by (rule closing_open) (simp_all add: closing_rules)
  show "obeys closing sc_iso15765 None" "obeys closing sc_multiframe None" "obeys closing sc_timeouts None"
    "obeys closing sc_periodic None" "obeys closing sc_raw_can None" "obeys closing (sc_bench n) None"
    unfolding sc_iso15765_def sc_multiframe_def sc_timeouts_def sc_periodic_def sc_raw_can_def sc_bench_def
    by (rule closing_on_channel; simp add: closing_rules)+
  have errors: "obeys closing (do_open 0 k) None \<Longrightarrow> obeys closing (STEP (R_Disconnect 9) (do_open 0 k)) None" for k
    by (simp add: closing_rules)
  show "obeys closing sc_errors None"
    unfolding sc_errors_def by (rule errors, rule closing_open) (simp_all add: closing_rules Let_def)
  show "obeys closing sc_kline None"
    unfolding sc_kline_def fast_starts_def five_baud_sweep_def
    by (rule closing_open) (simp_all add: closing_rules Let_def)
qed

section \<open>The calls of a sweep\<close>

text \<open>
  A marked call keeps the state of a watch: after the mark the call is allowed, and whatever it is
  answered, the program may go on where it was.
\<close>

definition does :: "'h watch \<Rightarrow> 'h \<Rightarrow> u64 \<Rightarrow> request \<Rightarrow> bool" where
  "does W h md r \<longleftrightarrow> (\<forall>k :: answer \<Rightarrow> unit program.
     (\<forall>a. obeys W (k a) h) \<longrightarrow> obeys W (sw_mark md (Ask r k)) h)"

text \<open>Calls without messages that leave the device and its channels as they are.\<close>

definition plain_call :: "request \<Rightarrow> bool" where
  "plain_call r =
    (case r of
       R_Open \<Rightarrow> False | R_Close _ \<Rightarrow> False | R_Connect _ _ _ _ \<Rightarrow> False
     | R_Write _ _ _ _ \<Rightarrow> False | R_Start_Periodic _ _ _ \<Rightarrow> False | _ \<Rightarrow> True)"

text \<open>The messages that the bodies of the sweeps send.\<close>

definition case_msgs :: "u64 \<Rightarrow> sw_wcase list \<Rightarrow> PASSTHRU_MSG list" where
  "case_msgs proto = map (\<lambda>(mproto, flags, hex). hexmsg (if mproto \<noteq> 0 then mproto else proto) flags hex)"

definition tx_can_msgs :: "PASSTHRU_MSG list" where
  "tx_can_msgs = [can_request, hexmsg CAN CAN_29BIT_ID ''18db33f10201000000000000'', hexmsg CAN 0 ''000007df''] @
     case_msgs CAN SW_CAN_WRITES"

definition tx_iso_msgs :: "PASSTHRU_MSG list" where
  "tx_iso_msgs = [sw_big_msg ISO15765 ISO15765_FRAME_PAD 4099 [0, 0, 0x07, 0xE0, 0x22],
     hexmsg ISO15765 ISO15765_FRAME_PAD ''000007e03e80'',
     hexmsg ISO15765 ISO15765_FRAME_PAD ''000007e022f190f18cf187f189f191f192f193f194f1a0''] @
     case_msgs ISO15765 SW_ISO_WRITES"

definition tx_kline_msgs :: "PASSTHRU_MSG list" where
  "tx_kline_msgs = hexmsg ISO14230 0 ''8110f13e'' # case_msgs ISO14230 SW_KLINE_WRITES"

definition edge_can_msgs :: "PASSTHRU_MSG list" where
  "edge_can_msgs = [can_request, hexmsg CAN 0 ''000007''] @ case_msgs CAN SW_CAN_EDGE_WRITES"

definition edge_iso_msgs :: "PASSTHRU_MSG list" where
  "edge_iso_msgs = sw_big_msg ISO15765 ISO15765_FRAME_PAD 4100 [0, 0, 0x07, 0xE0, 0x22] #
     case_msgs ISO15765 SW_ISO_EDGE_WRITES"

locale sweeping =
  fixes W :: "'h watch" and h :: 'h and md :: u64 and good :: "PASSTHRU_MSG \<Rightarrow> bool"
  assumes last: "allows W h R_Last_Error" "moves W h R_Last_Error a = h"
    and plain: "plain_call r \<Longrightarrow> does W h md r"
    and writes: "list_all good ms \<Longrightarrow> does W h md (R_Write c ms n t)"
    and periodics: "good m \<Longrightarrow> does W h md (R_Start_Periodic c m i)"
begin

lemma recorded: "obeys W k h \<Longrightarrow> obeys W (record_call rc k) h"
  by (simp add: record_call_def last)

lemma marked: "does W h md r \<Longrightarrow> (\<And>a. obeys W (k a) h) \<Longrightarrow> obeys W (sw_mark md (Ask r k :: unit program)) h"
  by (simp add: does_def)

lemma step: "does W h md r \<Longrightarrow> obeys W k h \<Longrightarrow> obeys W (sw_mark md (STEP r k :: unit program)) h"
  unfolding STEP_def by (intro marked recorded)

lemma each: "(\<And>x p. x \<in> set xs \<Longrightarrow> obeys W p h \<Longrightarrow> obeys W (st x p) h) \<Longrightarrow> obeys W k h \<Longrightarrow> obeys W (each st xs k) h"
  by (rule obeys_each)

lemma calls:
  fixes k :: "unit program"
  assumes "obeys W k h"
  shows "obeys W (sw_config md c s ps n k) h" and "obeys W (sw_ioctl md c io k) h"
    and "obeys W (sw_filter md c ft m p f keep k) h" and "obeys W (sw_disconnect md c k) h"
    and "obeys W (sw_mark md (sc_read c w t k)) h"
    and "list_all good ms \<Longrightarrow> obeys W (sw_write md c ms n k) h"
    and "good pm \<Longrightarrow> obeys W (sw_periodic md c pm i keep k) h"
  unfolding sw_config_def sw_ioctl_def sw_filter_def sw_disconnect_def sc_read_def sw_write_def sw_periodic_def Let_def
  by (auto intro!: step marked recorded plain writes periodics assms simp: plain_call_def)

lemma filters:
  fixes k :: "unit program"
  assumes "obeys W k h"
  shows "obeys W (fc_7e8 md c k) h" and "obeys W (sw_filter_cases md c proto cs k) h"
    and "obeys W (pass_filters md c n k) h"
  unfolding fc_7e8_def sw_filter_cases_def pass_filters_def Let_def
  by (auto intro!: calls each assms split: prod.split)

lemma configs:
  fixes k :: "unit program"
  assumes "obeys W k h"
  shows "obeys W (sweep_params md c baud k) h" and "obeys W (sweep_iso_config md c k) h"
  unfolding sweep_params_def sweep_iso_config_def Let_def
  by (auto intro!: calls(1) each assms split: prod.split)

lemma write_cases:
  fixes k :: "unit program"
  shows "list_all good (case_msgs proto cs) \<Longrightarrow> obeys W k h \<Longrightarrow> obeys W (sw_write_cases md c proto cs k) h"
  unfolding sw_write_cases_def case_msgs_def
  by (induction cs) (auto intro!: calls(6) split: prod.splits)

lemma tx_bodies:
  fixes k :: "unit program"
  assumes "obeys W k h"
  shows "list_all good tx_can_msgs \<Longrightarrow> obeys W (sweep_tx_can md c k) h"
    and "list_all good tx_iso_msgs \<Longrightarrow> obeys W (sweep_tx_iso md c k) h"
    and "list_all good tx_kline_msgs \<Longrightarrow> obeys W (sweep_tx_kline md c k) h"
  unfolding sweep_tx_can_def sweep_tx_iso_def sweep_tx_kline_def tx_can_msgs_def tx_iso_msgs_def tx_kline_msgs_def
  subgoal by (intro write_cases calls filters each assms) auto
  subgoal by (intro write_cases calls filters each assms) auto
  subgoal by (intro write_cases calls(2,7) assms) auto
  done

lemma edge_bodies:
  fixes k :: "unit program"
  assumes "obeys W k h"
  shows "list_all good edge_can_msgs \<Longrightarrow> obeys W (edge_can md c k) h"
    and "list_all good edge_iso_msgs \<Longrightarrow> obeys W (edge_iso md c k) h"
  unfolding edge_can_def edge_iso_def edge_can_msgs_def edge_iso_msgs_def
  subgoal by (intro write_cases calls filters assms) auto
  subgoal by (intro write_cases calls filters assms) auto
  done

end

section \<open>The three watches\<close>

lemma closing_mark: "obeys closing (sw_mark md k) h = obeys closing k h"
  by (simp add: sw_mark_def)

interpretation close: sweeping closing "Some md" md "\<lambda>m. True" for md
  by unfold_locales (auto simp: does_def closing_mark plain_call_def split: request.splits)

text \<open>
  Every call but the open, the reading of the error text and the mark itself comes right after a mark
  on the device that was opened.
\<close>

definition is_mark :: "u64 \<Rightarrow> request \<Rightarrow> bool" where
  "is_mark md r \<longleftrightarrow> r = R_Ioctl md (Io_Read_Prog_Voltage (Some PIN_VADJ) True)"

definition marking :: "(u64 \<times> bool) watch" where
  "marking = \<lparr>
     believes = (\<lambda>h r a. True),
     allows = (\<lambda>(md, m) r. m \<or> is_mark md r \<or> r = R_Open \<or> r = R_Last_Error),
     moves = (\<lambda>(md, m) r a. if r = R_Open then (given (a_id a) md, False)
                else if r = R_Last_Error then (md, m) else (md, is_mark md r)),
     accepts = (\<lambda>h. True)\<rparr>"

lemma marking_simps [simp]:
  "believes marking h r a" "accepts marking h"
  "allows marking (md, m) r \<longleftrightarrow> m \<or> is_mark md r \<or> r = R_Open \<or> r = R_Last_Error"
  "moves marking (md, m) r a = (if r = R_Open then (given (a_id a) md, False)
     else if r = R_Last_Error then (md, m) else (md, is_mark md r))"
  by (simp_all add: marking_def)

lemma marking_mark: "obeys marking (sw_mark md k) (md, m) = obeys marking k (md, True)"
  by (simp add: sw_mark_def is_mark_def)

lemma marking_mono: "obeys marking p (md, False) \<Longrightarrow> obeys marking p (md, True)"
proof (induction p arbitrary: md)
  case (Ask r k)
  have "obeys marking (k a) (moves marking (md, True) r a)" for a
    using Ask.prems Ask.IH [OF rangeI, of a] by (cases "is_mark md r") (auto split: if_splits)
  then show ?case by simp
qed simp

lemma marking_does: "r \<noteq> R_Open \<Longrightarrow> does marking (md, False) md r"
  by (cases "is_mark md r"; cases "r = R_Last_Error") (simp_all add: does_def marking_mark marking_mono)

interpretation marks: sweeping marking "(md, False)" md "\<lambda>m. True" for md
  by unfold_locales (auto intro!: marking_does simp: plain_call_def)

text \<open>
  Where the service stands in a message on a channel of a protocol. Raw CAN (ISO 15765-2): after the
  four bytes of the id comes the frame's type; a single frame has its service next, a first frame after
  the second byte of its length, and the others have none. ISO15765: after the id, and after the
  extended address where there is one. K line (ISO 14230-2): the format byte tells; with 01 in its top
  bits the header is the three bytes of ISO 9141 and J1979, with 00 there is no address, else two, and
  where its length is 0 a length byte follows. A message of one byte is read as a service alone.
\<close>

definition kline_service_at :: "u8 \<Rightarrow> nat" where
  "kline_service_at fmt =
    (if fmt AND 0xC0 = 0x40 then 3
     else 1 + (if fmt AND 0xC0 \<noteq> 0 then 2 else 0) + (if fmt AND 0x3F = 0 then 1 else 0))"

definition service_at :: "u64 \<Rightarrow> PASSTHRU_MSG \<Rightarrow> nat option" where
  "service_at proto m =
    (if proto = CAN then
       (if Data m 4 AND 0xF0 = 0 then Some 5 else if Data m 4 AND 0xF0 = 0x10 then Some 6 else None)
     else if proto = ISO15765 then Some (if TxFlags m AND ISO15765_ADDR_TYPE \<noteq> 0 then 5 else 4)
     else if msg_size m = 1 then Some 0 else Some (kline_service_at (Data m 0)))"

text \<open>
  Services 1, 0x22 and 0x3E only read; 0 is reserved and no service at all. A message that ends before
  its service names none.
\<close>

definition reads_only :: "u64 \<Rightarrow> PASSTHRU_MSG \<Rightarrow> bool" where
  "reads_only proto m \<longleftrightarrow>
    (case service_at proto m of
       None \<Rightarrow> True
     | Some i \<Rightarrow> i < msg_size m \<longrightarrow>
         Data m i \<in> {0x01, 0x22, 0x3E} \<or> (proto \<noteq> CAN \<and> proto \<noteq> ISO15765 \<and> Data m i = 0))"

lemma kline_service_examples:
  "kline_service_at 0x81 = 3" "kline_service_at 0xC1 = 3" "kline_service_at 0x68 = 3" "kline_service_at 0x80 = 4"
  "kline_service_at 0x02 = 1" "kline_service_at 0x00 = 2"
  by (simp_all add: kline_service_at_def)

text \<open>An ECU reset hidden behind a length byte is not taken for a read.\<close>

lemma reset_is_no_read:
  "\<not> reads_only ISO14230 (sw_big_msg ISO14230 0 260 [0x80, 0x10, 0xF1, 0x3E, 0x11])"
  by (simp add: reads_only_def service_at_def kline_service_at_def sw_big_msg_def msg_size_def mem_write_def)

definition sent_msgs :: "request \<Rightarrow> PASSTHRU_MSG list" where
  "sent_msgs r =
    (case r of R_Write c ms n t \<Rightarrow> take (unat n) ms | R_Start_Periodic c m i \<Rightarrow> [m] | _ \<Rightarrow> [])"

text \<open>The state is the protocol of the last connect that was tried.\<close>

definition reads :: "u64 watch" where
  "reads = \<lparr>believes = (\<lambda>h r a. True), allows = (\<lambda>h r. list_all (reads_only h) (sent_msgs r)),
     moves = (\<lambda>h r a. case r of R_Connect d p f b \<Rightarrow> p | _ \<Rightarrow> h), accepts = (\<lambda>h. True)\<rparr>"

lemma reads_simps [simp]:
  "believes reads h r a" "accepts reads h"
  "allows reads h r \<longleftrightarrow> list_all (reads_only h) (sent_msgs r)"
  "moves reads h r a = (case r of R_Connect d p f b \<Rightarrow> p | _ \<Rightarrow> h)"
  by (simp_all add: reads_def)

lemma reads_mark: "obeys reads (sw_mark md k) h = obeys reads k h"
  by (simp add: sw_mark_def sent_msgs_def)

interpretation read: sweeping reads h md "reads_only h" for h md
  by unfold_locales
    (auto simp: does_def reads_mark plain_call_def sent_msgs_def list_all_iff dest: in_set_takeD split: request.splits)

section \<open>The sweeps\<close>

lemma closing_sw_open: "(\<And>md. obeys closing (body md) (Some md)) \<Longrightarrow> obeys closing (sw_open before body) None"
  unfolding sw_open_def by (rule closing_open) simp_all

lemma marking_sw_open:
  "(\<And>md. obeys marking (body md) (md, False)) \<Longrightarrow> obeys marking (sw_open before body) (before, False)"
  by (simp add: sw_open_def do_open_def record_call_def)

lemma reads_sw_open: "(\<And>md. obeys reads (body md) h) \<Longrightarrow> obeys reads (sw_open before body) h"
  by (simp add: sw_open_def do_open_def record_call_def sent_msgs_def)

lemma closing_sw_channel:
  fixes k :: "unit program"
  assumes "\<And>c (k :: unit program). obeys closing k (Some md) \<Longrightarrow> obeys closing (body c k) (Some md)" and "obeys closing k (Some md)"
  shows "obeys closing (sw_channel md p f b body k) (Some md)"
  using assms close.calls(4) [OF assms(2)]
  by (simp add: sw_channel_def sw_connect_def closing_mark closing_record)

lemma marking_sw_channel:
  fixes k :: "unit program"
  assumes "\<And>c (k :: unit program). obeys marking k (md, False) \<Longrightarrow> obeys marking (body c k) (md, False)"
    and "obeys marking k (md, False)"
  shows "obeys marking (sw_channel md p f b body k) (md, False)"
  using assms marks.calls(4) [OF assms(2)]
  by (simp add: sw_channel_def sw_connect_def marking_mark record_call_def is_mark_def)

lemma reads_sw_channel:
  fixes k :: "unit program"
  assumes "\<And>c (k :: unit program). obeys reads k p \<Longrightarrow> obeys reads (body c k) p" and "\<And>h. obeys reads k h"
  shows "obeys reads (sw_channel md p f b body k) h"
  using assms(1) read.calls(4) [OF assms(2)] assms(2)
  by (simp add: sw_channel_def sw_connect_def reads_mark record_call_def sent_msgs_def)

lemma sw_close_obeys:
  "obeys closing (sw_close md) (Some md)" "obeys marking (sw_close md) (md, False)" "obeys reads (sw_close md) h"
  by (simp_all add: sw_close_def STEP_def closing_mark marking_mark reads_mark record_call_def sent_msgs_def)

lemma sweeps_closing:
  "obeys closing (sc_sweep_connect before) None" "obeys closing (sc_sweep_config before) None"
  "obeys closing (sc_sweep_filter before) None" "obeys closing (sc_sweep_tx before) None"
  "obeys closing (sc_edge before) None"
  unfolding sc_sweep_connect_def sc_sweep_config_def sc_sweep_filter_def sc_sweep_tx_def sc_edge_def
  by (auto intro!: closing_sw_open closing_sw_channel sw_close_obeys close.calls close.filters close.configs
      close.tx_bodies close.edge_bodies obeys_each simp: list_all_iff split: prod.splits)

lemma sweeps_marking:
  "obeys marking (sc_sweep_connect before) (before, False)" "obeys marking (sc_sweep_config before) (before, False)"
  "obeys marking (sc_sweep_filter before) (before, False)" "obeys marking (sc_sweep_tx before) (before, False)"
  "obeys marking (sc_edge before) (before, False)"
  unfolding sc_sweep_connect_def sc_sweep_config_def sc_sweep_filter_def sc_sweep_tx_def sc_edge_def
  by (auto intro!: marking_sw_open marking_sw_channel sw_close_obeys marks.calls marks.filters marks.configs
      marks.tx_bodies marks.edge_bodies obeys_each simp: list_all_iff split: prod.splits)

text \<open>
  The messages of the sweeps only read. The room of a message is far more than its hex digits need, so
  they are evaluated with less.
\<close>

lemma hex_pairs_room: "length h \<le> 2 * n \<Longrightarrow> length h \<le> 2 * m \<Longrightarrow> hex_pairs h n = hex_pairs h m"
proof (induction h n arbitrary: m rule: hex_pairs.induct)
  case (1 a b h cap)
  obtain k where k: "m = Suc k" using 1(3) by (cases m) simp_all
  have "hex_pairs h cap = hex_pairs h k" if "scan_2x a b = Some v" for v
    using 1(2,3) k that by (intro 1(1)) simp_all
  then show ?case by (simp add: k split: option.split)
qed simp_all

definition hex_reads :: "u64 \<Rightarrow> u64 \<Rightarrow> u64 \<Rightarrow> string \<Rightarrow> bool" where
  "hex_reads proto p flags hex \<longleftrightarrow> length hex \<le> 128 \<and> reads_only proto (mk_msg p flags (hex_to_bytes (ascii hex) 64))"

lemma hex_reads_msg: "hex_reads proto p flags hex \<Longrightarrow> reads_only proto (hexmsg p flags hex)"
  using hex_pairs_room [of "ascii hex" 64 J2534_MSG_DATA_MAX]
  by (cases "ascii hex = [45]") (simp_all add: hex_reads_def hexmsg_def hex_to_bytes_def)

lemma case_msgs_read:
  "list_all (\<lambda>(mp, flags, hex). hex_reads proto (if mp \<noteq> 0 then mp else p) flags hex) cs \<Longrightarrow>
    list_all (reads_only proto) (case_msgs p cs)"
  by (auto simp: case_msgs_def list_all_iff intro: hex_reads_msg)

lemma write_cases_read:
  "list_all (\<lambda>(mp, flags, hex). hex_reads CAN (if mp \<noteq> 0 then mp else CAN) flags hex) (SW_CAN_WRITES @ SW_CAN_EDGE_WRITES)"
  "list_all (\<lambda>(mp, flags, hex). hex_reads ISO15765 (if mp \<noteq> 0 then mp else ISO15765) flags hex)
    (SW_ISO_WRITES @ SW_ISO_EDGE_WRITES)"
  "list_all (\<lambda>(mp, flags, hex). hex_reads ISO14230 (if mp \<noteq> 0 then mp else ISO14230) flags hex) SW_KLINE_WRITES"
  by code_simp+

lemma single_msgs_read:
  "hex_reads CAN CAN 0 ''000007df0201000000000000''" "hex_reads CAN CAN CAN_29BIT_ID ''18db33f10201000000000000''"
  "hex_reads CAN CAN 0 ''000007df''" "hex_reads CAN CAN 0 ''000007''"
  "hex_reads ISO15765 ISO15765 ISO15765_FRAME_PAD ''000007e03e80''"
  "hex_reads ISO15765 ISO15765 ISO15765_FRAME_PAD ''000007e022f190f18cf187f189f191f192f193f194f1a0''"
  "hex_reads ISO14230 ISO14230 0 ''8110f13e''"
  by code_simp+

lemma big_msgs_read:
  "n = 4099 \<or> n = 4100 \<Longrightarrow> reads_only ISO15765 (sw_big_msg ISO15765 ISO15765_FRAME_PAD n [0, 0, 0x07, 0xE0, 0x22])"
  "reads_only ISO14230 (sw_big_msg ISO14230 0 260 [0x80, 0x10, 0xF1, 0x3E])"
  by (auto simp: reads_only_def service_at_def kline_service_at_def sw_big_msg_def msg_size_def mem_write_def)

lemmas msgs_read = hex_reads_msg [OF single_msgs_read(1)] hex_reads_msg [OF single_msgs_read(2)]
  hex_reads_msg [OF single_msgs_read(3)] hex_reads_msg [OF single_msgs_read(4)] hex_reads_msg [OF single_msgs_read(5)]
  hex_reads_msg [OF single_msgs_read(6)] hex_reads_msg [OF single_msgs_read(7)] big_msgs_read case_msgs_read

lemma tx_read_only:
  "list_all (reads_only CAN) tx_can_msgs" "list_all (reads_only ISO15765) tx_iso_msgs"
  "list_all (reads_only ISO14230) tx_kline_msgs"
  unfolding tx_can_msgs_def tx_iso_msgs_def tx_kline_msgs_def can_request_def
  using write_cases_read
  by (simp_all only: list_all_append list.pred_inject append_Cons append_Nil simp_thms)
    (intro conjI msgs_read; simp only: list_all_append list.pred_inject simp_thms)+

lemma edge_read_only:
  "list_all (reads_only CAN) edge_can_msgs" "list_all (reads_only ISO15765) edge_iso_msgs"
  "reads_only ISO14230 (sw_big_msg ISO14230 0 260 [0x80, 0x10, 0xF1, 0x3E])"
  unfolding edge_can_msgs_def edge_iso_msgs_def can_request_def
  using write_cases_read
  by (simp_all only: list_all_append list.pred_inject append_Cons append_Nil simp_thms)
    (intro conjI msgs_read; simp only: list_all_append list.pred_inject simp_thms)+

lemma reads_each:
  assumes "\<And>x p h. (\<And>h. obeys reads p h) \<Longrightarrow> obeys reads (step x p) h" and "\<And>h. obeys reads k h"
  shows "obeys reads (each step xs k) h"
proof -
  have "\<forall>h. obeys reads (each step xs k) h"
    by (induction xs) (simp_all add: assms)
  then show ?thesis by blast
qed

lemma sweeps_reads:
  "obeys reads (sc_sweep_connect before) h" "obeys reads (sc_sweep_config before) h"
  "obeys reads (sc_sweep_filter before) h" "obeys reads (sc_sweep_tx before) h"
  unfolding sc_sweep_connect_def sc_sweep_config_def sc_sweep_filter_def sc_sweep_tx_def
  subgoal by (intro reads_sw_open reads_each sw_close_obeys) (auto intro!: reads_sw_channel split: prod.split)
  subgoal by (intro reads_sw_open reads_each sw_close_obeys)
    (auto intro!: reads_sw_channel read.configs split: prod.split)
  subgoal by (intro reads_sw_open reads_sw_channel sw_close_obeys read.calls read.filters)
  subgoal by (intro reads_sw_open reads_sw_channel sw_close_obeys read.tx_bodies tx_read_only)
  done

lemma edge_reads: "obeys reads (sc_edge before) h"
  unfolding sc_edge_def
  by (intro reads_sw_open reads_sw_channel sw_close_obeys read.edge_bodies edge_read_only read.calls)
    (simp_all add: edge_read_only [simplified])

section \<open>The other scenarios only read\<close>

named_theorems reads_rules

lemma reads_record [reads_rules]: "obeys reads (record_call rc k) h = obeys reads k h"
  by (simp add: record_call_def sent_msgs_def)

lemma reads_STEP [reads_rules]:
  "sent_msgs r = [] \<Longrightarrow> \<forall>d p f b. r \<noteq> R_Connect d p f b \<Longrightarrow> obeys reads (STEP r k) h = obeys reads k h"
  "obeys reads (STEP (R_Connect d p f b) k) h = obeys reads k p"
  by (simp add: STEP_def reads_record split: request.split) (simp add: STEP_def reads_record sent_msgs_def)

lemma reads_open [reads_rules]:
  "obeys reads (do_open d0 k) h = (\<forall>a :: answer. obeys reads (k (a_rc a) (given (a_id a) d0)) h)"
  by (simp add: do_open_def reads_record sent_msgs_def)

lemma reads_connect [reads_rules]:
  "obeys reads (do_connect d p b c0 k) h = (\<forall>a :: answer. obeys reads (k (a_rc a) (given (a_id a) c0)) p)"
  by (simp add: do_connect_def reads_record sent_msgs_def)

lemma reads_iso_setup [reads_rules]:
  "obeys reads (iso_setup c f k) h = (\<forall>a :: answer. obeys reads (k (given (a_id a) f)) h)"
  by (simp add: iso_setup_def reads_rules sent_msgs_def)

lemma reads_sc [reads_rules]:
  "obeys reads (sc_write c p f b t k) h = (reads_only h (mk_msg p f b) \<and> obeys reads k h)"
  "obeys reads (sc_read c n t k) h = obeys reads k h"
  by (simp_all add: sc_write_def sc_read_def STEP_def reads_rules sent_msgs_def)

lemma messages_read_only:
  "reads_only ISO15765 (mk_msg ISO15765 ISO15765_FRAME_PAD TESTER_PRESENT)"
  "reads_only ISO15765 (mk_msg ISO15765 ISO15765_FRAME_PAD READ_DID_0100)"
  "reads_only CAN (mk_msg CAN 0 RAW_FRAME)"
  by code_simp+

lemma scenarios_reads:
  "obeys reads sc_open h" "obeys reads sc_iso15765 h" "obeys reads sc_multiframe h" "obeys reads sc_timeouts h"
  "obeys reads sc_errors h" "obeys reads sc_periodic h" "obeys reads sc_raw_can h" "obeys reads sc_kline h"
  "obeys reads (sc_bench n) h"
  unfolding sc_open_def sc_iso15765_def sc_multiframe_def sc_timeouts_def sc_errors_def sc_periodic_def sc_raw_can_def
    sc_kline_def sc_bench_def on_channel_def fast_starts_def five_baud_sweep_def Let_def
  by (auto simp: reads_rules messages_read_only [simplified] sent_msgs_def intro!: obeys_each)

section \<open>Properties\<close>

text \<open>A program that ran to its end on the driver, from a closed device, has left it closed.\<close>

definition leaves_closed :: "'a program \<Rightarrow> bool" where
  "leaves_closed p \<longleftrightarrow> (\<forall>w vs tr x w' vs'. \<not> d_open (dev w) \<longrightarrow>
     run driver p (w, vs) = (tr, Some x, (w', vs')) \<longrightarrow> \<not> d_open (dev w'))"

lemma closing_leaves_closed: "obeys closing p None \<Longrightarrow> leaves_closed p"
  unfolding leaves_closed_def using lib.obeys_closes by fastforce

text \<open>C19. Every program of the repository that drives the library leaves the device closed: each of the
  fourteen scenarios of the trace tool and the three examples, run to its end on the driver from a
  closed device, with any answers, failures at any call and any interleaving.\<close>

theorem programs_leave_closed:
  "list_all (\<lambda>(name, p, by_default). leaves_closed p) (SCENARIOS n before) \<and>
   leaves_closed (op_smoke tx) \<and> leaves_closed op_iso15765 \<and> leaves_closed (op_kline five eobd)"
  by (simp add: SCENARIOS_def closing_leaves_closed scenarios_closing sweeps_closing smoke_closes iso_closes kline_closes)

text \<open>C20. The trace tool writes to no ECU: on any library and whatever it answers, every message it writes
  and every periodic message of all fourteen scenarios, read under the protocol of the last connect (the
  frame type on raw CAN, the format byte on a K line), asks for service 1, 0x22 or 0x3E or, on a K line,
  for the reserved service 0; or it ends before its service and names none.\<close>

theorem scenarios_read_only:
  "list_all (\<lambda>(name, p, by_default). follows reads (fst (run serve p s)) h) (SCENARIOS n before)"
  by (simp add: SCENARIOS_def obeys_follows scenarios_reads sweeps_reads edge_reads)

end
