(* ===== verification/Trace.thy ===== *)
theory Trace
  imports Scenario_Props
begin

text \<open>
  The JSON trace of tools/ab-official/j2534_trace.c: strings, messages, the line of a call, and the
  programs of \<open>Scenarios\<close> with the counters that number the lines and the marks. The microseconds are a text.
\<close>

section \<open>JSON\<close>

definition json_char :: "u8 \<Rightarrow> u8 list" where
  "json_char c =
    (if c = 34 \<or> c = 92 then [92, c]
     else if c < 0x20 \<or> 0x7f \<le> c then [92, 117, 48, 48] @ hex2 c
     else [c])"

definition json_str :: "u8 list \<Rightarrow> u8 list" where
  "json_str s = [34] @ concat (map json_char s) @ [34]"

definition json_msg :: "PASSTHRU_MSG \<Rightarrow> u8 list" where
  "json_msg m =
    ascii ''{\"proto\":'' @ lu (ProtocolID m) @ ascii '',\"rx\":'' @ lu (RxStatus m) @ ascii '',\"tx\":'' @ lu (TxFlags m) @
    ascii '',\"ts\":'' @ lu (Timestamp m) @ ascii '',\"size\":'' @ lu (DataSize m) @ ascii '',\"extra\":'' @
    lu (ExtraDataIndex m) @ ascii '',\"data\":\"'' @ concat (map hex2 (rec_data m)) @ ascii ''\"}''"

text \<open>\<open>msgs_detail\<close>, where it fits its buffer of 64 KiB; what is left of a longer one depends on the library.\<close>

fun json_msgs :: "PASSTHRU_MSG list \<Rightarrow> u8 list" where
  "json_msgs [] = []"
| "json_msgs [m] = json_msg m"
| "json_msgs (m # ms) = json_msg m @ [44] @ json_msgs ms"

definition msgs_detail :: "string \<Rightarrow> PASSTHRU_MSG list \<Rightarrow> u8 list option" where
  "msgs_detail key ms =
    (let text = [34] @ ascii key @ ascii ''\":['' @ json_msgs ms @ [93]
     in if length text < 65536 then Some text else None)"

section \<open>The line of a call\<close>

record trace_state =
  line_no :: nat
  marks_made :: nat
  mark_pending :: nat
  trace_out :: "u8 list list"

text \<open>\<open>err\<close> is the error text, which is read after a call that failed; an empty detail is left out.\<close>

definition trace_record ::
  "u8 list \<Rightarrow> u8 list \<Rightarrow> int \<Rightarrow> u8 list \<Rightarrow> u8 list \<Rightarrow> u8 list \<Rightarrow> trace_state \<Rightarrow> trace_state" where
  "trace_record scenario stp rc us err detail s =
    (let line =
       ascii ''{\"i\":'' @ dec (Suc (line_no s)) @ ascii '',\"scenario\":\"'' @ scenario @ ascii ''\",\"step\":\"'' @ stp @
       ascii ''\",\"rc\":'' @ dec_int rc @ ascii '',\"us\":'' @ us @
       (if mark_pending s \<noteq> 0 then ascii '',\"mark\":'' @ dec (mark_pending s) else []) @
       (if rc \<noteq> 0 then ascii '',\"err\":'' @ json_str (take 255 err) else []) @
       (if detail \<noteq> [] then [44] @ detail else []) @ ascii ''}'' @ [10]
     in s\<lparr>line_no := Suc (line_no s), mark_pending := 0, trace_out := trace_out s @ [line]\<rparr>)"

definition trace_mark :: "trace_state \<Rightarrow> trace_state" where
  "trace_mark s = s\<lparr>marks_made := Suc (marks_made s), mark_pending := Suc (marks_made s)\<rparr>"

section \<open>Reading the trace\<close>

text \<open>A reader of the rest of a JSON string that knows the escapes of the trace: the bytes and what follows.\<close>

fun json_read :: "u8 list \<Rightarrow> (u8 list \<times> u8 list) option" where
  "json_read [] = None"
| "json_read (c # r) =
     (if c = 34 then Some ([], r)
      else if c \<noteq> 92 then map_option (\<lambda>(s, t). (c # s, t)) (json_read r)
      else if take 1 r = [117] then map_option (\<lambda>(s, t). (given (scan_2x (r ! 3) (r ! 4)) 0 # s, t)) (json_read (drop 5 r))
      else map_option (\<lambda>(s, t). (r ! 0 # s, t)) (json_read (drop 1 r)))"

lemma json_read_char: "json_read (json_char c @ r) = map_option (\<lambda>(s, t). (c # s, t)) (json_read r)"
  by (auto simp: json_char_def hex2_def scan_2x_hex2 given_def)

lemma json_reads_back: "json_read (tl (json_str s @ rest)) = Some (s, rest)"
proof -
  have "json_read (concat (map json_char s) @ 34 # rest) = Some (s, rest)"
    by (induction s) (simp_all add: json_read_char)
  then show ?thesis by (simp add: json_str_def)
qed

lemma json_char_printable: "b \<in> set (json_char c) \<Longrightarrow> 32 \<le> b \<and> b < 127"
  using high_nibble [of c]
  by (auto simp: json_char_def hex2_def word_le_nat_alt word_less_nat_alt unat_hex_digit simp del: high_nibble
      split: if_splits)

text \<open>Whatever the library's error text holds, a line stays one line.\<close>

lemma json_str_one_line: "10 \<notin> set (json_str s)"
  using json_char_printable [of 10] by (auto simp: json_str_def)

lemma record_one_line:
  assumes "10 \<notin> set scenario" and "10 \<notin> set stp" and "10 \<notin> set us" and "10 \<notin> set detail"
  shows "\<exists>line. trace_out (trace_record scenario stp rc us err detail s) = trace_out s @ [line @ [10]] \<and> 10 \<notin> set line"
proof -
  have d: "10 \<notin> set (dec n)" "10 \<notin> set (dec_int i)" for n i by (simp_all add: dec_int_def)
  show ?thesis
    using assms d json_str_one_line by (auto simp: trace_record_def Let_def text_simps)
qed

section \<open>The mark of a line\<close>

text \<open>
  A reader of the mark that works on the text of a line alone: seven members and strings in quotes come
  before it, so it stands after the fourteenth quote and the next comma, if it stands there.
\<close>

fun after_quotes :: "nat \<Rightarrow> u8 list \<Rightarrow> u8 list" where
  "after_quotes 0 xs = xs"
| "after_quotes (Suc n) xs = after_quotes n (tl (dropWhile (\<lambda>c. c \<noteq> 34) xs))"

definition read_mark :: "u8 list \<Rightarrow> nat option" where
  "read_mark line =
    (let rest = dropWhile (\<lambda>c. c \<noteq> 44) (after_quotes 14 line); key = ascii '',\"mark\":''
     in if take 8 rest = key then Some (dec_value (takeWhile is_digit (drop 8 rest))) else None)"

lemma after_quotes_at [simp]:
  "34 \<notin> set xs \<Longrightarrow> after_quotes (numeral n) (xs @ ys) = after_quotes (numeral n) ys"
  "after_quotes (numeral n) (34 # ys) = after_quotes (pred_numeral n) ys"
  "c \<noteq> 34 \<Longrightarrow> after_quotes (numeral n) (c # ys) = after_quotes (numeral n) ys"
proof -
  have "dropWhile (\<lambda>c. c \<noteq> 34) (xs @ ys) = dropWhile (\<lambda>c. c \<noteq> 34) ys" if "34 \<notin> set xs"
    using that by (induction xs) auto
  then show "34 \<notin> set xs \<Longrightarrow> after_quotes (numeral n) (xs @ ys) = after_quotes (numeral n) ys"
    by (simp add: numeral_eq_Suc)
qed (simp_all add: numeral_eq_Suc)

lemma dec_no_digit:
  "\<not> is_digit c \<Longrightarrow> c \<notin> set (dec n)" "\<not> is_digit c \<Longrightarrow> c \<noteq> 45 \<Longrightarrow> c \<notin> set (dec_int i)"
  by (auto simp: dec_int_def dest: dec_digits)

text \<open>
  The texts of a line. The names of scenarios and steps are literals of the program without a quote, and
  the microseconds are digits; the error text and the detail may be anything.
\<close>

record line_texts =
  l_scenario :: "u8 list"
  l_step :: "u8 list"
  l_us :: "u8 list"
  l_err :: "u8 list"
  l_detail :: "u8 list"

definition texts_plain :: "line_texts \<Rightarrow> bool" where
  "texts_plain t \<longleftrightarrow> 34 \<notin> set (l_scenario t) \<and> 34 \<notin> set (l_step t) \<and> 34 \<notin> set (l_us t) \<and> 44 \<notin> set (l_us t)"

definition record_texts :: "line_texts \<Rightarrow> int \<Rightarrow> trace_state \<Rightarrow> trace_state" where
  "record_texts t rc s = trace_record (l_scenario t) (l_step t) rc (l_us t) (l_err t) (l_detail t) s"

lemma record_texts_state [simp]:
  "marks_made (record_texts t rc s) = marks_made s" "mark_pending (record_texts t rc s) = 0"
  by (simp_all add: record_texts_def trace_record_def)

lemma mark_read_back:
  assumes "texts_plain t" and "mark_pending s \<noteq> 0"
  shows "read_mark (last (trace_out (record_texts t rc s))) = Some (mark_pending s)"
proof -
  have q: "34 \<notin> set (dec n)" "34 \<notin> set (dec_int i)" for n i
    using dec_no_digit(1) [of 34] dec_no_digit(2) [of 34] by (simp_all add: is_digit_def)
  have us: "dropWhile (\<lambda>c. c \<noteq> 44) (l_us t @ 44 # r) = 44 # r" for r
    using assms(1) by (subst dropWhile_append2) (auto simp: texts_plain_def)
  have num: "dec_value (takeWhile is_digit (dec n @ r)) = n" if "r \<noteq> []" "\<not> is_digit (hd r)" for n r
    using takeWhile_append_stop [of "dec n" is_digit r] that by (simp add: dec_digits)
  show ?thesis
    using assms q
    by (simp add: record_texts_def trace_record_def texts_plain_def read_mark_def Let_def text_simps us num is_digit_def)
qed

section \<open>The lines of a run\<close>

text \<open>
  The requests of a run that get a line, with the line: a mark is counted and pending, the reading of the
  error text has no line, every other call is recorded, with the texts of its number. A mark is the one
  request that \<open>sw_mark\<close> makes; the scenarios make it nowhere else.
\<close>

fun trace_lines :: "u64 \<Rightarrow> (nat \<Rightarrow> line_texts) \<Rightarrow> trace \<Rightarrow> trace_state \<Rightarrow> (request \<times> u8 list) list" where
  "trace_lines md texts [] s = []"
| "trace_lines md texts ((r, a) # tr) s =
     (let md = (if r = R_Open then given (a_id a) md else md) in
      if is_mark md r then trace_lines md texts tr (trace_mark s)
      else if r = R_Last_Error then trace_lines md texts tr s
      else let s = record_texts (texts (line_no s)) (a_rc a) s
           in (r, last (trace_out s)) # trace_lines md texts tr s)"

text \<open>Every line but an open's carries a mark above \<open>m\<close>, and no two of them the same.\<close>

definition own_mark :: "nat \<Rightarrow> (request \<times> u8 list) list \<Rightarrow> bool" where
  "own_mark m ls \<longleftrightarrow>
    (let called = filter (\<lambda>(r, line). r \<noteq> R_Open) ls
     in list_all (\<lambda>(r, line). case read_mark line of Some k \<Rightarrow> m < k | None \<Rightarrow> False) called \<and>
        distinct (map (\<lambda>(r, line). read_mark line) called))"

lemma own_mark_mono: "own_mark m ls \<Longrightarrow> n \<le> m \<Longrightarrow> own_mark n ls"
  by (fastforce simp: own_mark_def list_all_iff Let_def split: option.splits)

lemma own_mark_cons:
  assumes "own_mark m ls" and "read_mark line = Some m"
  shows "own_mark (m - 1) ((r, line) # ls) \<longleftrightarrow> r = R_Open \<or> 0 < m"
proof -
  have "Some m \<notin> (\<lambda>(r, line). read_mark line) ` set (filter (\<lambda>(r, line). r \<noteq> R_Open) ls)"
    using assms(1) by (force simp: own_mark_def list_all_iff Let_def split: option.splits)
  with own_mark_mono [OF assms(1), of "m - 1"] assms(2) show ?thesis
    by (auto simp: own_mark_def Let_def)
qed

lemma own_mark_open: "own_mark m ((R_Open, line) # ls) = own_mark m ls"
  by (simp add: own_mark_def)

lemma follows_own_mark:
  "follows marking tr (md, p) \<Longrightarrow> (\<And>k. texts_plain (texts k)) \<Longrightarrow>
    mark_pending s = (if p then marks_made s else 0) \<Longrightarrow> (p \<Longrightarrow> 0 < marks_made s) \<Longrightarrow>
    own_mark (if p then marks_made s - 1 else marks_made s) (trace_lines md texts tr s)"
proof (induction md texts tr s arbitrary: p rule: trace_lines.induct)
  case (1 md texts s)
  then show ?case by (simp add: own_mark_def)
next
  case (2 md texts r a tr s)
  consider (opn) "r = R_Open" | (mark) "is_mark md r" "r \<noteq> R_Open" | (err) "r = R_Last_Error"
    | (call) "r \<noteq> R_Open" "\<not> is_mark md r" "r \<noteq> R_Last_Error" by blast
  then show ?case
  proof cases
    case opn
    then have "\<not> is_mark d r" for d by (simp add: is_mark_def)
    with opn 2(3) [of _ _ False] 2(4,5) show ?thesis
      by (auto simp: own_mark_open Let_def intro: own_mark_mono [OF _ diff_le_self])
  next
    case mark
    then have "own_mark (marks_made s) (trace_lines md texts tr (trace_mark s))"
      using 2(1) [of _ True] 2(4,5) by (auto simp: trace_mark_def is_mark_def)
    with mark show ?thesis by (auto simp: Let_def intro: own_mark_mono)
  next
    case err
    with 2(2) [of _ p] 2(4-7) show ?thesis by (simp add: is_mark_def)
  next
    case call
    with 2(4) have p by simp
    let ?s = "record_texts (texts (line_no s)) (a_rc a) s"
    have "own_mark (marks_made s) (trace_lines md texts tr ?s)"
      using call 2(3) [of _ _ False] 2(4,5) by simp
    moreover have "read_mark (last (trace_out ?s)) = Some (marks_made s)"
      using mark_read_back [OF 2(5), of s] 2(6,7) \<open>p\<close> by simp
    ultimately show ?thesis
      using call \<open>p\<close> 2(7) own_mark_cons by (simp add: Let_def)
  qed
qed

lemma sweeps_marked:
  "list_all (\<lambda>(name, p, by_default). follows marking (fst (run serve p s)) (before, False))
     (drop 9 (SCENARIOS n before))"
  by (simp add: SCENARIOS_def obeys_follows sweeps_marking)

definition trace0 :: trace_state where
  "trace0 = \<lparr>line_no = 0, marks_made = 0, mark_pending = 0, trace_out = []\<rparr>"

text \<open>What \<open>t\<close> still has pending is none of the scenario's.\<close>

lemma attributed:
  assumes "follows marking tr (before, False)" and "\<And>k. texts_plain (texts k)"
  shows "own_mark (marks_made t) (trace_lines before texts tr (t\<lparr>mark_pending := 0\<rparr>))"
  using follows_own_mark [OF assms, of "t\<lparr>mark_pending := 0\<rparr>"] by simp

section \<open>The command line\<close>

text \<open>\<open>atoi\<close>, of a number that an \<open>int\<close> holds.\<close>

definition atoi :: "u8 list \<Rightarrow> int" where
  "atoi s =
    (let (neg, s) = scan_sign (dropWhile is_space s); v = int (dec_value (takeWhile is_digit s))
     in if neg then - v else v)"

record trace_options =
  repeats :: int
  cycles :: int
  replay_path :: "string option"
  selected :: "string list"

definition options0 :: trace_options where
  "options0 = \<lparr>repeats = 1, cycles = 20, replay_path = None, selected = []\<rparr>"

definition select :: "string \<Rightarrow> trace_options \<Rightarrow> trace_options" where
  "select name opt = (if length (selected opt) < 16 then opt\<lparr>selected := selected opt @ [name]\<rparr> else opt)"

text \<open>An option that ends the line has no value and counts as the name of a scenario.\<close>

fun options :: "string list \<Rightarrow> trace_options \<Rightarrow> trace_options" where
  "options [] opt = opt"
| "options [name] opt = select name opt"
| "options (name # v # rest) opt =
    (if name = ''--repeat'' then options rest (opt\<lparr>repeats := atoi (ascii v)\<rparr>)
     else if name = ''--cycles'' then options rest (opt\<lparr>cycles := atoi (ascii v)\<rparr>)
     else if name = ''--replay'' then options rest (opt\<lparr>replay_path := Some v\<rparr>)
     else options (v # rest) (select name opt))"

definition EXPORTS :: "string list" where
  "EXPORTS =
    [''PassThruOpen'', ''PassThruClose'', ''PassThruConnect'', ''PassThruDisconnect'', ''PassThruReadMsgs'',
     ''PassThruWriteMsgs'', ''PassThruStartPeriodicMsg'', ''PassThruStopPeriodicMsg'', ''PassThruStartMsgFilter'',
     ''PassThruStopMsgFilter'', ''PassThruSetProgrammingVoltage'', ''PassThruReadVersion'', ''PassThruGetLastError'',
     ''PassThruIoctl'']"

text \<open>
  What \<open>main\<close> goes on to do: nothing, with the exit code 2, and the missing export where that is why;
  replay a file; or run scenarios, each with the number of its round.
\<close>

datatype plan =
    Refuse "string option"
  | Replay_File string
  | Run "(string \<times> nat) list" nat

definition trace_plan :: "string list \<Rightarrow> bool \<Rightarrow> bool \<Rightarrow> (string \<Rightarrow> bool) \<Rightarrow> plan" where
  "trace_plan argv opens loads exported =
    (if length argv < 3 then Refuse None
     else let opt = options (drop 3 argv) options0 in
       if argv ! 2 \<noteq> ''-'' \<and> \<not> opens then Refuse None
       else if \<not> loads then Refuse None
       else case find (\<lambda>name. \<not> exported name) EXPORTS of
         Some name \<Rightarrow> Refuse (Some name)
       | None \<Rightarrow>
           (case replay_path opt of
              Some path \<Rightarrow> Replay_File path
            | None \<Rightarrow>
                Run (concat (map (\<lambda>r. map (\<lambda>name. (name, r)) (round_names (selected opt))) [0..<nat (repeats opt)]))
                  (nat (cycles opt))))"

text \<open>The lines around those of the calls.\<close>

definition header_line :: "u8 list \<Rightarrow> string \<Rightarrow> bool \<Rightarrow> int \<Rightarrow> u8 list" where
  "header_line lib platform wine n =
    ascii ''{\"header\":true,\"library\":'' @ json_str lib @ ascii '',\"platform\":\"'' @ ascii platform @
    ascii ''\",\"wine\":'' @ dec (if wine then 1 else 0) @ ascii '',\"repeat\":'' @ dec_int n @ [125, 10]"

definition begin_line :: "string \<times> nat \<Rightarrow> u8 list" where
  "begin_line x = ascii ''{\"begin\":\"'' @ ascii (fst x) @ ascii ''\",\"round\":'' @ dec (snd x) @ [125, 10]"

definition replay_line_begin :: "u8 list \<Rightarrow> u8 list" where
  "replay_line_begin path = ascii ''{\"begin\":\"replay\",\"file\":'' @ json_str path @ [125, 10]"

definition end_line :: "trace_state \<Rightarrow> u8 list" where
  "end_line s = ascii ''{\"end\":true,\"calls\":'' @ dec (line_no s) @ [125, 10]"

lemma selected_at_most: "length (selected opt) \<le> 16 \<Longrightarrow> length (selected (options as opt)) \<le> 16"
  by (induction as opt rule: options.induct) (auto simp: select_def)

text \<open>A plan runs only scenarios there are, in every round the same ones; without a selection, the default ones.\<close>

lemma plan_runs:
  assumes "trace_plan argv opens loads exported = Run runs n"
  shows "\<exists>sel. length sel \<le> 16 \<and> (\<forall>r. map fst (filter (\<lambda>x. snd x = r) runs) = [] \<or>
      map fst (filter (\<lambda>x. snd x = r) runs) = round_names sel)"
proof -
  let ?opt = "options (drop 3 argv) options0"
  have runs: "runs = concat (map (\<lambda>r. map (\<lambda>name. (name, r)) (round_names (selected ?opt))) [0..<nat (repeats ?opt)])"
    using assms by (auto simp: trace_plan_def Let_def split: if_splits option.splits)
  have const: "filter (\<lambda>x. b) ns = (if b then ns else [])" for b and ns :: "string list" by simp
  have part: "map fst (filter (\<lambda>x. snd x = r) (concat (map (\<lambda>r. map (\<lambda>name. (name, r)) ns) rs))) =
      (if r \<in> set rs then ns else [])" if "distinct rs" for r rs and ns :: "string list"
    using that by (induction rs) (auto simp: filter_map comp_def const)
  have "map fst (filter (\<lambda>x. snd x = r) runs) = (if r < nat (repeats ?opt) then round_names (selected ?opt) else [])" for r
    unfolding runs using part [of "[0..<nat (repeats ?opt)]" r] by (simp del: map_eq_conv)
  moreover have "length (selected ?opt) \<le> 16" by (rule selected_at_most) (simp add: options0_def)
  ultimately show ?thesis by (metis (full_types))
qed

lemma default_plan:
  assumes "\<And>name. exported name"
  shows "trace_plan [a, lib, out] True True exported =
    Run (map (\<lambda>name. (name, 0)) [''open'', ''iso15765'', ''multiframe'', ''timeouts'', ''errors'', ''periodic'', ''raw_can'']) 20"
proof -
  have "find (\<lambda>name. \<not> exported name) EXPORTS = None" using assms by (simp add: find_None_iff)
  moreover have "round_names [] = [''open'', ''iso15765'', ''multiframe'', ''timeouts'', ''errors'', ''periodic'', ''raw_can'']"
    by (simp add: round_names_def SCENARIOS_def)
  ultimately show ?thesis by (simp add: trace_plan_def options0_def)
qed

text \<open>An option without its value runs nothing.\<close>

lemma valueless_option:
  assumes "\<And>name. exported name"
  shows "trace_plan [a, lib, out, ''--replay''] True True exported = Run [] 20"
proof -
  have "find (\<lambda>name. \<not> exported name) EXPORTS = None" using assms by (simp add: find_None_iff)
  moreover have "round_names [''--replay''] = []"
    by (simp add: round_names_def SCENARIOS_def selects_def)
  ultimately show ?thesis by (simp add: trace_plan_def options0_def select_def)
qed

section \<open>Property\<close>

text \<open>C21. Attribution: in the four sweeps and the edge cases, on any library and whatever it answers,
  the text of every line of the trace but that of the open carries a mark, read back from the line, that
  is greater than all of the scenarios before; and no two lines carry the same one: what the wire shows
  between two marks belongs to one call. The names of scenarios and steps hold no quote, the microseconds
  no quote and no comma; the error text and the details may be anything.\<close>

theorem sweep_lines_attributed:
  assumes "\<And>k. texts_plain (texts k)"
  shows "list_all (\<lambda>(name, p, by_default).
     let called = filter (\<lambda>(r, line). r \<noteq> R_Open)
           (trace_lines before texts (fst (run serve p s)) (t\<lparr>mark_pending := 0\<rparr>))
     in list_all (\<lambda>(r, line). case read_mark line of Some k \<Rightarrow> marks_made t < k | None \<Rightarrow> False) called \<and>
        distinct (map (\<lambda>(r, line). read_mark line) called))
     (drop 9 (SCENARIOS n before))"
  using sweeps_marked [of serve s before n] attributed [OF _ assms, of _ before t]
  by (elim list.pred_mono_strong) (simp add: split_beta Let_def own_mark_def)

text \<open>A library that grants every call: the edge cases write lines, and each has its mark.\<close>

definition edge_texts :: line_texts where
  "edge_texts = \<lparr>l_scenario = ascii ''edge'', l_step = ascii ''a step'', l_us = ascii ''12'', l_err = [],
     l_detail = ascii ''\"mark\":1''\<rparr>"

definition edge_lines :: "(request \<times> u8 list) list" where
  "edge_lines =
    filter (\<lambda>(r, line). r \<noteq> R_Open)
      (trace_lines 0 (\<lambda>k. edge_texts)
         (fst (run (\<lambda>u r. Some (answer0\<lparr>a_id := Some 7\<rparr>, u)) (sc_edge 0) ())) (trace0\<lparr>mark_pending := 0\<rparr>))"

theorem sweep_lines_attributed_witness:
  "list_all (\<lambda>(r, line). case read_mark line of Some k \<Rightarrow> marks_made trace0 < k | None \<Rightarrow> False) edge_lines \<and>
   distinct (map (\<lambda>(r, line). read_mark line) edge_lines)"
proof -
  have "texts_plain edge_texts" by (simp add: texts_plain_def edge_texts_def text_simps)
  from sweep_lines_attributed [OF this, of 0 "\<lambda>u r. Some (answer0\<lparr>a_id := Some 7\<rparr>, u)" "()" trace0 1]
  have "\<forall>x \<in> set (drop 9 (SCENARIOS 1 0)). case x of (name, p, by_default) \<Rightarrow>
      let called = filter (\<lambda>(r, line). r \<noteq> R_Open) (trace_lines 0 (\<lambda>k. edge_texts)
        (fst (run (\<lambda>u r. Some (answer0\<lparr>a_id := Some 7\<rparr>, u)) p ())) (trace0\<lparr>mark_pending := 0\<rparr>))
      in list_all (\<lambda>(r, line). case read_mark line of Some k \<Rightarrow> marks_made trace0 < k | None \<Rightarrow> False) called \<and>
        distinct (map (\<lambda>(r, line). read_mark line) called)"
    unfolding list_all_iff .
  moreover have "(''edge'', sc_edge 0, False) \<in> set (drop 9 (SCENARIOS 1 0))" by (simp add: SCENARIOS_def)
  ultimately show ?thesis unfolding edge_lines_def Let_def by blast
qed

end
