(* ===== verification/Usbtap.thy ===== *)
theory Usbtap
  imports Usb_Bus Client Replay
begin

text \<open>
  tools/usbtap/usbtap.c, the library that is put between a J2534 library and libusb and writes a trace
  of the transfers: the lines it writes, the table of the posted reads, and what a program sees with
  the tap and without it. The clock is the text that \<open>%8.4f\<close> prints.
\<close>

section \<open>The lines of the trace\<close>

definition tap_byte :: "u8 \<Rightarrow> u8 list" where
  "tap_byte c =
    (if c = 13 then [92, 114] else if c = 10 then [92, 110]
     else if 0x20 \<le> c \<and> c < 0x7f then [c]
     else [92, 120] @ hex2 c)"

definition tap_emit :: "u8 list \<Rightarrow> string \<Rightarrow> u8 \<Rightarrow> int \<Rightarrow> u8 list \<Rightarrow> u32 \<Rightarrow> u8 list" where
  "tap_emit now dir ep rc buf timeout =
    now @ [32] @ ascii dir @ ascii '' ep=0x'' @ hex2 ep @ ascii '' rc='' @ dec_int rc @
    ascii '' timeout='' @ dec_int (sint timeout) @ ascii '' len='' @ dec (length buf) @ ascii '' |'' @
    concat (map tap_byte buf) @ [124, 10]"

text \<open>
  Where the lines go: decided at the first one, from \<open>USBTAP_OUT\<close> and whether the file can be written;
  \<open>None\<close> before that.
\<close>

datatype tap_dest = Tap_file string | Tap_stderr

definition tap_open :: "string option \<Rightarrow> (string \<Rightarrow> bool) \<Rightarrow> tap_dest option \<Rightarrow> tap_dest option" where
  "tap_open env fopen g =
    (case g of
       Some d \<Rightarrow> Some d
     | None \<Rightarrow>
         let path = (case env of None \<Rightarrow> ''/tmp/usbtap.trace'' | Some p \<Rightarrow> p)
         in Some (if fopen path then Tap_file path else Tap_stderr))"

lemma tap_open_once: "tap_open env' fopen' (tap_open env fopen g) = tap_open env fopen g"
  by (simp add: tap_open_def Let_def split: option.split)

section \<open>Transfers\<close>

text \<open>
  A callback: the tap's own, or one of the program's. A transfer is named by its address; \<open>t_data\<close> is
  what \<open>actual_length\<close> says of its buffer.
\<close>

datatype callback = Tap_read_done | Own nat

record transfer =
  t_type :: u8
  t_endpoint :: u8
  t_timeout :: u32
  t_callback :: "callback option"
  t_status :: transfer_status
  t_data :: "u8 list"

definition LIBUSB_TRANSFER_TYPE_BULK :: u8 where "LIBUSB_TRANSFER_TYPE_BULK = 2"

definition bulk_in :: "transfer \<Rightarrow> bool" where
  "bulk_in t \<longleftrightarrow> t_type t = LIBUSB_TRANSFER_TYPE_BULK \<and> t_endpoint t AND 0x80 \<noteq> 0"

definition TAP_READS :: nat where "TAP_READS = 1024"

type_synonym tap_slot = "nat option \<times> callback option"

record tap =
  g_reads :: "tap_slot list"
  g_out :: "u8 list list"
  transfers :: "nat \<Rightarrow> transfer"

section \<open>The tap\<close>

text \<open>\<open>caller_cb\<close>, and the loop of \<open>tap_submit_transfer\<close> with its two indices.\<close>

fun caller_cb :: "tap_slot list \<Rightarrow> nat \<Rightarrow> callback option" where
  "caller_cb [] x = None"
| "caller_cb ((p, cb) # rs) x = (if p = Some x then cb else caller_cb rs x)"

fun find_slot :: "tap_slot list \<Rightarrow> nat \<Rightarrow> nat \<Rightarrow> nat option \<Rightarrow> nat \<times> nat option" where
  "find_slot [] x i free_at = (i, free_at)"
| "find_slot ((p, cb) # rs) x i free_at =
     (if p = Some x then (i, free_at)
      else find_slot rs x (Suc i) (if free_at = None \<and> p = None then Some i else free_at))"

definition tap_submit_transfer :: "nat \<Rightarrow> tap \<Rightarrow> tap" where
  "tap_submit_transfer x s =
    (let t = transfers s x in
     if bulk_in t \<and> t_callback t \<noteq> Some Tap_read_done then
       let (i, free_at) = find_slot (g_reads s) x 0 None;
           i = (if i = TAP_READS then free_at else Some i) in
       case i of
         None \<Rightarrow> s
       | Some i \<Rightarrow> s\<lparr>g_reads := (g_reads s)[i := (Some x, t_callback t)],
                      transfers := (transfers s)(x := t\<lparr>t_callback := Some Tap_read_done\<rparr>)\<rparr>
     else s)"

text \<open>With the callback that is called then.\<close>

definition tap_read_done :: "u8 list \<Rightarrow> nat \<Rightarrow> tap \<Rightarrow> callback option \<times> tap" where
  "tap_read_done now x s =
    (let t = transfers s x;
         s = (if t_status t = LIBUSB_TRANSFER_COMPLETED \<and> t_data t \<noteq> [] then
                s\<lparr>g_out := g_out s @ [tap_emit now ''IN '' (t_endpoint t) 0 (t_data t) (t_timeout t)]\<rparr>
              else s);
         cb = caller_cb (g_reads s) x
     in (cb, s\<lparr>transfers := (transfers s)(x := t\<lparr>t_callback := cb\<rparr>)\<rparr>))"

text \<open>
  A transfer that the program waits for. The result of \<open>libusb_bulk_transfer\<close>: its code, the bytes that
  came in, and a negative \<open>*transferred\<close> as none. The code and the bytes are passed on.
\<close>

definition tap_bulk_transfer ::
  "u8 list \<Rightarrow> u8 list \<Rightarrow> u8 \<Rightarrow> u8 list \<Rightarrow> u32 \<Rightarrow> int \<times> u8 list \<Rightarrow> tap \<Rightarrow> (int \<times> u8 list) \<times> tap" where
  "tap_bulk_transfer now later ep data timeout result s =
    (let s = (if ep AND 0x80 = 0 then s\<lparr>g_out := g_out s @ [tap_emit now ''OUT'' ep 0 data timeout]\<rparr> else s);
         s = (if ep AND 0x80 \<noteq> 0 then
                s\<lparr>g_out := g_out s @ [tap_emit later ''IN '' ep (fst result) (snd result) timeout]\<rparr> else s)
     in (result, s))"

section \<open>A program with the tap and without it\<close>

text \<open>
  What a program and libusb do: fill a transfer with a callback of the program (or none), submit it,
  complete a transfer, which calls its callback; a transfer that is waited for. The submissions that a
  callback makes are the next operations.
\<close>

datatype usb_op =
    Fill nat u8 u8 u32 "nat option"
  | Submit nat
  | Complete "u8 list" nat transfer_status "u8 list"
  | Bulk "u8 list" "u8 list" u8 "u8 list" u32 "int \<times> u8 list"

definition filled :: "u8 \<Rightarrow> u8 \<Rightarrow> u32 \<Rightarrow> nat option \<Rightarrow> transfer \<Rightarrow> transfer" where
  "filled ty ep tmo cb t = t\<lparr>t_type := ty, t_endpoint := ep, t_timeout := tmo, t_callback := map_option Own cb\<rparr>"

lemma filled_callback [simp]: "filled ty ep tmo cb (t\<lparr>t_callback := c\<rparr>) = filled ty ep tmo cb t"
  by (simp add: filled_def)

lemma filled_not_tap [simp]: "t_callback (filled ty ep tmo cb t) \<noteq> Some Tap_read_done"
  by (cases cb) (simp_all add: filled_def)

text \<open>The calls of callbacks, in order, are the output.\<close>

type_synonym usb_calls = "(nat \<times> callback) list"

definition called :: "nat \<Rightarrow> callback option \<Rightarrow> usb_calls" where
  "called x cb = (case cb of None \<Rightarrow> [] | Some c \<Rightarrow> [(x, c)])"

definition tapped_step :: "usb_op \<Rightarrow> tap \<Rightarrow> usb_calls \<times> tap" where
  "tapped_step e s =
    (case e of
       Fill x ty ep tmo cb \<Rightarrow> ([], s\<lparr>transfers := (transfers s)(x := filled ty ep tmo cb (transfers s x))\<rparr>)
     | Submit x \<Rightarrow> ([], tap_submit_transfer x s)
     | Complete now x status got \<Rightarrow>
         (let t = (transfers s x)\<lparr>t_status := status, t_data := got\<rparr>; s = s\<lparr>transfers := (transfers s)(x := t)\<rparr> in
          if t_callback t = Some Tap_read_done then
            let (cb, s) = tap_read_done now x s in (called x cb, s)
          else (called x (t_callback t), s))
     | Bulk now later ep data tmo result \<Rightarrow> ([], snd (tap_bulk_transfer now later ep data tmo result s)))"

text \<open>
  Without the tap, with the trace as it should be: \<open>watched\<close> are the reads that were submitted and have
  neither completed nor been filled again.
\<close>

record untapped =
  u_transfers :: "nat \<Rightarrow> transfer"
  watched :: "nat set"
  u_out :: "u8 list list"

definition untapped_step :: "usb_op \<Rightarrow> untapped \<Rightarrow> usb_calls \<times> untapped" where
  "untapped_step e p =
    (case e of
       Fill x ty ep tmo cb \<Rightarrow>
         ([], p\<lparr>u_transfers := (u_transfers p)(x := filled ty ep tmo cb (u_transfers p x)), watched := watched p - {x}\<rparr>)
     | Submit x \<Rightarrow> ([], if bulk_in (u_transfers p x) then p\<lparr>watched := insert x (watched p)\<rparr> else p)
     | Complete now x status got \<Rightarrow>
         (let t = (u_transfers p x)\<lparr>t_status := status, t_data := got\<rparr> in
          (called x (t_callback t),
           p\<lparr>u_transfers := (u_transfers p)(x := t), watched := watched p - {x},
             u_out := u_out p @ (if x \<in> watched p \<and> status = LIBUSB_TRANSFER_COMPLETED \<and> got \<noteq> []
               then [tap_emit now ''IN '' (t_endpoint t) 0 got (t_timeout t)] else [])\<rparr>))
     | Bulk now later ep data tmo result \<Rightarrow>
         ([], p\<lparr>u_out := u_out p @ [if ep AND 0x80 = 0 then tap_emit now ''OUT'' ep 0 data tmo
              else tap_emit later ''IN '' ep (fst result) (snd result) tmo]\<rparr>))"

fun steps :: "('e \<Rightarrow> 's \<Rightarrow> 'o list \<times> 's) \<Rightarrow> 'e list \<Rightarrow> 's \<Rightarrow> 'o list \<times> 's" where
  "steps step [] s = ([], s)"
| "steps step (e # es) s =
     (let (o1, s1) = step e s; (o2, s2) = steps step es s1 in (o1 @ o2, s2))"

text \<open>The start: no read is in the table and no transfer has the tap's callback.\<close>

definition tap0 :: "(nat \<Rightarrow> transfer) \<Rightarrow> tap" where
  "tap0 ts = \<lparr>g_reads = replicate TAP_READS (None, None), g_out = [], transfers = ts\<rparr>"

definition untapped0 :: "(nat \<Rightarrow> transfer) \<Rightarrow> untapped" where
  "untapped0 ts = \<lparr>u_transfers = ts, watched = {}, u_out = []\<rparr>"

definition fresh_transfers :: "nat \<Rightarrow> transfer" where
  "fresh_transfers x = \<lparr>t_type = 0, t_endpoint = 0, t_timeout = 0, t_callback = None,
     t_status = LIBUSB_TRANSFER_COMPLETED, t_data = []\<rparr>"

definition submitted :: "usb_op list \<Rightarrow> nat list" where
  "submitted es = concat (map (\<lambda>e. case e of Submit x \<Rightarrow> [x] | _ \<Rightarrow> []) es)"

section \<open>The table\<close>

lemma find_slot_found:
  "find_slot rs x k f = (i, g) \<Longrightarrow> i < k + length rs \<Longrightarrow>
    k \<le> i \<and> fst (rs ! (i - k)) = Some x \<and> Some x \<notin> fst ` set (take (i - k) rs)"
proof (induction rs x k f rule: find_slot.induct)
  case (2 p cb rs x k f)
  show ?case
  proof (cases "p = Some x")
    case False
    with 2 have "Suc k \<le> i \<and> fst (rs ! (i - Suc k)) = Some x \<and> Some x \<notin> fst ` set (take (i - Suc k) rs)"
      by simp
    moreover from this have "i - k = Suc (i - Suc k)" by linarith
    ultimately show ?thesis using False by auto
  qed (use 2 in auto)
qed simp

lemma find_slot_absent:
  "find_slot rs x k f = (i, g) \<Longrightarrow> k + length rs \<le> i \<Longrightarrow>
    i = k + length rs \<and> Some x \<notin> fst ` set rs \<and>
    (case f of Some j \<Rightarrow> g = Some j
     | None \<Rightarrow> (case g of None \<Rightarrow> None \<notin> fst ` set rs
                | Some j \<Rightarrow> k \<le> j \<and> j < k + length rs \<and> fst (rs ! (j - k)) = None))"
proof (induction rs x k f rule: find_slot.induct)
  case (2 p cb rs x k f)
  have p: "p \<noteq> Some x" using 2(2,3) by auto
  note IH = 2(1) [OF p]
  show ?case
  proof (cases "f = None \<and> p = None")
    case True
    then show ?thesis using IH 2(2,3) p by auto
  next
    case False
    then show ?thesis using IH 2(2,3) p
      by (auto simp: nth_Cons' split: option.splits)
  qed
qed (simp split: option.split)

lemma caller_cb_update:
  "i < length rs \<Longrightarrow> fst (rs ! i) = Some x \<or> fst (rs ! i) = None \<Longrightarrow> Some x \<notin> fst ` set (take i rs) \<Longrightarrow>
    caller_cb (rs[i := (Some x, cb)]) y = (if y = x then cb else caller_cb rs y)"
proof (induction rs y arbitrary: i rule: caller_cb.induct)
  case (2 p c rs y)
  show ?case
  proof (cases i)
    case (Suc j)
    with 2 show ?thesis by auto
  qed (use 2 in auto)
qed simp

section \<open>The simulation\<close>

text \<open>
  Each transfer is as without the tap, or has the tap's callback and the program's is in the table.
\<close>

definition tap_rel :: "tap \<Rightarrow> untapped \<Rightarrow> bool" where
  "tap_rel s p \<longleftrightarrow>
    length (g_reads s) = TAP_READS \<and>
    (\<forall>x. t_callback (u_transfers p x) \<noteq> Some Tap_read_done) \<and>
    (\<forall>x. transfers s x = u_transfers p x \<or>
      transfers s x = (u_transfers p x)\<lparr>t_callback := Some Tap_read_done\<rparr> \<and>
      caller_cb (g_reads s) x = t_callback (u_transfers p x))"

text \<open>The table names only addresses of \<open>U\<close>, each once; the trace is as it should be.\<close>

definition table_ok :: "nat set \<Rightarrow> tap_slot list \<Rightarrow> bool" where
  "table_ok U g \<longleftrightarrow> (\<forall>i < TAP_READS. \<forall>x. fst (g ! i) = Some x \<longrightarrow> x \<in> U \<and>
    (\<forall>j < TAP_READS. fst (g ! j) = Some x \<longrightarrow> j = i))"

definition tap_log :: "nat set \<Rightarrow> tap \<Rightarrow> untapped \<Rightarrow> bool" where
  "tap_log U s p \<longleftrightarrow>
    g_out s = u_out p \<and>
    (\<forall>x. t_callback (transfers s x) = Some Tap_read_done \<longleftrightarrow> x \<in> watched p) \<and>
    table_ok U (g_reads s)"

text \<open>What a submission does: nothing, or it takes the slot of the transfer or a free one.\<close>

lemma submit_cases:
  assumes "length (g_reads s) = TAP_READS"
  obtains (skipped) "tap_submit_transfer x s = s" "\<not> (bulk_in (transfers s x) \<and> t_callback (transfers s x) \<noteq> Some Tap_read_done)"
  | (full) "tap_submit_transfer x s = s" "Some x \<notin> fst ` set (g_reads s)" "None \<notin> fst ` set (g_reads s)"
  | (taken) i where "i < TAP_READS" "fst (g_reads s ! i) = Some x \<or> fst (g_reads s ! i) = None \<and> Some x \<notin> fst ` set (g_reads s)"
      "Some x \<notin> fst ` set (take i (g_reads s))" "bulk_in (transfers s x)" "t_callback (transfers s x) \<noteq> Some Tap_read_done"
      "tap_submit_transfer x s = s\<lparr>g_reads := (g_reads s)[i := (Some x, t_callback (transfers s x))],
         transfers := (transfers s)(x := (transfers s x)\<lparr>t_callback := Some Tap_read_done\<rparr>)\<rparr>"
proof -
  obtain i g where f: "find_slot (g_reads s) x 0 None = (i, g)" by force
  consider (a) "\<not> (bulk_in (transfers s x) \<and> t_callback (transfers s x) \<noteq> Some Tap_read_done)"
    | (b) "bulk_in (transfers s x)" "t_callback (transfers s x) \<noteq> Some Tap_read_done" "i < TAP_READS"
    | (c) "bulk_in (transfers s x)" "t_callback (transfers s x) \<noteq> Some Tap_read_done" "TAP_READS \<le> i" by linarith
  then show thesis
  proof cases
    case a
    then show thesis by (intro skipped) (auto simp: tap_submit_transfer_def)
  next
    case b
    from find_slot_found [OF f] b assms show thesis
      by (intro taken [of i]) (simp_all add: tap_submit_transfer_def f Let_def)
  next
    case c
    from find_slot_absent [OF f] c assms have i: "i = TAP_READS" "Some x \<notin> fst ` set (g_reads s)"
      and g: "case g of None \<Rightarrow> None \<notin> fst ` set (g_reads s) | Some j \<Rightarrow> j < TAP_READS \<and> fst (g_reads s ! j) = None"
      by (auto split: option.splits)
    show thesis
    proof (cases g)
      case None
      with i g c f show thesis by (intro full) (simp_all add: tap_submit_transfer_def Let_def)
    next
      case (Some j)
      with i g c f show thesis
        by (intro taken [of j]) (auto simp: tap_submit_transfer_def Let_def dest: in_set_takeD)
    qed
  qed
qed

lemma tap_rel_submit:
  assumes "tap_rel s p"
  shows "tap_rel (tap_submit_transfer x s) (snd (untapped_step (Submit x) p))"
proof -
  have same: "u_transfers (snd (untapped_step (Submit x) p)) = u_transfers p"
    by (simp add: untapped_step_def)
  have len: "length (g_reads s) = TAP_READS" using assms by (simp add: tap_rel_def)
  show ?thesis
  proof (cases rule: submit_cases [OF len, of x, case_names skipped full taken])
    case (taken i)
    then have cb: "caller_cb ((g_reads s)[i := (Some x, c)]) y = (if y = x then c else caller_cb (g_reads s) y)" for c y
      using caller_cb_update len by auto
    have "transfers s x = u_transfers p x" using assms taken(5) by (auto simp: tap_rel_def)
    with assms taken(6) cb same len show ?thesis by (simp add: tap_rel_def)
  qed (use assms same in \<open>simp_all add: tap_rel_def\<close>)
qed

lemma complete_tapped:
  assumes "transfers s x = t\<lparr>t_callback := Some Tap_read_done\<rparr>" and "caller_cb (g_reads s) x = t_callback t"
  shows "tapped_step (Complete now x status got) s =
    (called x (t_callback t), s\<lparr>transfers := (transfers s)(x := t\<lparr>t_status := status, t_data := got\<rparr>),
       g_out := g_out s @ (if status = LIBUSB_TRANSFER_COMPLETED \<and> got \<noteq> []
         then [tap_emit now ''IN '' (t_endpoint t) 0 got (t_timeout t)] else [])\<rparr>)"
  using assms by (cases t) (simp add: tapped_step_def tap_read_done_def Let_def)

lemma complete_same:
  "t_callback (transfers s x) \<noteq> Some Tap_read_done \<Longrightarrow> tapped_step (Complete now x status got) s =
    (called x (t_callback (transfers s x)),
     s\<lparr>transfers := (transfers s)(x := (transfers s x)\<lparr>t_status := status, t_data := got\<rparr>)\<rparr>)"
  by (simp add: tapped_step_def Let_def)

lemma untapped_complete:
  "untapped_step (Complete now x status got) p =
    (let t = (u_transfers p x)\<lparr>t_status := status, t_data := got\<rparr> in
     (called x (t_callback (u_transfers p x)),
      p\<lparr>u_transfers := (u_transfers p)(x := t), watched := watched p - {x},
        u_out := u_out p @ (if x \<in> watched p \<and> status = LIBUSB_TRANSFER_COMPLETED \<and> got \<noteq> []
          then [tap_emit now ''IN '' (t_endpoint (u_transfers p x)) 0 got (t_timeout (u_transfers p x))] else [])\<rparr>))"
  by (simp add: untapped_step_def Let_def)

lemma tapped_step_rel:
  assumes "tap_rel s p"
  shows "fst (tapped_step e s) = fst (untapped_step e p) \<and> tap_rel (snd (tapped_step e s)) (snd (untapped_step e p))"
proof (cases e)
  case (Submit x)
  with tap_rel_submit [OF assms, of x] show ?thesis by (simp add: tapped_step_def untapped_step_def)
next
  case (Fill x ty ep tmo cb)
  have "filled ty ep tmo cb (transfers s x) = filled ty ep tmo cb (u_transfers p x)"
    using assms filled_callback by (metis tap_rel_def)
  with Fill assms show ?thesis
    by (simp add: tapped_step_def untapped_step_def tap_rel_def)
next
  case (Complete now x status got)
  from assms consider (same) "transfers s x = u_transfers p x" "t_callback (u_transfers p x) \<noteq> Some Tap_read_done"
    | (tapped) "transfers s x = (u_transfers p x)\<lparr>t_callback := Some Tap_read_done\<rparr>"
        "caller_cb (g_reads s) x = t_callback (u_transfers p x)" "t_callback (u_transfers p x) \<noteq> Some Tap_read_done"
    unfolding tap_rel_def by blast
  then show ?thesis
  proof cases
    case same
    with assms show ?thesis
      by (simp add: Complete complete_same untapped_complete) (simp add: tap_rel_def)
  next
    case tapped
    with assms show ?thesis
      by (simp add: Complete complete_tapped [OF tapped(1,2)] untapped_complete) (simp add: tap_rel_def)
  qed
next
  case (Bulk now later ep data tmo result)
  with assms show ?thesis
    by (simp add: tapped_step_def untapped_step_def tap_rel_def tap_bulk_transfer_def Let_def)
qed

lemma tap_not_full:
  assumes "tap_log U s p" and "length (g_reads s) = TAP_READS" and "finite U" and "card U \<le> TAP_READS" and "x \<in> U"
    and "Some x \<notin> fst ` set (g_reads s)"
  shows "None \<in> fst ` set (g_reads s)"
proof (rule ccontr)
  assume none: "None \<notin> fst ` set (g_reads s)"
  let ?f = "\<lambda>i. the (fst (g_reads s ! i))"
  have some: "fst (g_reads s ! i) = Some (?f i)" if "i < TAP_READS" for i
  proof -
    have "fst (g_reads s ! i) \<noteq> None" using none that assms(2) by (metis image_eqI nth_mem)
    then show ?thesis by simp
  qed
  have "inj_on ?f {..<TAP_READS}"
    using assms(1) some unfolding tap_log_def table_ok_def inj_on_def by (metis lessThan_iff)
  then have "card (?f ` {..<TAP_READS}) = TAP_READS" by (simp add: card_image)
  moreover have "?f ` {..<TAP_READS} \<subseteq> U - {x}"
  proof
    fix y
    assume "y \<in> ?f ` {..<TAP_READS}"
    then obtain i where i: "i < TAP_READS" "y = ?f i" by auto
    then have "Some y \<in> fst ` set (g_reads s)" using some assms(2) by (metis image_eqI nth_mem)
    then have "y \<noteq> x" using assms(6) by blast
    moreover have "y \<in> U" using some [OF i(1)] i assms(1) unfolding tap_log_def table_ok_def by blast
    ultimately show "y \<in> U - {x}" by simp
  qed
  ultimately have "TAP_READS \<le> card (U - {x})" using assms(3) by (metis card_mono finite_Diff)
  moreover have "card (U - {x}) < card U" using assms(3,5) by (intro psubset_card_mono) auto
  ultimately show False using assms(4) by simp
qed

lemma tap_rel_bulk_in: "tap_rel s p \<Longrightarrow> bulk_in (transfers s x) = bulk_in (u_transfers p x)"
  unfolding tap_rel_def by (elim conjE allE [of _ x] disjE) (simp_all add: bulk_in_def)

lemma tapped_step_log:
  assumes r: "tap_rel s p" and l: "tap_log U s p" and U: "finite U" "card U \<le> TAP_READS" "set (submitted [e]) \<subseteq> U"
  shows "tap_log U (snd (tapped_step e s)) (snd (untapped_step e p))"
proof (cases e)
  case (Submit x)
  have len: "length (g_reads s) = TAP_READS" and x: "x \<in> U"
    using r U(3) Submit by (simp_all add: tap_rel_def submitted_def)
  show ?thesis
  proof (cases rule: submit_cases [OF len, of x, case_names skipped full taken])
    case skipped
    have "x \<in> watched p" if "bulk_in (u_transfers p x)"
      using skipped(2) that tap_rel_bulk_in [OF r, of x] l unfolding tap_log_def by blast
    then have "snd (untapped_step e p) = p"
      by (simp add: Submit untapped_step_def insert_absorb)
    with skipped(1) l show ?thesis by (simp add: Submit tapped_step_def)
  next
    case full
    with tap_not_full [OF l len U(1,2) x] show ?thesis by blast
  next
    case (taken i)
    have t: "table_ok U (g_reads s)" using l by (simp add: tap_log_def)
    have "fst (g_reads s ! j) \<noteq> Some x" if "j < TAP_READS" "j \<noteq> i" for j
    proof
      assume "fst (g_reads s ! j) = Some x"
      moreover from this that(1) len have "Some x \<in> fst ` set (g_reads s)" by (metis image_eqI nth_mem)
      ultimately show False using taken(1,2) that t unfolding table_ok_def by blast
    qed
    then have other: "fst (g_reads s ! j) = Some x \<Longrightarrow> j < TAP_READS \<Longrightarrow> j = i" for j by blast
    let ?g = "(g_reads s)[i := (Some x, t_callback (transfers s x))]"
    have g: "fst (?g ! j) = (if j = i then Some x else fst (g_reads s ! j))" if "j < TAP_READS" for j
      using that len by (simp add: nth_list_update)
    have table: "table_ok U ?g"
      unfolding table_ok_def
    proof (intro allI impI)
      fix j y
      assume j: "j < TAP_READS" "fst (?g ! j) = Some y"
      show "y \<in> U \<and> (\<forall>k < TAP_READS. fst (?g ! k) = Some y \<longrightarrow> k = j)"
      proof (cases "j = i")
        case True
        then show ?thesis using j g other x by (auto split: if_splits)
      next
        case False
        then have y: "fst (g_reads s ! j) = Some y" "y \<noteq> x" using j g other by auto
        then have "y \<in> U" "\<forall>k < TAP_READS. fst (g_reads s ! k) = Some y \<longrightarrow> k = j"
          using t j(1) unfolding table_ok_def by blast+
        then show ?thesis using g y(2) by (auto split: if_splits)
      qed
    qed
    have s': "snd (tapped_step (Submit x) s) = s\<lparr>g_reads := ?g,
        transfers := (transfers s)(x := (transfers s x)\<lparr>t_callback := Some Tap_read_done\<rparr>)\<rparr>"
      by (simp add: tapped_step_def taken(6))
    have p': "snd (untapped_step (Submit x) p) = p\<lparr>watched := insert x (watched p)\<rparr>"
      using taken(4) tap_rel_bulk_in [OF r, of x] by (simp add: untapped_step_def)
    show ?thesis
      using l table by (simp add: Submit s' p') (simp add: tap_log_def)
  qed
next
  case (Fill x ty ep tmo cb)
  with l show ?thesis by (simp add: tapped_step_def untapped_step_def tap_log_def)
next
  case (Complete now x status got)
  from r consider (same) "transfers s x = u_transfers p x" "t_callback (u_transfers p x) \<noteq> Some Tap_read_done"
    | (tapped) "transfers s x = (u_transfers p x)\<lparr>t_callback := Some Tap_read_done\<rparr>"
        "caller_cb (g_reads s) x = t_callback (u_transfers p x)" "t_callback (u_transfers p x) \<noteq> Some Tap_read_done"
    unfolding tap_rel_def by blast
  then show ?thesis
  proof cases
    case same
    then have "t_callback (transfers s x) \<noteq> Some Tap_read_done" by simp
    then have "x \<notin> watched p" using l unfolding tap_log_def by blast
    with same l show ?thesis
      by (simp add: Complete complete_same untapped_complete) (simp add: tap_log_def)
  next
    case tapped
    have "t_callback (transfers s x) = Some Tap_read_done" by (simp add: tapped(1))
    then have "x \<in> watched p" using l unfolding tap_log_def by blast
    with tapped l show ?thesis
      by (simp add: Complete complete_tapped [OF tapped(1,2)] untapped_complete) (simp add: tap_log_def)
  qed
next
  case (Bulk now later ep data tmo result)
  with l show ?thesis
    by (simp add: tapped_step_def untapped_step_def tap_log_def tap_bulk_transfer_def Let_def)
qed

lemma steps_rel:
  "tap_rel s p \<Longrightarrow> fst (steps tapped_step es s) = fst (steps untapped_step es p) \<and>
    tap_rel (snd (steps tapped_step es s)) (snd (steps untapped_step es p))"
proof (induction es arbitrary: s p)
  case (Cons e es)
  from tapped_step_rel [OF Cons.prems, of e] Cons.IH show ?case
    by (simp add: Let_def split_beta)
qed simp

lemma steps_log:
  assumes "finite U" and "card U \<le> TAP_READS"
  shows "tap_rel s p \<Longrightarrow> tap_log U s p \<Longrightarrow> set (submitted es) \<subseteq> U \<Longrightarrow>
    tap_log U (snd (steps tapped_step es s)) (snd (steps untapped_step es p))"
proof (induction es arbitrary: s p)
  case (Cons e es)
  have "set (submitted [e]) \<subseteq> U" "set (submitted es) \<subseteq> U" using Cons.prems(3) by (simp_all add: submitted_def)
  with tapped_step_log [OF Cons.prems(1,2) assms] tapped_step_rel [OF Cons.prems(1), of e] Cons.IH show ?case
    by (simp add: Let_def split_beta)
qed simp

lemma tap_start:
  assumes "\<forall>x. t_callback (ts x) \<noteq> Some Tap_read_done"
  shows "tap_rel (tap0 ts) (untapped0 ts)" "tap_log U (tap0 ts) (untapped0 ts)"
  using assms by (simp_all add: tap_rel_def tap_log_def table_ok_def tap0_def untapped0_def)

text \<open>A full table: the transfer is submitted as it is, and its data is not in the trace.\<close>

lemma full_table_unwatched:
  assumes "length (g_reads s) = TAP_READS" and "Some x \<notin> fst ` set (g_reads s)" and "None \<notin> fst ` set (g_reads s)"
  shows "tap_submit_transfer x s = s"
proof (cases rule: submit_cases [OF assms(1), of x, case_names skipped full taken])
  case (taken i)
  then have "fst (g_reads s ! i) \<in> fst ` set (g_reads s)" using assms(1) by simp
  with taken(2) assms(2,3) show ?thesis by metis
qed

section \<open>Reading the trace back\<close>

text \<open>The payload of a line: between the first bar and the last.\<close>

fun untap :: "u8 list \<Rightarrow> u8 list" where
  "untap [] = []"
| "untap (c # r) =
     (if c \<noteq> 92 then c # untap r
      else if take 1 r = [114] then 13 # untap (drop 1 r)
      else if take 1 r = [110] then 10 # untap (drop 1 r)
      else if take 1 r = [120] then given (scan_2x (r ! 1) (r ! 2)) 0 # untap (drop 3 r)
      else 92 # untap r)"

definition line_payload :: "u8 list \<Rightarrow> u8 list" where
  "line_payload line = untap (butlast (butlast (tl (dropWhile (\<lambda>c. c \<noteq> 124) line))))"

lemma untap_byte: "c \<noteq> 92 \<Longrightarrow> untap (tap_byte c @ r) = c # untap r"
  by (simp add: tap_byte_def hex2_def scan_2x_hex2 given_def)

lemma untap_payload: "92 \<notin> set d \<Longrightarrow> untap (concat (map tap_byte d)) = d"
  by (induction d) (simp_all add: untap_byte)

text \<open>A backslash is written as it is, so two payloads have one text.\<close>

lemma backslash_ambiguous: "concat (map tap_byte [92, 114]) = concat (map tap_byte [13])"
  by (simp add: tap_byte_def word_le_nat_alt word_less_nat_alt)

lemma tap_byte_printable: "b \<in> set (tap_byte c) \<Longrightarrow> 32 \<le> b \<and> b < 127"
  using high_nibble [of c]
  by (auto simp: tap_byte_def hex2_def word_le_nat_alt word_less_nat_alt unat_hex_digit simp del: high_nibble
      split: if_splits)

lemma number_printable:
  "b \<in> set (dec n) \<Longrightarrow> 32 \<le> b \<and> b < 124" "b \<in> set (dec_int i) \<Longrightarrow> 32 \<le> b \<and> b < 124"
  "b \<in> set (hex2 c) \<Longrightarrow> 32 \<le> b \<and> b < 124"
proof -
  show d: "b \<in> set (dec n) \<Longrightarrow> 32 \<le> b \<and> b < 124" for n
    using dec_digits [of b n] by (auto simp: is_digit_def word_le_nat_alt word_less_nat_alt)
  show "b \<in> set (dec_int i) \<Longrightarrow> 32 \<le> b \<and> b < 124"
    using d by (auto simp: dec_int_def split: if_splits)
  show "b \<in> set (hex2 c) \<Longrightarrow> 32 \<le> b \<and> b < 124"
    using high_nibble [of c]
    by (auto simp: hex2_def word_le_nat_alt word_less_nat_alt unat_hex_digit simp del: high_nibble split: if_splits)
qed

text \<open>A line without a backslash in its payload reads back.\<close>

lemma line_reads_back:
  assumes "124 \<notin> set now" and "92 \<notin> set d" and "dir \<in> {''IN '', ''OUT''}"
  shows "line_payload (tap_emit now dir ep rc d timeout) = d"
proof -
  let ?h = "now @ [32] @ ascii dir @ ascii '' ep=0x'' @ hex2 ep @ ascii '' rc='' @ dec_int rc @
    ascii '' timeout='' @ dec_int (sint timeout) @ ascii '' len='' @ dec (length d) @ [32]"
  have "124 \<notin> set ?h"
    using assms(1,3) number_printable [of 124] by (auto simp: text_simps)
  then have "dropWhile (\<lambda>c. c \<noteq> 124) (?h @ [124] @ concat (map tap_byte d) @ [124, 10]) =
      [124] @ concat (map tap_byte d) @ [124, 10]"
    by (subst dropWhile_append2) auto
  moreover have "tap_emit now dir ep rc d timeout = ?h @ [124] @ concat (map tap_byte d) @ [124, 10]"
    by (simp add: tap_emit_def text_simps)
  ultimately show ?thesis using untap_payload [OF assms(2)]
    by (simp add: line_payload_def butlast_append)
qed

text \<open>A line is one line: nothing in it but printable characters and the line feed at its end.\<close>

lemma line_printable:
  assumes "list_all (\<lambda>b. 32 \<le> b \<and> b < 127) now" and "dir \<in> {''IN '', ''OUT''}"
  shows "list_all (\<lambda>b. 32 \<le> b \<and> b < 127) (butlast (tap_emit now dir ep rc d timeout))"
proof -
  have less: "b < 127" if "b < 124" for b :: u8 using that by (simp add: word_less_nat_alt)
  have n: "b \<in> set (dec n) \<Longrightarrow> 32 \<le> b \<and> b < 127" "b \<in> set (dec_int i) \<Longrightarrow> 32 \<le> b \<and> b < 127"
    "b \<in> set (hex2 c) \<Longrightarrow> 32 \<le> b \<and> b < 127" for b n i c
    using number_printable [of b] less [of b] by blast+
  show ?thesis
    using assms by (auto simp: tap_emit_def list_all_iff butlast_append text_simps dest: n tap_byte_printable)
qed

section \<open>Property\<close>

text \<open>C22. A program does not notice the tap: over any sequence of fills, submissions, completions and
  waiting transfers the same callbacks are called with the same transfers in the same order as without
  it. And as long as at most 1024 different transfer addresses are submitted (\<open>full_table_unwatched\<close>), the trace has exactly a line for every read that
  was submitted and completed with data and for every waiting transfer, in order.\<close>

theorem tap_transparent:
  "fst (steps tapped_step es (tap0 fresh_transfers)) = fst (steps untapped_step es (untapped0 fresh_transfers)) \<and>
   (card (set (submitted es)) \<le> TAP_READS \<longrightarrow>
     g_out (snd (steps tapped_step es (tap0 fresh_transfers))) =
     u_out (snd (steps untapped_step es (untapped0 fresh_transfers))))"
proof -
  have "\<forall>x. t_callback (fresh_transfers x) \<noteq> Some Tap_read_done" by (simp add: fresh_transfers_def)
  note start = tap_start [OF this]
  show ?thesis
    using steps_rel [OF start(1)] steps_log [OF _ _ start, of "set (submitted es)" es] by (auto simp: tap_log_def)
qed

text \<open>A read that is posted, completes, is posted again by its callback, and is cancelled.\<close>

theorem tap_transparent_witness:
  "fst (steps tapped_step
      [Fill 7 2 0x81 0 (Some 3), Submit 7, Complete [48] 7 LIBUSB_TRANSFER_COMPLETED [104],
       Submit 7, Complete [49] 7 LIBUSB_TRANSFER_CANCELLED []] (tap0 fresh_transfers)) = [(7, Own 3), (7, Own 3)] \<and>
   g_out (snd (steps tapped_step
      [Fill 7 2 0x81 0 (Some 3), Submit 7, Complete [48] 7 LIBUSB_TRANSFER_COMPLETED [104],
       Submit 7, Complete [49] 7 LIBUSB_TRANSFER_CANCELLED []] (tap0 fresh_transfers))) =
     [tap_emit [48] ''IN '' 0x81 0 [104] 0]"
proof -
  let ?es = "[Fill 7 2 0x81 0 (Some 3), Submit 7, Complete [48] 7 LIBUSB_TRANSFER_COMPLETED [104],
       Submit 7, Complete [49] 7 LIBUSB_TRANSFER_CANCELLED []]"
  have "card (set (submitted ?es)) \<le> TAP_READS" by (simp add: submitted_def TAP_READS_def)
  moreover have "fst (steps untapped_step ?es (untapped0 fresh_transfers)) = [(7, Own 3), (7, Own 3)] \<and>
      u_out (snd (steps untapped_step ?es (untapped0 fresh_transfers))) = [tap_emit [48] ''IN '' 0x81 0 [104] 0]"
    by (simp add: untapped_step_def untapped0_def filled_def called_def fresh_transfers_def bulk_in_def
        LIBUSB_TRANSFER_TYPE_BULK_def Let_def)
  ultimately show ?thesis using tap_transparent [of ?es] by simp
qed

end
