(* ===== verification/Log.thy ===== *)
theory Log
  imports Replay
begin

text \<open>
  The diagnostic log of src/op_log.c: where it goes is decided once, at the first call, from the
  environment; a text line; a dump of bytes. The text that \<open>vfprintf\<close> makes and the time stamp are
  arguments.
\<close>

section \<open>State and operations\<close>

datatype log_dest = Log_stderr | Log_file string

text \<open>The variables OPENPORT_LOG and OPENPORT_LOG_HEX, and whether \<open>fopen\<close> opens a file.\<close>

record log_env =
  e_log :: "string option"
  e_hex :: "string option"
  e_fopen :: "string \<Rightarrow> bool"

text \<open>\<open>written\<close> is what went to each destination; \<open>complaints\<close> the names that could not be opened.\<close>

record log_state =
  g_log :: "log_dest option"
  g_hex :: bool
  g_init :: bool
  written :: "(log_dest \<times> u8 list) list"
  complaints :: "string list"

definition log0 :: log_state where
  "log0 = \<lparr>g_log = None, g_hex = False, g_init = False, written = [], complaints = []\<rparr>"

definition log_init_locked :: "log_env \<Rightarrow> log_state \<Rightarrow> log_state" where
  "log_init_locked e s =
    (if g_init s then s
     else
       let s = s\<lparr>g_init := True\<rparr> in
       case e_log e of
         None \<Rightarrow> s
       | Some dest \<Rightarrow>
           if dest = [] then s
           else
             let hex = (\<lambda>s. s\<lparr>g_hex := (case e_hex e of None \<Rightarrow> False | Some h \<Rightarrow> h \<noteq> [] \<and> h ! 0 = CHR ''1'')\<rparr>) in
             if dest = ''-'' \<or> dest = ''stderr'' then hex (s\<lparr>g_log := Some Log_stderr\<rparr>)
             else if e_fopen e dest then hex (s\<lparr>g_log := Some (Log_file dest)\<rparr>)
             else s\<lparr>complaints := complaints s @ [dest]\<rparr>)"

definition op_log_init :: "log_env \<Rightarrow> log_state \<Rightarrow> log_state" where
  "op_log_init e s = log_init_locked e s"

text \<open>\<open>[%lld.%06d] \<close>: seconds and microseconds.\<close>

definition stamp :: "u8 list \<Rightarrow> u8 list \<Rightarrow> u8 list" where
  "stamp sec usec = [91] @ sec @ [46] @ usec @ [93, 32]"

definition op_logf :: "log_env \<Rightarrow> u8 list \<Rightarrow> u8 list \<Rightarrow> u8 list \<Rightarrow> log_state \<Rightarrow> log_state" where
  "op_logf e sec usec text s =
    (let s = log_init_locked e s in
     case g_log s of
       None \<Rightarrow> s
     | Some d \<Rightarrow> s\<lparr>written := written s @ [(d, stamp sec usec @ text @ [10])]\<rparr>)"

fun dump :: "nat \<Rightarrow> u8 list \<Rightarrow> u8 list" where
  "dump i [] = []"
| "dump i (b # bs) = (if i mod 16 = 0 then [10, 32, 32, 32, 32] else []) @ hex2 b @ [32] @ dump (Suc i) bs"

definition op_log_bytes :: "log_env \<Rightarrow> u8 list \<Rightarrow> u8 list \<Rightarrow> u8 list \<Rightarrow> u8 list option \<Rightarrow> log_state \<Rightarrow> log_state" where
  "op_log_bytes e sec usec tag buf s =
    (let s = log_init_locked e s in
     case g_log s of
       None \<Rightarrow> s
     | Some d \<Rightarrow>
         (case buf of
            Some buf \<Rightarrow>
              if g_hex s then s\<lparr>written := written s @ [(d, stamp sec usec @ tag @ [32, 91] @ dec (length buf) @ [93] @
                dump 0 buf @ [10])]\<rparr>
              else s
          | None \<Rightarrow> s))"

section \<open>Decided once\<close>

datatype log_op =
    L_init log_env
  | L_text log_env "u8 list" "u8 list" "u8 list"
  | L_bytes log_env "u8 list" "u8 list" "u8 list" "u8 list option"

fun log_step :: "log_op \<Rightarrow> log_state \<Rightarrow> log_state" where
  "log_step (L_init e) s = op_log_init e s"
| "log_step (L_text e sec usec text) s = op_logf e sec usec text s"
| "log_step (L_bytes e sec usec tag buf) s = op_log_bytes e sec usec tag buf s"

fun env_of :: "log_op \<Rightarrow> log_env" where
  "env_of (L_init e) = e"
| "env_of (L_text e sec usec text) = e"
| "env_of (L_bytes e sec usec tag buf) = e"

text \<open>Where the log goes, by the first environment.\<close>

definition log_choice :: "log_env \<Rightarrow> log_dest option" where
  "log_choice e = g_log (log_init_locked e log0)"

definition log_ok :: "log_dest option \<Rightarrow> log_state \<Rightarrow> bool" where
  "log_ok d s \<longleftrightarrow> g_init s \<and> g_log s = d \<and> list_all (\<lambda>(to, line). d = Some to) (written s)"

lemma init_again: "g_init s \<Longrightarrow> log_init_locked e s = s"
  by (simp add: log_init_locked_def)

lemma log_step_ok: "log_ok d s \<Longrightarrow> log_ok d (log_step x s)"
  by (cases x) (auto simp: log_ok_def op_log_init_def op_logf_def op_log_bytes_def init_again Let_def split: option.split)

lemma log_init_ok: "log_ok (log_choice e) (log_init_locked e log0)"
  by (auto simp: log_ok_def log_choice_def log_init_locked_def log0_def Let_def split: option.split)

lemma log_step_init: "log_step x s = log_step x (log_init_locked (env_of x) s)"
proof -
  have "log_init_locked e (log_init_locked e s) = log_init_locked e s" for e
    by (rule init_again) (auto simp: log_init_locked_def Let_def split: option.split)
  then show ?thesis by (cases x) (simp_all add: op_log_init_def op_logf_def op_log_bytes_def)
qed

text \<open>The first call decides, whatever the environment says later; nothing goes elsewhere.\<close>

lemma log_decided_once: "log_ok (log_choice (env_of x)) (fold log_step (x # xs) log0)"
proof -
  have "log_ok (log_choice (env_of x)) (log_step x log0)"
    unfolding log_step_init [of x log0] by (rule log_step_ok [OF log_init_ok])
  moreover have "log_ok d s \<Longrightarrow> log_ok d (fold log_step xs s)" for d s
    by (induction xs arbitrary: s) (simp_all add: log_step_ok)
  ultimately show ?thesis by simp
qed

text \<open>Without OPENPORT_LOG, or with an empty one, nothing is ever written.\<close>

lemma log_off:
  assumes "e_log (env_of x) \<in> {None, Some []}"
  shows "written (fold log_step (x # xs) log0) = []"
proof -
  have "log_choice (env_of x) = None"
    using assms by (auto simp: log_choice_def log_init_locked_def log0_def)
  with log_decided_once [of x xs] show ?thesis
    by (simp add: log_ok_def list_all_iff) (metis hd_in_set surj_pair)
qed

section \<open>The dump reads back\<close>

definition dumped :: "u8 list \<Rightarrow> u8 list" where
  "dumped d = hex_pairs (filter (\<lambda>c. c \<noteq> 10 \<and> c \<noteq> 32) d) (length d)"

lemma hex_digit_plain: "n < 16 \<Longrightarrow> hex_digit n \<noteq> 10 \<and> hex_digit n \<noteq> 32"
  by (simp add: word_unat_eq_iff unat_hex_digit)

lemma dump_digits: "filter (\<lambda>c. c \<noteq> 10 \<and> c \<noteq> 32) (dump i d) = concat (map hex2 d)"
  by (induction d arbitrary: i) (simp_all add: hex2_def hex_digit_plain)

lemma dump_reads_back: "dumped (dump 0 d) = d"
proof -
  have "length d \<le> length (dump i d)" for i
    by (induction d arbitrary: i) (simp_all add: le_SucI trans_le_add2)
  then show ?thesis by (simp add: dumped_def dump_digits hex_pairs_hex)
qed

end
