(* ===== verification/Replay_Session.thy ===== *)
theory Replay_Session
  imports Scenarios
begin

text \<open>
  The replay of a whole file in tools/ab-official/j2534_trace.c, a program like the scenarios: it reads
  the file line by line as \<open>fgets\<close> hands it out and makes the call of each line; and the recording of a
  whole session by src/op_j2534.c. What is shown: the replay of a recorded session makes the calls of the
  session in their order, each id replaced by the one that the replay was given where the recording was
  given this one. The tables of the replayer refine that renaming.
\<close>

section \<open>The lines of a file\<close>

definition LINE_MAX :: nat where "LINE_MAX = 70000"

text \<open>\<open>fgets\<close>: up to a newline and with it, at most one byte less than the buffer; and what is left.\<close>

definition fgets :: "nat \<Rightarrow> u8 list \<Rightarrow> u8 list \<times> u8 list" where
  "fgets cap s =
    (let n = length (takeWhile (\<lambda>c. c \<noteq> 10) (take (cap - 1) s));
         n = (if n < length (take (cap - 1) s) then n + 1 else n)
     in (take n s, drop n s))"

text \<open>A buffer as the C string it holds.\<close>

definition c_text :: "u8 list \<Rightarrow> u8 list" where
  "c_text s = takeWhile (\<lambda>c. c \<noteq> 0) s"

lemma fgets_less: "s \<noteq> [] \<Longrightarrow> length (snd (fgets LINE_MAX s)) < length s"
  by (cases s) (simp_all add: fgets_def LINE_MAX_def Let_def)

text \<open>
  What the replayer passes to the library: no ioctl has an input but a configuration and the pin of a
  voltage, and the two that read a voltage have an output. A \<open>C_result\<close> is no call.
\<close>

definition request_of :: "call \<Rightarrow> request" where
  "request_of c =
    (case c of
       C_open \<Rightarrow> R_Open
     | C_close d \<Rightarrow> R_Close d
     | C_connect d p f b \<Rightarrow> R_Connect d p f b
     | C_disconnect chn \<Rightarrow> R_Disconnect chn
     | C_read chn n t \<Rightarrow> R_Read chn n t
     | C_write chn n t ms \<Rightarrow> R_Write chn ms n t
     | C_startp chn i mo \<Rightarrow> R_Start_Periodic chn (given mo msg0) i
     | C_stopp chn i \<Rightarrow> R_Stop_Periodic chn i
     | C_filter chn t a b f \<Rightarrow> R_Start_Filter chn t a b f
     | C_stopf chn i \<Rightarrow> R_Stop_Filter chn i
     | C_progv d p v \<Rightarrow> R_Voltage d p v
     | C_version d \<Rightarrow> R_Version d
     | C_lasterr \<Rightarrow> R_Last_Error
     | C_ioctl chn i cfg \<Rightarrow>
         R_Ioctl chn
          (if i = SET_CONFIG then Io_Set_Config (config cfg (of_nat (length cfg)))
           else if i = GET_CONFIG then Io_Get_Config (config cfg (of_nat (length cfg)))
           else if i = READ_VBATT then Io_Read_Vbatt True
           else if i = READ_PROG_VOLTAGE then Io_Read_Prog_Voltage (if cfg = [] then None else Some (fst (hd cfg))) True
           else if i = FIVE_BAUD_INIT then Io_Five_Baud_Init None None
           else if i = FAST_INIT then Io_Fast_Init None False
           else if i = CLEAR_TX_BUFFER then Io_Clear_Tx_Buffer
           else if i = CLEAR_RX_BUFFER then Io_Clear_Rx_Buffer
           else if i = CLEAR_PERIODIC_MSGS then Io_Clear_Periodic_Msgs
           else if i = CLEAR_MSG_FILTERS then Io_Clear_Msg_Filters
           else Io_Other i)
     | C_result i \<Rightarrow> R_Last_Error)"

text \<open>
  The replay of the rest of a file, a program. The call of a line does not depend on the id it will be
  given (\<open>replay_line\<close> with any id has it), the state after it does. The result is \<open>False\<close> where the
  code reads a token that is not there.
\<close>

definition replay_next :: "u64 \<Rightarrow> u8 list \<Rightarrow> replay_state \<Rightarrow> replay_state" where
  "replay_next live line s = (case replay_line live line s of None \<Rightarrow> s | Some (c, s) \<Rightarrow> s)"

function replay :: "u8 list \<Rightarrow> replay_state \<Rightarrow> bool program" where
  "replay file s =
    (if file = [] then Finish True
     else
       (case replay_line 0 (c_text (fst (fgets LINE_MAX file))) s of
          None \<Rightarrow> Finish False
        | Some (None, s) \<Rightarrow> replay (snd (fgets LINE_MAX file)) s
        | Some (Some c, _) \<Rightarrow>
            Ask (request_of c) (\<lambda>a.
              record_call (a_rc a)
                (replay (snd (fgets LINE_MAX file))
                  (replay_next (given (a_id a) 0) (c_text (fst (fgets LINE_MAX file))) s)))))"
  by pat_completeness auto
termination
  by (relation "measure (\<lambda>(file, s). length file)") (simp_all add: fgets_less)

declare replay.simps [simp del]

text \<open>The calls of a trace without the readings of the error text that \<open>record\<close> makes after a failure.\<close>

fun without_reads :: "trace \<Rightarrow> trace" where
  "without_reads [] = []"
| "without_reads [x] = [x]"
| "without_reads (x # y # tr) =
    (if a_rc (snd x) \<noteq> 0 \<and> fst y = R_Last_Error then x # without_reads tr else x # without_reads (y # tr))"

text \<open>The ids that the calls were given.\<close>

definition ids_got :: "trace \<Rightarrow> u64 list" where
  "ids_got tr = map (\<lambda>x. given (a_id (snd x)) 0) tr"

section \<open>Sessions\<close>

text \<open>A session as it was recorded: the calls, each with the id that it was given where it was given one.\<close>

type_synonym session = "(call \<times> u64 option) list"

definition rec_entry :: "call \<times> u64 option \<Rightarrow> u8 list" where
  "rec_entry e = rec_call (fst e) @ (case snd e of None \<Rightarrow> [] | Some i \<Rightarrow> rec_call (C_result i))"

definition rec_session :: "session \<Rightarrow> u8 list" where
  "rec_session ss = concat (map rec_entry ss)"

text \<open>
  What its replay is to be: no text, no tables, only the renaming of the ids, with the ids that the
  replay was given, call by call.
\<close>

definition learn :: "ids \<Rightarrow> last_call \<Rightarrow> u64 \<Rightarrow> u64 \<Rightarrow> ids" where
  "learn k kd i live = (if kd = L_none then k else k(kd := (k kd)(i \<mapsto> live)))"

fun renamed_session :: "u64 list \<Rightarrow> ids \<Rightarrow> session \<Rightarrow> call list" where
  "renamed_session got k [] = []"
| "renamed_session got k ((c, r) # ss) =
    renamed k c #
    renamed_session (tl got) (case r of None \<Rightarrow> k | Some i \<Rightarrow> learn k (call_kind c) i (hd got)) ss"

text \<open>
  The sessions that a recording holds: each call is one that a line holds, its line fits the buffer, and
  a filter without one of its messages comes before any call that leaves a message in that place of the
  replayer's array.
\<close>

definition fills :: "nat \<Rightarrow> call \<Rightarrow> bool" where
  "fills i c \<longleftrightarrow> i < length (call_msgs c) \<and> call_msgs c ! i \<noteq> None"

definition null_free :: "call list \<Rightarrow> nat \<Rightarrow> PASSTHRU_MSG option \<Rightarrow> bool" where
  "null_free earlier i mo \<longleftrightarrow>
    (case mo of Some m \<Rightarrow> ProtocolID m \<noteq> 0 | None \<Rightarrow> (\<forall>c \<in> set earlier. \<not> fills i c))"

definition recordable_after :: "call list \<Rightarrow> call \<Rightarrow> bool" where
  "recordable_after earlier c \<longleftrightarrow>
    (case c of
       C_filter chn t a b f \<Rightarrow> null_free earlier 0 a \<and> null_free earlier 1 b \<and> null_free earlier 2 f
     | _ \<Rightarrow> recordable replay0 c)"

fun session_ok :: "call list \<Rightarrow> session \<Rightarrow> bool" where
  "session_ok earlier [] \<longleftrightarrow> True"
| "session_ok earlier ((c, r) # ss) \<longleftrightarrow>
    recordable_after earlier c \<and> length (rec_call c) < LINE_MAX \<and> session_ok (c # earlier) ss"

text \<open>And no more different ids of a kind than the replayer's table has room for.\<close>

definition table_size :: "last_call \<Rightarrow> nat" where
  "table_size kd = (case kd of L_open \<Rightarrow> 4 | L_connect \<Rightarrow> 16 | L_filter \<Rightarrow> 64 | L_periodic \<Rightarrow> 16 | L_none \<Rightarrow> 0)"

definition ids_given :: "session \<Rightarrow> last_call \<Rightarrow> u64 list" where
  "ids_given ss kd = remdups (map (\<lambda>e. the (snd e)) (filter (\<lambda>e. call_kind (fst e) = kd \<and> snd e \<noteq> None) ss))"

definition few_ids :: "session \<Rightarrow> bool" where
  "few_ids ss \<longleftrightarrow> list_all (\<lambda>kd. length (ids_given ss kd) \<le> table_size kd) [L_open, L_connect, L_filter, L_periodic]"

section \<open>A line of the recording is a line of the file\<close>

lemma fgets_line:
  assumes "\<forall>c \<in> set l. c \<noteq> 10" and "length l + 1 < LINE_MAX"
  shows "fgets LINE_MAX (l @ 10 # rest) = (l @ [10], rest)"
proof -
  have "take (LINE_MAX - 1) (l @ 10 # rest) = l @ 10 # take (LINE_MAX - 2 - length l) rest"
    using assms(2) by (simp add: take_Cons' numeral_2_eq_2)
  moreover have "takeWhile (\<lambda>c. c \<noteq> 10) (l @ 10 # take (LINE_MAX - 2 - length l) rest) = l"
    using assms(1) takeWhile_append_stop [of l "\<lambda>c. c \<noteq> 10"] by simp
  ultimately show ?thesis by (simp add: fgets_def Let_def)
qed

text \<open>The characters of a line before its end.\<close>

definition graphic :: "u8 list \<Rightarrow> bool" where
  "graphic l \<longleftrightarrow> (\<forall>c \<in> set l. 32 \<le> c)"

lemma graphic_simps [simp]:
  "graphic []" "graphic (l @ l') \<longleftrightarrow> graphic l \<and> graphic l'" "graphic (c # l) \<longleftrightarrow> 32 \<le> c \<and> graphic l"
  by (auto simp: graphic_def)

lemma graphic_lu [simp]: "graphic (lu x)"
  using lu_digits [of _ x] digit_range by (fastforce simp: graphic_def word_le_nat_alt)

lemma graphic_concat: "(\<And>x. x \<in> set xs \<Longrightarrow> graphic (f x)) \<Longrightarrow> graphic (concat (map f xs))"
  by (induction xs) auto

lemma graphic_hex [simp]: "graphic (rec_hex d)"
proof -
  have "32 \<le> hex_digit n" if "n < 16" for n using that by (simp add: word_le_nat_alt unat_hex_digit)
  then have "graphic (hex2 b)" for b by (simp add: hex2_def)
  then show ?thesis by (auto simp: rec_hex_def intro: graphic_concat)
qed

lemma graphic_msg [simp]: "graphic (rec_msg mo)"
  by (simp add: rec_msg_def split: option.split)

lemma rec_call_line: "\<exists>l. rec_call c = l @ [10] \<and> graphic l"
proof (cases c)
  case (C_write chn n t ms)
  then show ?thesis by (simp add: rec_call_def rec_write_def rec_msgs_def rec_head_def text_simps graphic_concat)
next
  case (C_startp chn i mo)
  then show ?thesis
    by (simp add: rec_call_def rec_startp_def rec_msgs_def rec_head_def text_simps graphic_concat split: option.split)
next
  case (C_filter chn t a b f)
  then show ?thesis by (simp add: rec_call_def rec_filter_def rec_head_def text_simps)
next
  case (C_ioctl chn i cfg)
  then show ?thesis by (auto simp: rec_call_def rec_ioctl_def rec_head_def text_simps intro!: graphic_concat)
qed (simp_all add: rec_call_def rec_line_def text_simps)

lemma rec_call_fgets:
  assumes "length (rec_call c) < LINE_MAX"
  shows "fgets LINE_MAX (rec_call c @ rest) = (rec_call c, rest)" and "c_text (rec_call c) = rec_call c"
proof -
  obtain l where l: "rec_call c = l @ [10]" "graphic l" using rec_call_line by blast
  then have no: "\<forall>c \<in> set l. c \<noteq> 10 \<and> c \<noteq> 0" by (auto simp: graphic_def word_le_nat_alt)
  from fgets_line [of l rest] assms no l(1) show "fgets LINE_MAX (rec_call c @ rest) = (rec_call c, rest)" by simp
  from no show "c_text (rec_call c) = rec_call c"
    by (auto simp: c_text_def l(1) takeWhile_eq_all_conv)
qed

text \<open>Every line fits but that of a write of more than eight messages.\<close>

lemma length_lu: "length (lu x) \<le> 20"
proof -
  have "unat x < 18446744073709551616" by simp
  then have "unat x < 10 ^ 20" by (rule less_trans) simp
  then show ?thesis by (simp add: lu_def length_dec_le)
qed

lemma length_rec_msg: "length (rec_msg mo) \<le> 8299"
proof (cases mo)
  case (Some m)
  have "length (rec_hex (rec_data m)) \<le> 8256"
    using length_rec_data [of m] length_hex [of "rec_data m"] by (simp add: rec_hex_def J2534_MSG_DATA_MAX_def)
  with Some length_lu [of "ProtocolID m"] length_lu [of "TxFlags m"] show ?thesis by (simp add: rec_msg_def)
qed (simp add: rec_msg_def)

lemma length_rec_msgs: "length (concat (map (\<lambda>m. rec_msg (Some m)) ms)) \<le> 8299 * length ms"
proof (induction ms)
  case (Cons m ms)
  with length_rec_msg [of "Some m"] show ?case by simp
qed simp

lemma length_take_msgs: "length (concat (map (\<lambda>m. rec_msg (Some m)) (take k ms))) \<le> 8299 * length ms"
  using length_rec_msgs [of "take k ms"] by (simp add: le_trans [OF _ mult_le_mono2])

lemma length_nums: "length (concat (map (\<lambda>x. 32 # lu x) xs)) \<le> 21 * length xs"
proof (induction xs)
  case (Cons x xs)
  with length_lu [of x] show ?case by simp
qed simp

lemma length_params:
  "length (concat (map (\<lambda>(p, v). [32] @ lu p @ [61] @ lu (g v)) cfg)) \<le> 42 * length cfg"
proof (induction cfg)
  case (Cons x cfg)
  with length_lu [of "fst x"] length_lu [of "g (snd x)"] show ?case by (cases x) simp
qed simp

lemma length_params32:
  "length (concat (map (\<lambda>(p, v). [32] @ lu p @ [61] @ lu (g v)) (take 32 cfg))) \<le> 1344"
  using length_params [of g "take 32 cfg"] by (simp add: min_def split: if_splits)

lemma line_fits:
  assumes "\<And>chn n t ms. c = C_write chn n t ms \<Longrightarrow> length ms \<le> 8"
  shows "length (rec_call c) < LINE_MAX"
proof -
  note lens = rec_call_def rec_line_def rec_head_def text_simps LINE_MAX_def
  note two = length_nums [of "[a, b]" for a b, simplified] length_nums [of "[a, b, d]" for a b d, simplified]
    length_nums [of "[a, b, d, e]" for a b d e, simplified] length_lu
  show ?thesis
  proof (cases c)
    case (C_write chn n t ms)
    have "length ms \<le> 8" using assms [OF C_write] .
    with C_write length_take_msgs [of 64 ms] two(2) [of chn n t] show ?thesis
      by (simp add: lens rec_write_def rec_msgs_def)
  next
    case (C_startp chn i mo)
    then show ?thesis using two(1) [of chn i] length_rec_msg [of "mo"]
      by (auto simp: lens rec_startp_def rec_msgs_def split: option.split)
  next
    case (C_filter chn t a b f)
    then show ?thesis using two(1) [of chn t] length_rec_msg [of a] length_rec_msg [of b] length_rec_msg [of f]
      by (simp add: lens rec_filter_def)
  next
    case (C_ioctl chn i cfg)
    then show ?thesis using two(1) [of chn i] length_params32 [of "\<lambda>v. if i = SET_CONFIG then v else 0" cfg]
      by (auto simp: lens rec_ioctl_def)
  next
    case (C_connect d p f b)
    then show ?thesis using two(3) [of d p f b] by (simp add: lens)
  next
    case (C_read chn n t)
    then show ?thesis using two(2) [of chn n t] by (simp add: lens)
  next
    case (C_progv d p v)
    then show ?thesis using two(2) [of d p v] by (simp add: lens)
  next
    case (C_stopp chn i)
    then show ?thesis using two(1) [of chn i] by (simp add: lens)
  next
    case (C_stopf chn i)
    then show ?thesis using two(1) [of chn i] by (simp add: lens)
  qed (simp_all add: lens le_less_trans [OF length_lu])
qed

section \<open>The tables refine the renaming\<close>

lemma map_set_finds: "map_of m x \<noteq> None \<Longrightarrow> map_of (map_set m x v) = (map_of m)(x \<mapsto> v)"
  by (induction m x v rule: map_set.induct) (auto simp: fun_eq_iff)

lemma map_set_keys [simp]: "map fst (map_set m x v) = map fst m"
  by (induction m x v rule: map_set.induct) auto

text \<open>A table: no id twice, only ids of the session.\<close>

definition table_in :: "u64 set \<Rightarrow> idmap \<Rightarrow> bool" where
  "table_in U m \<longleftrightarrow> distinct (map fst m) \<and> set (map fst m) \<subseteq> U"

lemma table_room:
  assumes "table_in U m" and "x \<in> U" and "finite U" and "card U \<le> cap" and "map_of m x = None"
  shows "length m < cap"
proof -
  have "x \<notin> set (map fst m)" using assms(5) by (simp add: map_of_eq_None_iff)
  then have "set (map fst m) \<subset> U" using assms(1,2) by (auto simp: table_in_def)
  then have "card (set (map fst m)) < card U" using assms(3) by (rule psubset_card_mono [rotated])
  then show ?thesis using assms(1,4) distinct_card [of "map fst m"] by (simp add: table_in_def)
qed

lemma map_put_refines:
  assumes "table_in U m" and "x \<in> U" and "finite U" and "card U \<le> cap"
  shows "map_find (map_put m cap x v) = (map_find m)(x \<mapsto> v)" and "table_in U (map_put m cap x v)"
proof -
  have new: "map_put m cap x v = m @ [(x, v)]" "map_of (m @ [(x, v)]) = (map_of m)(x \<mapsto> v)"
    if "map_of m x = None"
    using that table_room [OF assms] by (auto simp: map_put_def map_find_def map_add_def fun_eq_iff split: option.split)
  have old: "map_put m cap x v = map_set m x v" if "map_of m x \<noteq> None"
    using that by (simp add: map_put_def map_find_def)
  show "map_find (map_put m cap x v) = (map_find m)(x \<mapsto> v)"
    using new old map_set_finds [of m x v] by (cases "map_of m x") (simp_all add: map_find_def fun_eq_iff)
  show "table_in U (map_put m cap x v)"
    using new old assms(1,2) by (cases "map_of m x") (auto simp: table_in_def map_of_eq_None_iff)
qed

definition tables_in :: "(last_call \<Rightarrow> u64 set) \<Rightarrow> replay_state \<Rightarrow> bool" where
  "tables_in U s \<longleftrightarrow> (\<forall>kd. kd \<noteq> L_none \<longrightarrow> table_in (U kd) (table s kd))"

lemma replay_result_tables:
  "table (replay_result (lu i @ [10]) s) kd =
    (if kd = last_kind s \<and> kd \<noteq> L_none then map_put (table s kd) (table_size kd) i (last_live s) else table s kd)"
  "m_msgs (replay_result (lu i @ [10]) s) = m_msgs s"
proof -
  have "strtok ws (lu i @ [10]) = Some (lu i, [])"
    using strtok_token [of "lu i" ws "[10]"] lu_digits [of _ i] digit_not(1) by (simp add: ws_def [of 10])
  then show "table (replay_result (lu i @ [10]) s) kd =
      (if kd = last_kind s \<and> kd \<noteq> L_none then map_put (table s kd) (table_size kd) i (last_live s) else table s kd)"
    and "m_msgs (replay_result (lu i @ [10]) s) = m_msgs s"
    by (auto simp: replay_result_def Let_def table_def table_size_def split: last_call.split)
qed

lemma replay_result_refines:
  assumes "tables_in U s" and "last_kind s \<noteq> L_none \<Longrightarrow> i \<in> U (last_kind s)"
    and "\<And>kd. kd \<noteq> L_none \<Longrightarrow> finite (U kd) \<and> card (U kd) \<le> table_size kd"
  shows "ids_of (replay_result (lu i @ [10]) s) = learn (ids_of s) (last_kind s) i (last_live s)"
    and "tables_in U (replay_result (lu i @ [10]) s)"
proof -
  have put: "map_find (map_put (table s kd) (table_size kd) i (last_live s)) = (map_find (table s kd))(i \<mapsto> last_live s)"
    "table_in (U kd) (map_put (table s kd) (table_size kd) i (last_live s))"
    if "kd = last_kind s" "kd \<noteq> L_none" for kd
    using map_put_refines [of "U kd" "table s kd" i "table_size kd"] that assms by (auto simp: tables_in_def)
  show "ids_of (replay_result (lu i @ [10]) s) = learn (ids_of s) (last_kind s) i (last_live s)"
    using put(1) by (auto simp: ids_of_def learn_def replay_result_tables fun_eq_iff)
  show "tables_in U (replay_result (lu i @ [10]) s)"
    using put(2) assms(1) by (auto simp: tables_in_def replay_result_tables)
qed

section \<open>The array\<close>

definition array_after :: "call list \<Rightarrow> replay_state \<Rightarrow> bool" where
  "array_after earlier s \<longleftrightarrow> (\<forall>i. (\<forall>c \<in> set earlier. \<not> fills i c) \<longrightarrow> ProtocolID (m_msgs s i) = 0)"

lemma array_step: "array_after earlier s \<Longrightarrow> array_after (c # earlier) (after_call live c s)"
  by (auto simp: array_after_def after_call_def fills_def store_def split: option.split)

lemma recordable_now: "array_after earlier s \<Longrightarrow> recordable_after earlier c \<Longrightarrow> recordable s c"
proof -
  assume array: "array_after earlier s" and c: "recordable_after earlier c"
  have "filter_msg_kept s i mo" if "null_free earlier i mo" for i mo
    using that array by (cases mo) (auto simp: null_free_def filter_msg_kept_def array_after_def)
  with c show "recordable s c" by (cases c) (simp_all add: recordable_after_def recordable_def)
qed

lemma after_call_same [simp]:
  "table (after_call live c s) kd = table s kd" "ids_of (after_call live c s) = ids_of s"
  "tables_in U (after_call live c s) = tables_in U s"
  "last_kind (after_call live c s) = call_kind c"
  "call_kind c \<noteq> L_none \<Longrightarrow> last_live (after_call live c s) = live"
proof -
  show "table (after_call live c s) kd = table s kd" for kd
    by (simp add: after_call_def table_def split: last_call.split)
  then show "ids_of (after_call live c s) = ids_of s" "tables_in U (after_call live c s) = tables_in U s"
    by (simp_all add: ids_of_def fun_eq_iff tables_in_def)
qed (simp_all add: after_call_def)

lemma ids_given_mem: "i \<in> set (ids_given ss kd) \<longleftrightarrow> (\<exists>c. (c, Some i) \<in> set ss \<and> call_kind c = kd)"
  by (force simp: ids_given_def)

lemma few_ids_card: "few_ids ss \<Longrightarrow> kd \<noteq> L_none \<Longrightarrow> card (set (ids_given ss kd)) \<le> table_size kd"
  by (cases kd) (simp_all add: few_ids_def ids_given_def length_remdups_card_conv)

section \<open>The replay of a session\<close>

lemma replay_call:
  assumes "recordable s c" and "length (rec_call c) < LINE_MAX"
  shows "replay (rec_call c @ rest) s =
    Ask (request_of (renamed (ids_of s) c)) (\<lambda>a.
      record_call (a_rc a) (replay rest (after_call (given (a_id a) 0) c s)))"
proof -
  have "rec_call c \<noteq> []" using rec_call_line [of c] by auto
  moreover have "replay_next live (rec_call c) s = after_call live c s" for live
    using line_replayed [OF assms(1)] by (simp add: replay_next_def)
  ultimately show ?thesis
    using rec_call_fgets(1) [OF assms(2), of rest] rec_call_fgets(2) [OF assms(2)] line_replayed [OF assms(1), of 0]
    by (simp add: replay.simps [of "rec_call c @ rest"])
qed

lemma replay_result_line:
  "replay (rec_call (C_result i) @ rest) s = replay rest (replay_result (lu i @ [10]) s)"
proof -
  have "length (rec_call (C_result i)) < LINE_MAX" by (rule line_fits) simp
  note fits = rec_call_fgets [OF this]
  have "rec_call (C_result i) \<noteq> []" using rec_call_line [of "C_result i"] by auto
  then show ?thesis
    using fits(1) [of rest] fits(2) result_replayed [of 0 i s]
    by (simp add: replay.simps [of "rec_call (C_result i) @ rest"])
qed

text \<open>What the replayer's state has to do with a session of which it has the calls \<open>earlier\<close> behind it.\<close>

definition replaying :: "(last_call \<Rightarrow> u64 set) \<Rightarrow> call list \<Rightarrow> session \<Rightarrow> replay_state \<Rightarrow> bool" where
  "replaying U earlier ss s \<longleftrightarrow>
    session_ok earlier ss \<and> array_after earlier s \<and> tables_in U s \<and>
    (\<forall>kd. kd \<noteq> L_none \<longrightarrow> finite (U kd) \<and> card (U kd) \<le> table_size kd \<and> set (ids_given ss kd) \<subseteq> U kd)"

definition after_entry :: "u64 \<Rightarrow> call \<Rightarrow> u64 option \<Rightarrow> replay_state \<Rightarrow> replay_state" where
  "after_entry live c r s =
    (case r of None \<Rightarrow> after_call live c s | Some i \<Rightarrow> replay_result (lu i @ [10]) (after_call live c s))"

lemma replaying_step:
  assumes "replaying U earlier ((c, r) # ss) s"
  shows "replaying U (c # earlier) ss (after_entry live c r s)"
    and "ids_of (after_entry live c r s) = (case r of None \<Rightarrow> ids_of s | Some i \<Rightarrow> learn (ids_of s) (call_kind c) i live)"
    and "replay (rec_session ((c, r) # ss)) s =
      Ask (request_of (renamed (ids_of s) c)) (\<lambda>a.
        record_call (a_rc a) (replay (rec_session ss) (after_entry (given (a_id a) 0) c r s)))"
proof -
  have array: "array_after (c # earlier) (after_call live c s)"
    using assms by (simp add: replaying_def array_step)
  have U: "finite (U kd) \<and> card (U kd) \<le> table_size kd \<and> set (ids_given ss kd) \<subseteq> U kd" if "kd \<noteq> L_none" for kd
    using assms that by (auto simp: replaying_def subset_iff ids_given_mem)
  have own: "i \<in> U (call_kind c)" if "r = Some i" "call_kind c \<noteq> L_none" for i
    using assms that by (auto simp: replaying_def subset_iff ids_given_mem)
  have result: "ids_of (replay_result (lu i @ [10]) (after_call live c s)) = learn (ids_of s) (call_kind c) i live"
    "tables_in U (replay_result (lu i @ [10]) (after_call live c s))" if "r = Some i" for i
    using replay_result_refines [of U "after_call live c s" i] assms U own that by (auto simp: replaying_def learn_def)
  show "replaying U (c # earlier) ss (after_entry live c r s)"
    using assms U array result(2)
    by (cases r) (auto simp: replaying_def after_entry_def array_after_def replay_result_tables)
  show "ids_of (after_entry live c r s) = (case r of None \<Rightarrow> ids_of s | Some i \<Rightarrow> learn (ids_of s) (call_kind c) i live)"
    using result(1) by (cases r) (simp_all add: after_entry_def)
  have "recordable s c" "length (rec_call c) < LINE_MAX"
    using assms by (auto simp: replaying_def intro: recordable_now)
  note call = replay_call [OF this]
  have "rec_session ((c, r) # ss) =
      rec_call c @ (case r of None \<Rightarrow> rec_session ss | Some i \<Rightarrow> rec_call (C_result i) @ rec_session ss)"
    by (cases r) (simp_all add: rec_session_def rec_entry_def)
  then show "replay (rec_session ((c, r) # ss)) s =
      Ask (request_of (renamed (ids_of s) c)) (\<lambda>a.
        record_call (a_rc a) (replay (rec_session ss) (after_entry (given (a_id a) 0) c r s)))"
    using call by (cases r) (simp_all add: after_entry_def replay_result_line)
qed

lemma replaying_start:
  assumes "session_ok [] ss" and "few_ids ss"
  shows "replaying (\<lambda>kd. set (ids_given ss kd)) [] ss replay0" and "ids_of replay0 = (\<lambda>_ _. None)"
proof -
  have "tables_in (\<lambda>kd. set (ids_given ss kd)) replay0"
    by (auto simp: tables_in_def table_in_def table_def replay0_def split: last_call.split)
  moreover have "array_after [] replay0" by (simp add: array_after_def replay0_def msg0_def)
  ultimately show "replaying (\<lambda>kd. set (ids_given ss kd)) [] ss replay0"
    using assms by (simp add: replaying_def few_ids_card)
  show "ids_of replay0 = (\<lambda>_ _. None)"
    by (auto simp: ids_of_def table_def replay0_def map_find_def fun_eq_iff split: last_call.split)
qed

text \<open>A call and its line in the trace, which reads the error text of a failure.\<close>

lemma without_reads_ok [simp]: "a_rc a = 0 \<Longrightarrow> without_reads ((r, a) # tr) = (r, a) # without_reads tr"
  by (cases tr) simp_all

lemma run_recorded:
  assumes "run serve (Ask r (\<lambda>a. record_call (a_rc a) (k a))) s = (tr, Some y, s')"
  obtains a s1 s2 tr' where "serve s r = Some (a, s1)" and "run serve (k a) s2 = (tr', Some y, s')"
    and "without_reads tr = (r, a) # without_reads tr'"
proof -
  from assms obtain a s1 where a: "serve s r = Some (a, s1)" by (auto split: option.splits)
  show ?thesis
  proof (cases "a_rc a = 0")
    case True
    obtain tr' x z where k: "run serve (k a) s1 = (tr', x, z)" by (cases "run serve (k a) s1")
    with True assms a show ?thesis by (intro that [OF a]) (auto simp: record_call_def)
  next
    case False
    with assms a obtain e s2 where e: "serve s1 R_Last_Error = Some (e, s2)"
      by (auto simp: record_call_def split: option.splits)
    obtain tr' x z where k: "run serve (k a) s2 = (tr', x, z)" by (cases "run serve (k a) s2")
    with False assms a e show ?thesis by (intro that [OF a]) (auto simp: record_call_def)
  qed
qed

lemma run_not_false:
  assumes "replaying U earlier ss s"
  shows "fst (snd (run serve (replay (rec_session ss) s) z)) \<noteq> Some False"
  using assms
proof (induction ss arbitrary: earlier s z)
  case Nil
  then show ?case by (simp add: rec_session_def replay.simps)
next
  case (Cons e ss)
  obtain c r where e: "e = (c, r)" by (cases e)
  note step = replaying_step [OF Cons.prems [unfolded e]]
  show ?case
    unfolding e step(3) using Cons.IH [OF step(1)]
    by (auto simp: record_call_def split: option.splits prod.splits) (metis fst_conv snd_conv)+
qed

lemma replay_refines:
  assumes "replaying U earlier ss s" and "run serve (replay (rec_session ss) s) z = (tr, Some y, z')"
  shows "map fst (without_reads tr) = map request_of (renamed_session (ids_got (without_reads tr)) (ids_of s) ss)"
  using assms
proof (induction ss arbitrary: earlier s z tr)
  case Nil
  then show ?case by (auto simp: rec_session_def replay.simps)
next
  case (Cons e ss)
  obtain c r where e: "e = (c, r)" by (cases e)
  note step = replaying_step [OF Cons.prems(1) [unfolded e]]
  from Cons.prems(2) obtain a z1 z2 tr' where run: "run serve (replay (rec_session ss) (after_entry (given (a_id a) 0) c r s)) z2 = (tr', Some y, z')"
    and tr: "without_reads tr = (request_of (renamed (ids_of s) c), a) # without_reads tr'"
    unfolding e step(3) by (rule run_recorded)
  from Cons.IH [OF step(1) run] show ?case
    by (simp add: tr e step(2) ids_got_def split: option.split)
qed

section \<open>Property\<close>

text \<open>C17. The replay of a recorded session on any library makes the calls of the session in their order,
  each with what its line holds of it, and with each id replaced by the one that the replay was given
  where the recording was given that id last. It reads no token that is not there. This is of sessions
  that a recording holds (\<open>session_ok\<close>): a filter with a NULL message comes before any call that leaves a
  message in that place of the replayer's array (else \<open>stale_flow_control\<close>), each line is shorter than
  the line buffer, reads ask for at most 64 messages, writes give as many as they say, at most 64,
  periodic messages are given, no filter message has protocol 0, configurations have at most 32 parameters; and of no more different ids
  than the replayer's tables have room for (\<open>few_ids\<close>).\<close>

theorem session_replayed:
  assumes "session_ok [] ss" and "few_ids ss" and "run serve (replay (rec_session ss) replay0) z = (tr, Some y, z')"
  shows "y \<and> map fst (without_reads tr) =
    map request_of (renamed_session (ids_got (without_reads tr)) (\<lambda>_ _. None) ss)"
proof -
  note start = replaying_start [OF assms(1,2)]
  from run_not_false [OF start(1), of serve z] assms(3) have y by simp
  with replay_refines [OF start(1) assms(3)] start(2) show ?thesis by simp
qed

text \<open>A library that hands out the same id for everything.\<close>

definition one_id :: "unit \<Rightarrow> request \<Rightarrow> (answer \<times> unit) option" where
  "one_id u r = Some (answer0\<lparr>a_id := Some 42\<rparr>, ())"

lemma one_id_finishes: "\<exists>tr y. run one_id p () = (tr, Some y, ()) \<and> list_all (\<lambda>x. snd x = answer0\<lparr>a_id := Some 42\<rparr>) tr"
proof (induction p)
  case (Ask r k)
  then obtain tr y where "run one_id (k (answer0\<lparr>a_id := Some 42\<rparr>)) () = (tr, Some y, ())"
    "list_all (\<lambda>x. snd x = answer0\<lparr>a_id := Some 42\<rparr>) tr" by blast
  moreover have "one_id () r = Some (answer0\<lparr>a_id := Some 42\<rparr>, ())" by (simp add: one_id_def)
  ultimately show ?case by simp
qed simp

lemma one_id_reads: "list_all (\<lambda>x. snd x = answer0\<lparr>a_id := Some 42\<rparr>) tr \<Longrightarrow> without_reads tr = tr"
  by (induction tr rule: without_reads.induct) (auto simp: answer0_def)

theorem session_replayed_witness:
  "\<exists>tr. run one_id (replay (rec_session [(C_open, Some 1), (C_connect 1 6 0 500000, Some 6),
         (C_startp 6 200 (Some (plain_msg 6 64 [0, 0, 7, 0xE0, 0x3E])), Some 0),
         (C_stopp 6 0, None), (C_stopp 6 9, None), (C_disconnect 6, None), (C_close 1, None)]) replay0) () = (tr, Some True, ()) \<and>
    map fst tr = [R_Open, R_Connect 42 6 0 500000, R_Start_Periodic 42 (kept_msg (plain_msg 6 64 [0, 0, 7, 0xE0, 0x3E])) 200,
      R_Stop_Periodic 42 42, R_Stop_Periodic 42 9, R_Disconnect 42, R_Close 42]"
proof -
  let ?ss = "[(C_open, Some 1), (C_connect 1 6 0 500000, Some 6),
    (C_startp 6 200 (Some (plain_msg 6 64 [0, 0, 7, 0xE0, 0x3E])), Some 0),
    (C_stopp 6 0, None), (C_stopp 6 9, None), (C_disconnect 6, None), (C_close 1, None)]"
  have ok: "session_ok [] ?ss" by (auto simp: recordable_after_def recordable_def intro!: line_fits)
  have few: "few_ids ?ss" by (simp add: few_ids_def ids_given_def call_kind_def table_size_def)
  obtain tr y where run: "run one_id (replay (rec_session ?ss) replay0) () = (tr, Some y, ())"
    and all: "list_all (\<lambda>x. snd x = answer0\<lparr>a_id := Some 42\<rparr>) tr"
    using one_id_finishes [of "replay (rec_session ?ss) replay0"] by (elim exE conjE)
  have y: "y" and calls: "map fst tr = map request_of (renamed_session (ids_got tr) (\<lambda>_ _. None) ?ss)"
    using session_replayed [OF ok few run] unfolding one_id_reads [OF all] by (rule conjunct1, rule conjunct2)
  have "length tr = 7" using arg_cong [OF calls, of length] by simp
  moreover have "ids_got tr = replicate (length tr) 42"
    using all by (induction tr) (simp_all add: ids_got_def given_def)
  ultimately have "ids_got tr = [42, 42, 42, 42, 42, 42, 42]" by (simp add: numeral_eq_Suc)
  with calls have "map fst tr = [R_Open, R_Connect 42 6 0 500000, R_Start_Periodic 42 (kept_msg (plain_msg 6 64 [0, 0, 7, 0xE0, 0x3E])) 200,
      R_Stop_Periodic 42 42, R_Stop_Periodic 42 9, R_Disconnect 42, R_Close 42]"
    by (simp add: renamed_def named_def learn_def call_kind_def request_of_def given_def)
  with run y show ?thesis by auto
qed

end
