(* ===== verification/Rerun.thy ===== *)
theory Rerun
  imports Replay_Session
begin

text \<open>
  Recording and replay together: what src/op_j2534.c records of the calls of a program, and what the
  replay of that recording does on the same library. The interface \<open>quiet_library\<close> is what the
  replay relies on, as it reads the error text after each failure; the driver provides it.
\<close>

section \<open>The recording of a run\<close>

definition ioctl_id :: "ioctl \<Rightarrow> u64" where
  "ioctl_id io =
    (case io of
       Io_Get_Config _ \<Rightarrow> GET_CONFIG
     | Io_Set_Config _ \<Rightarrow> SET_CONFIG
     | Io_Read_Vbatt _ \<Rightarrow> READ_VBATT
     | Io_Read_Prog_Voltage _ _ \<Rightarrow> READ_PROG_VOLTAGE
     | Io_Five_Baud_Init _ _ \<Rightarrow> FIVE_BAUD_INIT
     | Io_Fast_Init _ _ \<Rightarrow> FAST_INIT
     | Io_Clear_Tx_Buffer \<Rightarrow> CLEAR_TX_BUFFER
     | Io_Clear_Rx_Buffer \<Rightarrow> CLEAR_RX_BUFFER
     | Io_Clear_Periodic_Msgs \<Rightarrow> CLEAR_PERIODIC_MSGS
     | Io_Clear_Msg_Filters \<Rightarrow> CLEAR_MSG_FILTERS
     | Io_Other i \<Rightarrow> i)"

definition list_params :: "SCONFIG_LIST option \<Rightarrow> (u64 \<times> u64) list" where
  "list_params l =
    (case l of None \<Rightarrow> []
     | Some l \<Rightarrow> (case ConfigPtr l of None \<Rightarrow> [] | Some ps \<Rightarrow> take (unat (NumOfParams l)) ps))"

text \<open>What each entry point has for the recorder.\<close>

definition call_of :: "request \<Rightarrow> call" where
  "call_of r =
    (case r of
       R_Open \<Rightarrow> C_open
     | R_Close d \<Rightarrow> C_close d
     | R_Connect d p f b \<Rightarrow> C_connect d p f b
     | R_Disconnect c \<Rightarrow> C_disconnect c
     | R_Read c n t \<Rightarrow> C_read c n t
     | R_Write c ms n t \<Rightarrow> C_write c n t (take (unat n) ms)
     | R_Start_Periodic c m i \<Rightarrow> C_startp c i (Some m)
     | R_Stop_Periodic c i \<Rightarrow> C_stopp c i
     | R_Start_Filter c ft a b f \<Rightarrow> C_filter c ft a b f
     | R_Stop_Filter c i \<Rightarrow> C_stopf c i
     | R_Voltage d p v \<Rightarrow> C_progv d p v
     | R_Version d \<Rightarrow> C_version d
     | R_Last_Error \<Rightarrow> C_lasterr
     | R_Ioctl c io \<Rightarrow>
         C_ioctl c (ioctl_id io)
           (case io of Io_Set_Config l \<Rightarrow> list_params l | Io_Get_Config l \<Rightarrow> list_params l | _ \<Rightarrow> []))"

text \<open>The lines of a call: its own, and after a success the id handed out.\<close>

definition recorded :: "request \<times> answer \<Rightarrow> call \<times> u64 option" where
  "recorded x =
    (let c = call_of (fst x); a = snd x
     in (c, if a_rc a = 0 \<and> call_kind c \<noteq> L_none then Some (given (a_id a) 0) else None))"

definition recording :: "trace \<Rightarrow> session" where
  "recording tr = map recorded tr"

text \<open>The requests of which the recording holds all there is.\<close>

definition repeatable :: "request \<Rightarrow> bool" where
  "repeatable r \<longleftrightarrow> request_of (renamed (\<lambda>_ _. None) (call_of r)) = r"

lemma kept_plain [simp]: "length d \<le> J2534_MSG_DATA_MAX \<Longrightarrow> kept_msg (mk_msg p f d) = mk_msg p f d"
proof -
  assume d: "length d \<le> J2534_MSG_DATA_MAX"
  then have "unat (of_nat (length d) :: u64) = length d" by (simp add: unat_of_nat)
  then have "rec_data (mk_msg p f d) = d" using d mem_read_write [of "\<lambda>_. 0" 0 d] by (simp add: rec_data_def mk_msg_def)
  then show ?thesis by (simp add: kept_msg_def) (simp add: mk_msg_def plain_msg_def)
qed

lemma named_none [simp]: "named (\<lambda>_ _. None) kd x = x" "named_any (\<lambda>_ _. None) x = x"
  by (simp_all add: named_def named_any_def)

lemma repeatable_write:
  "n = of_nat (length ms) \<Longrightarrow> length ms < 2 ^ 64 \<Longrightarrow> \<forall>m \<in> set ms. kept_msg m = m \<Longrightarrow> repeatable (R_Write c ms n t)"
  by (simp add: repeatable_def call_of_def renamed_def request_of_def unat_of_nat map_idI)

section \<open>Libraries that repeat themselves\<close>

text \<open>What a library answers to the calls of a trace, where it answers with the trace.\<close>

fun served :: "('s \<Rightarrow> request \<Rightarrow> (answer \<times> 's) option) \<Rightarrow> 's \<Rightarrow> trace \<Rightarrow> 's \<Rightarrow> bool" where
  "served serve s [] s' \<longleftrightarrow> s = s'"
| "served serve s ((r, a) # tr) s' \<longleftrightarrow>
    (case serve s r of None \<Rightarrow> False | Some (b, t) \<Rightarrow> b = a \<and> served serve t tr s')"

lemma run_served: "run serve p s = (tr, x, s') \<Longrightarrow> served serve s tr s'"
  by (induction p arbitrary: s tr) (auto split: option.splits prod.splits, metis rangeI)

definition identity_ids :: "ids \<Rightarrow> bool" where
  "identity_ids k \<longleftrightarrow> (\<forall>kd i v. k kd i = Some v \<longrightarrow> v = i)"

lemma renamed_identity: "identity_ids k \<Longrightarrow> renamed k c = renamed (\<lambda>_ _. None) c"
proof -
  assume "identity_ids k"
  then have "named k kd x = x" for kd x by (auto simp: named_def identity_ids_def split: option.split)
  then show ?thesis by (simp add: renamed_def named_any_def split: call.split)
qed

lemma identity_learn: "identity_ids k \<Longrightarrow> identity_ids (learn k kd i i)"
  by (auto simp: identity_ids_def learn_def split: if_splits)

locale quiet_library =
  fixes serve :: "'s \<Rightarrow> request \<Rightarrow> (answer \<times> 's) option"
  assumes errors_quiet: "\<exists>a. serve s R_Last_Error = Some (a, s)"
begin

lemma run_call:
  assumes "serve s r = Some (a, t)" and "run serve (k a) t = (tr, x, s')"
  shows "\<exists>tr'. run serve (Ask r (\<lambda>a. record_call (a_rc a) (k a))) s = (tr', x, s') \<and>
    without_reads tr' = (r, a) # without_reads tr"
proof (cases "a_rc a = 0")
  case False
  obtain e where "serve t R_Last_Error = Some (e, t)" using errors_quiet by blast
  with False assms show ?thesis by (simp add: record_call_def)
qed (use assms in \<open>simp add: record_call_def\<close>)

lemma replay_repeats:
  assumes "served serve z tr z'" and "list_all repeatable (map fst tr)"
    and "replaying U earlier (recording tr) s" and "identity_ids (ids_of s)"
  shows "\<exists>tr'. run serve (replay (rec_session (recording tr)) s) z = (tr', Some True, z') \<and> without_reads tr' = tr"
  using assms
proof (induction tr arbitrary: z earlier s)
  case Nil
  then show ?case by (simp add: recording_def rec_session_def replay.simps)
next
  case (Cons x tr)
  obtain r a where x: "x = (r, a)" by (cases x)
  obtain c i where ci: "recorded x = (c, i)" by (cases "recorded x")
  then have c: "c = call_of r" and i: "i = None \<or> i = Some (given (a_id a) 0)"
    by (auto simp: recorded_def x Let_def split: if_splits)
  have rec: "recording (x # tr) = (c, i) # recording tr" by (simp add: recording_def ci)
  note step = replaying_step [OF Cons.prems(3) [unfolded rec]]
  from Cons.prems(1) obtain t where t: "serve z r = Some (a, t)" "served serve t tr z'"
    by (auto simp: x split: option.splits)
  have "identity_ids (ids_of (after_entry (given (a_id a) 0) c i s))"
    using Cons.prems(4) i unfolding step(2) by (auto intro: identity_learn)
  from Cons.IH [OF t(2) _ step(1) this] Cons.prems(2) obtain tr'
    where rest: "run serve (replay (rec_session (recording tr)) (after_entry (given (a_id a) 0) c i s)) t = (tr', Some True, z')"
      and tr: "without_reads tr' = tr" by auto
  from run_call [OF t(1), where k = "\<lambda>a. replay (rec_session (recording tr)) (after_entry (given (a_id a) 0) c i s)", OF rest] tr have "\<exists>tr'. run serve (Ask r (\<lambda>a. record_call (a_rc a)
      (replay (rec_session (recording tr)) (after_entry (given (a_id a) 0) c i s)))) z = (tr', Some True, z') \<and> without_reads tr' = x # tr"
    by (simp add: x)
  moreover have "request_of (renamed (ids_of s) c) = r"
    using Cons.prems(2) renamed_identity [OF Cons.prems(4)] by (simp add: x c repeatable_def)
  ultimately show ?case unfolding rec step(3) by simp
qed

end

section \<open>The driver\<close>

text \<open>The driver as \<open>Driver\<close> has it; a reading of the error text meets nothing of the environment.\<close>

definition quiet_driver :: "process \<Rightarrow> request \<Rightarrow> (answer \<times> process) option" where
  "quiet_driver p r =
    (if r = R_Last_Error then (let (rc, s, w) = PassThruGetLastError True (fst p) in Some (answer0\<lparr>a_rc := rc\<rparr>, (w, snd p)))
     else driver p r)"

interpretation rerun: quiet_library quiet_driver
  by unfold_locales (simp add: quiet_driver_def PassThruGetLastError_def)

section \<open>Programs whose recording repeats\<close>

text \<open>
  A watch for programs of which the recording holds everything: whether a message has been left in the
  replayer's array, and how many calls of each kind that gets an id.
\<close>

definition carries :: "call \<Rightarrow> bool" where
  "carries c \<longleftrightarrow> call_msgs c \<noteq> []"

definition holds :: "bool \<Rightarrow> call \<Rightarrow> bool" where
  "holds dirty c \<longleftrightarrow>
    (case c of
       C_filter _ _ a b f \<Rightarrow>
         list_all (\<lambda>mo. case mo of None \<Rightarrow> \<not> dirty | Some m \<Rightarrow> ProtocolID m \<noteq> 0) [a, b, f]
     | C_write _ _ _ ms \<Rightarrow> length ms \<le> 8 \<and> recordable replay0 c
     | _ \<Rightarrow> recordable replay0 c)"

definition held_whole :: "(bool \<times> (last_call \<Rightarrow> nat)) watch" where
  "held_whole =
    \<lparr>believes = (\<lambda>h r a. True),
     allows = (\<lambda>(dirty, n) r. repeatable r \<and> holds dirty (call_of r) \<and>
       (call_kind (call_of r) = L_none \<or> n (call_kind (call_of r)) < table_size (call_kind (call_of r)))),
     moves = (\<lambda>(dirty, n) r a. (dirty \<or> carries (call_of r),
       if call_kind (call_of r) = L_none then n else n(call_kind (call_of r) := Suc (n (call_kind (call_of r)))))),
     accepts = (\<lambda>h. True)\<rparr>"

lemma held_whole_simps [simp]:
  "believes held_whole h r a" "accepts held_whole h"
  "allows held_whole (dirty, n) r \<longleftrightarrow> repeatable r \<and> holds dirty (call_of r) \<and>
    (call_kind (call_of r) = L_none \<or> n (call_kind (call_of r)) < table_size (call_kind (call_of r)))"
  "moves held_whole (dirty, n) r a = (dirty \<or> carries (call_of r),
    if call_kind (call_of r) = L_none then n else n(call_kind (call_of r) := Suc (n (call_kind (call_of r)))))"
  by (simp_all add: held_whole_def)

lemma holds_recordable:
  assumes "holds dirty c" and "\<not> dirty \<Longrightarrow> list_all (\<lambda>c. \<not> carries c) earlier"
  shows "recordable_after earlier c" and "length (rec_call c) < LINE_MAX"
proof -
  have "null_free earlier i mo" if "case mo of None \<Rightarrow> \<not> dirty | Some m \<Rightarrow> ProtocolID m \<noteq> 0" for i mo
    using that assms(2) by (cases mo) (auto simp: null_free_def fills_def carries_def list_all_iff)
  with assms(1) show "recordable_after earlier c"
    by (cases c) (auto simp: holds_def recordable_after_def)
  show "length (rec_call c) < LINE_MAX"
    by (rule line_fits) (use assms(1) in \<open>simp add: holds_def\<close>)
qed

lemma follows_held_whole:
  assumes "follows held_whole tr (dirty, n)" and "\<not> dirty \<Longrightarrow> list_all (\<lambda>c. \<not> carries c) earlier"
  shows "list_all repeatable (map fst tr)" and "session_ok earlier (recording tr)"
    and "kd \<noteq> L_none \<Longrightarrow> n kd \<le> table_size kd \<Longrightarrow>
      length (filter (\<lambda>e. call_kind (fst e) = kd) (recording tr)) + n kd \<le> table_size kd"
proof -
  have "list_all repeatable (map fst tr) \<and> session_ok earlier (recording tr) \<and>
      (kd \<noteq> L_none \<longrightarrow> n kd \<le> table_size kd \<longrightarrow>
        length (filter (\<lambda>e. call_kind (fst e) = kd) (recording tr)) + n kd \<le> table_size kd)"
    using assms
  proof (induction tr arbitrary: dirty n earlier)
    case (Cons x tr)
    obtain r a where x: "x = (r, a)" by (cases x)
    let ?c = "call_of r"
    let ?n = "if call_kind ?c = L_none then n else n(call_kind ?c := Suc (n (call_kind ?c)))"
    from Cons.prems(1) have r: "repeatable r" "holds dirty ?c"
      "call_kind ?c = L_none \<or> n (call_kind ?c) < table_size (call_kind ?c)"
      and rest: "follows held_whole tr (dirty \<or> carries ?c, ?n)" by (simp_all add: x)
    have "\<not> (dirty \<or> carries ?c) \<Longrightarrow> list_all (\<lambda>c. \<not> carries c) (?c # earlier)" using Cons.prems(2) by simp
    note IH = Cons.IH [OF rest this]
    have rec: "recording (x # tr) = (?c, snd (recorded x)) # recording tr"
      by (simp add: recording_def recorded_def x Let_def)
    show ?case
      using IH r holds_recordable [OF r(2) Cons.prems(2)] unfolding rec
      by (auto simp: x split: if_splits)
  qed (simp add: recording_def)
  then show "list_all repeatable (map fst tr)" "session_ok earlier (recording tr)"
    "kd \<noteq> L_none \<Longrightarrow> n kd \<le> table_size kd \<Longrightarrow>
      length (filter (\<lambda>e. call_kind (fst e) = kd) (recording tr)) + n kd \<le> table_size kd"
    by simp_all
qed

lemma few_calls_few_ids:
  assumes "\<And>kd. kd \<noteq> L_none \<Longrightarrow> length (filter (\<lambda>e. call_kind (fst e) = kd) ss) \<le> table_size kd"
  shows "few_ids ss"
proof -
  have "length (ids_given ss kd) \<le> length (filter (\<lambda>e. call_kind (fst e) = kd) ss)" for kd
  proof -
    have "length (ids_given ss kd) \<le> length (filter (\<lambda>e. call_kind (fst e) = kd \<and> snd e \<noteq> None) ss)"
      unfolding ids_given_def using length_remdups_leq [of "map (\<lambda>e. the (snd e)) (filter (\<lambda>e. call_kind (fst e) = kd \<and> snd e \<noteq> None) ss)"]
      by simp
    also have "\<dots> \<le> length (filter (\<lambda>e. call_kind (fst e) = kd) ss)" by (induction ss) auto
    finally show ?thesis .
  qed
  then have "length (ids_given ss kd) \<le> table_size kd" if "kd \<noteq> L_none" for kd
    using assms [OF that] by (rule le_trans)
  then show ?thesis by (simp add: few_ids_def)
qed

lemma obeys_recordable:
  assumes "obeys held_whole p (False, \<lambda>_. 0)" and "run serve p s = (tr, x, s')"
  shows "list_all repeatable (map fst tr)" and "session_ok [] (recording tr)" and "few_ids (recording tr)"
proof -
  from obeys_follows [OF assms(1), of serve s] have "follows held_whole tr (False, \<lambda>_. 0)" by (simp add: assms(2))
  note * = follows_held_whole [OF this, of "[]"]
  show "list_all repeatable (map fst tr)" "session_ok [] (recording tr)" using *(1,2) by simp_all
  show "few_ids (recording tr)" using *(3) by (simp add: few_calls_few_ids)
qed

lemma whole_record [simp]: "obeys held_whole (record_call rc k) h = obeys held_whole k h"
  by (cases h) (simp add: record_call_def repeatable_def call_of_def renamed_def request_of_def holds_def recordable_def
      call_kind_def carries_def call_msgs_def)

lemmas whole_rules = repeatable_def call_of_def renamed_def request_of_def holds_def recordable_def call_kind_def
  carries_def call_msgs_def table_size_def ioctl_id_def list_params_def config_def given_def

lemma mk_msg_protocol [simp]: "ProtocolID (mk_msg p f d) = p"
  by (simp add: mk_msg_def)

lemmas scenario_calls = on_channel_def do_open_def do_connect_def iso_setup_def sc_write_def sc_read_def STEP_def
  Let_def TESTER_PRESENT_def READ_DID_0100_def RAW_FRAME_def

lemma scenarios_whole:
  "obeys held_whole sc_open (False, \<lambda>_. 0)" "obeys held_whole sc_iso15765 (False, \<lambda>_. 0)"
  "obeys held_whole sc_multiframe (False, \<lambda>_. 0)" "obeys held_whole sc_timeouts (False, \<lambda>_. 0)"
  "obeys held_whole sc_errors (False, \<lambda>_. 0)" "obeys held_whole sc_periodic (False, \<lambda>_. 0)"
  "obeys held_whole sc_raw_can (False, \<lambda>_. 0)"
  subgoal by (simp add: sc_open_def scenario_calls whole_rules)
  subgoal by (simp add: sc_iso15765_def scenario_calls whole_rules)
  subgoal by (simp add: sc_multiframe_def scenario_calls whole_rules)
  subgoal by (simp add: sc_timeouts_def scenario_calls whole_rules)
  subgoal by (simp add: sc_errors_def scenario_calls whole_rules)
  subgoal by (simp add: sc_periodic_def scenario_calls whole_rules)
  subgoal by (simp add: sc_raw_can_def scenario_calls whole_rules)
  done

lemma driver_repeats:
  assumes "run quiet_driver p z = (tr, x, z')" and "list_all repeatable (map fst tr)"
    and "session_ok [] (recording tr)" and "few_ids (recording tr)"
  shows "\<exists>tr'. run quiet_driver (replay (rec_session (recording tr)) replay0) z = (tr', Some True, z') \<and>
    without_reads tr' = tr"
proof -
  note start = replaying_start [OF assms(3,4)]
  have "identity_ids (ids_of replay0)" by (simp add: start(2) identity_ids_def)
  with rerun.replay_repeats [OF run_served [OF assms(1)] assms(2) start(1)] show ?thesis .
qed

text \<open>Every scenario that the trace tool runs by default is one the recording holds all of.\<close>

lemma default_scenarios_repeat:
  "list_all (\<lambda>(name, p, by_default). case run quiet_driver p z of (tr, x, z') \<Rightarrow>
      \<exists>tr'. run quiet_driver (replay (rec_session (recording tr)) replay0) z = (tr', Some True, z') \<and> without_reads tr' = tr)
    (filter (\<lambda>(name, p, by_default). by_default) (SCENARIOS n before))"
proof -
  have "case run quiet_driver p z of (tr, x, z') \<Rightarrow>
      \<exists>tr'. run quiet_driver (replay (rec_session (recording tr)) replay0) z = (tr', Some True, z') \<and> without_reads tr' = tr"
    if "obeys held_whole p (False, \<lambda>_. 0)" for p :: "unit program"
  proof (cases "run quiet_driver p z")
    case (fields tr x z')
    from driver_repeats [OF this obeys_recordable [OF that this]] fields show ?thesis by simp
  qed
  then show ?thesis by (simp add: SCENARIOS_def scenarios_whole)
qed

text \<open>
  What a recording loses: the inputs of the initialisations, and the pin of a voltage that is not the
  programming voltage, which the replay would take from a parameter that the recorder does not write.
\<close>

lemma lost_inputs:
  "\<not> repeatable (R_Ioctl d (Io_Read_Prog_Voltage (Some pin) out))"
  "\<not> repeatable (R_Ioctl c (Io_Five_Baud_Init (Some i) o'))"
  "\<not> repeatable (R_Ioctl c (Io_Fast_Init (Some m) out))"
  by (simp_all add: whole_rules)

section \<open>Property\<close>

text \<open>C18. Record and replay: what the driver recorded of the run of a program is a program of its own; on the
  driver in the same state, with the cable and the clock behaving as before, it makes the same calls, is
  given the same answers, and leaves the driver in the same state. What it adds is the reading of the
  error text after a call that failed. This is of runs whose recording holds every request
  (\<open>repeatable\<close>: no input of a five-baud or fast init and no other pin's voltage, which it loses, see
  \<open>lost_inputs\<close>), is a session that the replay can hold (\<open>session_ok\<close>: no NULL filter message after a call
  that filled its place, short lines, at most 64 messages) and has few ids; \<open>default_scenarios_repeat\<close> shows
  all of it for every scenario that the trace tool runs by default.\<close>

theorem recording_repeats:
  fixes p :: "'a program"
  assumes "run quiet_driver p z = (tr, x, z')" and "list_all repeatable (map fst tr)"
    and "session_ok [] (recording tr)" and "few_ids (recording tr)"
  shows "\<exists>tr'. run quiet_driver (replay (rec_session (recording tr)) replay0) z = (tr', Some True, z') \<and>
    without_reads tr' = tr"
  using driver_repeats [OF assms] .

text \<open>A program that connects, and asks a device that is not there for its version.\<close>

definition connecting :: "unit program" where
  "connecting = STEP (R_Connect OP_DEVICE_ID 5 0 500000) (STEP (R_Version 7) (Finish ()))"

definition ready :: environment where
  "ready = \<lparr>v_open = opening_env, v_detail = None, v_clock = [], v_fresh = Some (\<lambda>_. 0), v_version = []\<rparr>"

lemma connecting_run:
  "\<exists>z'. run quiet_driver connecting (live_world (\<lambda>_. channel0 None) (D_Ok [256]), [ready, ready]) =
    ([(R_Connect OP_DEVICE_ID 5 0 500000, answer0\<lparr>a_id := Some 5\<rparr>), (R_Version 7, answer0\<lparr>a_rc := ERR_INVALID_DEVICE_ID\<rparr>),
      (R_Last_Error, answer0)], Some (), z')"
proof -
  obtain w where "PassThruConnect (Some (\<lambda>_. 0)) OP_DEVICE_ID 5 0 500000 True (live_world (\<lambda>_. channel0 None) (D_Ok [256])) =
      (STATUS_NOERROR, Some 5, w)"
    using connect_example by blast
  moreover have "\<exists>w'. PassThruReadVersion [] 7 True True True w = (ERR_INVALID_DEVICE_ID, None, w')"
    by (simp add: PassThruReadVersion_def fail_def Let_def OP_DEVICE_ID_def)
  ultimately show ?thesis
    by (auto simp: connecting_def STEP_def record_call_def quiet_driver_def driver_def serve_call_def ready_def
        PassThruGetLastError_def answer0_def)
qed

theorem recording_repeats_witness:
  "\<exists>tr' z'. run quiet_driver (replay (ascii ''connect 1 5 0 500000\<newline>= 5\<newline>version 7\<newline>lasterr\<newline>'') replay0)
      (live_world (\<lambda>_. channel0 None) (D_Ok [256]), [ready, ready]) = (tr', Some True, z') \<and>
    map (\<lambda>x. (fst x, a_rc (snd x))) (without_reads tr') =
      [(R_Connect OP_DEVICE_ID 5 0 500000, STATUS_NOERROR), (R_Version 7, ERR_INVALID_DEVICE_ID), (R_Last_Error, STATUS_NOERROR)]"
proof -
  let ?tr = "[(R_Connect OP_DEVICE_ID 5 0 500000, answer0\<lparr>a_id := Some 5\<rparr>), (R_Version 7, answer0\<lparr>a_rc := ERR_INVALID_DEVICE_ID\<rparr>),
    (R_Last_Error, answer0)]"
  obtain z' where run: "run quiet_driver connecting (live_world (\<lambda>_. channel0 None) (D_Ok [256]), [ready, ready]) = (?tr, Some (), z')"
    using connecting_run by blast
  have rec: "recording ?tr = [(C_connect 1 5 0 500000, Some 5), (C_version 7, None), (C_lasterr, None)]"
    by (simp add: recording_def recorded_def call_of_def call_kind_def answer0_def given_def OP_DEVICE_ID_def)
  have "list_all repeatable (map fst ?tr)" by (simp add: repeatable_def call_of_def renamed_def request_of_def)
  moreover have "session_ok [] (recording ?tr)" unfolding rec
    by (auto simp: recordable_after_def recordable_def intro!: line_fits)
  moreover have "few_ids (recording ?tr)" unfolding rec by (simp add: few_ids_def ids_given_def call_kind_def table_size_def)
  ultimately obtain tr' where "run quiet_driver (replay (rec_session (recording ?tr)) replay0)
      (live_world (\<lambda>_. channel0 None) (D_Ok [256]), [ready, ready]) = (tr', Some True, z')" "without_reads tr' = ?tr"
    using recording_repeats [OF run] by blast
  moreover have "rec_session (recording ?tr) = ascii ''connect 1 5 0 500000\<newline>= 5\<newline>version 7\<newline>lasterr\<newline>''"
    unfolding rec by (simp add: rec_session_def rec_entry_def rec_call_def rec_line_def text_simps lu_def dec.simps)
  ultimately show ?thesis by (simp add: answer0_def)
qed

end
