(* ===== verification/Probe.thy ===== *)
theory Probe
  imports Usb_Bus Recording
begin

text \<open>
  tools/probe/op_probe.c, which prints the descriptors of every OpenPort on the bus. What libusb
  answers for a device is a record; the tool is the list of what it acquires, releases and prints.
  What is shown: everything acquired is released in the opposite order on every path, and a cable that
  the driver opens is found, with a line for each endpoint the driver talks to.
\<close>

section \<open>What libusb answers\<close>

record probe_endpoint =
  pe_address :: u8
  pe_attributes :: u8
  pe_packet :: "16 word"
  pe_interval :: u8

record probe_alt =
  pa_number :: u8
  pa_setting :: u8
  pa_class :: u8
  pa_subclass :: u8
  pa_protocol :: u8
  pa_endpoints :: "probe_endpoint list"

record probe_config =
  pc_value :: u8
  pc_attributes :: u8
  pc_power :: u8
  pc_interfaces :: "probe_alt list list"

record probe_descriptor =
  pd_vendor :: "16 word"
  pd_product :: "16 word"
  pd_bcd_usb :: "16 word"
  pd_bcd_device :: "16 word"
  pd_class :: u8
  pd_subclass :: u8
  pd_protocol :: u8
  pd_packet0 :: u8
  pd_manufacturer :: u8
  pd_product_name :: u8
  pd_serial :: u8

text \<open>
  A device: its descriptor where libusb gives it; where it is; the code of its opening; the result and
  the text of a string; a configuration, or the code of the failure; whether the kernel has a driver on
  an interface; the active configuration, where it can be told.
\<close>

record probe_device =
  pr_descriptor :: "probe_descriptor option"
  pr_bus :: u8
  pr_address :: u8
  pr_open :: int
  pr_string :: "u8 \<Rightarrow> int \<times> u8 list"
  pr_configs :: "(int + probe_config) list"
  pr_kernel :: "u8 \<Rightarrow> int"
  pr_active :: "int option"

section \<open>Names\<close>

definition xfer_name :: "u8 \<Rightarrow> u8 list" where
  "xfer_name attr =
    (let t = attr AND 3 in
     if t = 0 then ascii ''control'' else if t = 1 then ascii ''isochronous''
     else if t = 2 then ascii ''bulk'' else if t = 3 then ascii ''interrupt'' else ascii ''unknown'')"

definition class_name :: "u8 \<Rightarrow> u8 list" where
  "class_name c =
    (if c = 0 then ascii ''per-interface'' else if c = 1 then ascii ''audio''
     else if c = 2 then ascii ''comm'' else if c = 3 then ascii ''HID''
     else if c = LIBUSB_CLASS_MASS_STORAGE then ascii ''MASS STORAGE (microSD inserted?)''
     else if c = 9 then ascii ''hub'' else if c = 10 then ascii ''data''
     else if c = 255 then ascii ''vendor-specific'' else ascii ''other'')"

section \<open>Lines\<close>

definition hex4 :: "16 word \<Rightarrow> u8 list" where
  "hex4 w = hex2 (ucast (drop_bit 8 w)) @ hex2 (ucast w)"

text \<open>\<open>%-16s\<close> and the like.\<close>

definition padded :: "nat \<Rightarrow> u8 list \<Rightarrow> u8 list" where
  "padded n s = s @ replicate (n - length s) 32"

definition num8 :: "u8 \<Rightarrow> u8 list" where
  "num8 b = dec (unat b)"

datatype resource = Libusb | Device_List | Handle nat | Config nat nat

datatype probe_act =
    Acquire resource
  | Release resource
  | Print "u8 list"
  | Complain "u8 list"

definition dump_string :: "(int \<Rightarrow> u8 list) \<Rightarrow> (u8 \<Rightarrow> int \<times> u8 list) \<Rightarrow> u8 \<Rightarrow> string \<Rightarrow> probe_act" where
  "dump_string nm str idx label =
    Print (ascii ''  '' @ padded 16 (ascii label) @
      (if idx = 0 then ascii '' (none)''
       else let (r, text) = str idx in
         if r < 0 then ascii '' <error '' @ nm r @ [62] else [32, 34] @ text @ [34]) @ [10])"

definition endpoint_line :: "probe_endpoint \<Rightarrow> u8 list" where
  "endpoint_line ed =
    ascii ''      EP 0x'' @ hex2 (pe_address ed) @ ascii ''  '' @ padded 11 (xfer_name (pe_attributes ed)) @ [32] @
    padded 3 (if pe_address ed AND 0x80 \<noteq> 0 then ascii ''IN'' else ascii ''OUT'') @
    ascii '' wMaxPacketSize='' @ dec (unat (pe_packet ed)) @ ascii '' bInterval='' @ num8 (pe_interval ed) @ [10]"

definition alt_line :: "probe_alt \<Rightarrow> u8 list" where
  "alt_line a =
    ascii ''    intf '' @ num8 (pa_number a) @ ascii '' alt '' @ num8 (pa_setting a) @ ascii '': class 0x'' @ hex2 (pa_class a) @
    ascii '' ('' @ class_name (pa_class a) @ ascii '') sub 0x'' @ hex2 (pa_subclass a) @ ascii '' proto 0x'' @
    hex2 (pa_protocol a) @ ascii '', '' @ dec (length (pa_endpoints a)) @ ascii '' endpoints'' @ [10]"

definition LIBUSB_NOT_SUPPORTED :: int where "LIBUSB_NOT_SUPPORTED = - 12"

definition driver_line :: "(int \<Rightarrow> u8 list) \<Rightarrow> int \<Rightarrow> u8 list" where
  "driver_line nm kd =
    ascii ''      kernel_driver_active='' @
    (if kd = 1 then ascii ''YES'' else if kd = 0 then ascii ''no''
     else if kd = LIBUSB_NOT_SUPPORTED then ascii ''n/a (macOS)'' else nm kd) @ [10]"

definition dump_alt :: "(int \<Rightarrow> u8 list) \<Rightarrow> probe_device \<Rightarrow> probe_alt \<Rightarrow> probe_act list" where
  "dump_alt nm d a =
    [Print (alt_line a)] @ (if pr_open d = 0 then [Print (driver_line nm (pr_kernel d (pa_number a)))] else []) @
    map (\<lambda>ed. Print (endpoint_line ed)) (pa_endpoints a)"

definition config_line :: "nat \<Rightarrow> probe_config \<Rightarrow> u8 list" where
  "config_line k cd =
    ascii ''  config['' @ dec k @ ascii ''] bConfigurationValue='' @ num8 (pc_value cd) @ ascii '' bNumInterfaces='' @
    dec (length (pc_interfaces cd)) @ ascii '' bmAttributes=0x'' @ hex2 (pc_attributes cd) @ ascii '' MaxPower='' @
    dec (unat (pc_power cd) * 2) @ ascii ''mA'' @ [10]"

definition dump_config :: "(int \<Rightarrow> u8 list) \<Rightarrow> nat \<Rightarrow> probe_device \<Rightarrow> nat \<Rightarrow> int + probe_config \<Rightarrow> probe_act list" where
  "dump_config nm i d k c =
    (case c of
       Inl r \<Rightarrow> [Print (ascii ''  config['' @ dec k @ ascii '']: <error '' @ nm r @ [62, 10])]
     | Inr cd \<Rightarrow>
         [Acquire (Config i k), Print (config_line k cd)] @
         concat (map (dump_alt nm d) (concat (pc_interfaces cd))) @ [Release (Config i k)])"

fun dump_configs :: "(int \<Rightarrow> u8 list) \<Rightarrow> nat \<Rightarrow> probe_device \<Rightarrow> nat \<Rightarrow> (int + probe_config) list \<Rightarrow> probe_act list" where
  "dump_configs nm i d k [] = []"
| "dump_configs nm i d k (c # cs) = dump_config nm i d k c @ dump_configs nm i d (Suc k) cs"

definition dump_descriptor :: "probe_device \<Rightarrow> probe_descriptor \<Rightarrow> probe_act list" where
  "dump_descriptor d dd = map (\<lambda>l. Print (l @ [10]))
    [ascii ''=== DEVICE '' @ hex4 (pd_vendor dd) @ [58] @ hex4 (pd_product dd) @ ascii ''  bus '' @ num8 (pr_bus d) @
       ascii '' addr '' @ num8 (pr_address d) @ ascii '' ==='',
     ascii ''  bcdUSB           '' @ hex4 (pd_bcd_usb dd),
     ascii ''  bcdDevice        '' @ hex4 (pd_bcd_device dd),
     ascii ''  bDeviceClass     0x'' @ hex2 (pd_class dd) @ ascii '' ('' @ class_name (pd_class dd) @ [41],
     ascii ''  bDeviceSubClass  0x'' @ hex2 (pd_subclass dd),
     ascii ''  bDeviceProtocol  0x'' @ hex2 (pd_protocol dd),
     ascii ''  bMaxPacketSize0  '' @ num8 (pd_packet0 dd),
     ascii ''  bNumConfigs      '' @ dec (length (pr_configs d))]"

definition dump_open :: "(int \<Rightarrow> u8 list) \<Rightarrow> nat \<Rightarrow> probe_device \<Rightarrow> probe_descriptor \<Rightarrow> probe_act list" where
  "dump_open nm i d dd =
    (if pr_open d = 0 then
       [Acquire (Handle i), dump_string nm (pr_string d) (pd_manufacturer dd) ''iManufacturer'',
        dump_string nm (pr_string d) (pd_product_name dd) ''iProduct'',
        dump_string nm (pr_string d) (pd_serial dd) ''iSerialNumber'']
     else [Print (ascii ''  <libusb_open failed: '' @ nm (pr_open d) @ [62, 10])])"

definition dump_close :: "nat \<Rightarrow> probe_device \<Rightarrow> probe_act list" where
  "dump_close i d =
    (if pr_open d = 0 then
       (case pr_active d of Some cfg \<Rightarrow> [Print (ascii ''  active configuration = '' @ dec_int cfg @ [10])] | None \<Rightarrow> []) @
       [Release (Handle i)]
     else [])"

definition is_openport :: "probe_device \<Rightarrow> bool" where
  "is_openport d \<longleftrightarrow>
    (case pr_descriptor d of None \<Rightarrow> False | Some dd \<Rightarrow> pd_vendor dd = OP_VID \<and> pd_product dd = OP_PID)"

definition dump_device :: "(int \<Rightarrow> u8 list) \<Rightarrow> nat \<Rightarrow> probe_device \<Rightarrow> probe_act list" where
  "dump_device nm i d =
    (if \<not> is_openport d then []
     else let dd = the (pr_descriptor d) in
       dump_descriptor d dd @ dump_open nm i d dd @ dump_configs nm i d 0 (pr_configs d) @ dump_close i d @ [Print [10]])"

fun dump_devices :: "(int \<Rightarrow> u8 list) \<Rightarrow> nat \<Rightarrow> probe_device list \<Rightarrow> probe_act list" where
  "dump_devices nm i [] = []"
| "dump_devices nm i (d # ds) = dump_device nm i d @ dump_devices nm (Suc i) ds"

text \<open>The tool: its exit code and what it does. \<open>nm\<close> is \<open>libusb_error_name\<close>; \<open>Inl\<close> a failed listing.\<close>

definition op_probe :: "(int \<Rightarrow> u8 list) \<Rightarrow> int \<Rightarrow> int + probe_device list \<Rightarrow> int \<times> probe_act list" where
  "op_probe nm init devs =
    (if init \<noteq> 0 then (1, [Complain (ascii ''libusb_init: '' @ nm init @ [10])])
     else case devs of
       Inl n \<Rightarrow> (1, [Acquire Libusb, Complain (ascii ''libusb_get_device_list: '' @ nm n @ [10]), Release Libusb])
     | Inr ds \<Rightarrow>
         let acts = [Acquire Libusb, Acquire Device_List] @ dump_devices nm 0 ds @ [Release Device_List, Release Libusb] in
         if list_ex is_openport ds then (0, acts)
         else (2, acts @ [Complain (ascii ''No '' @ hex4 OP_VID @ [58] @ hex4 OP_PID @ ascii '' device found.'' @ [10])]))"

section \<open>What is held\<close>

text \<open>What is acquired and not yet released, last first; \<open>None\<close> where something else is released.\<close>

fun held :: "probe_act list \<Rightarrow> resource list \<Rightarrow> resource list option" where
  "held [] h = Some h"
| "held (Acquire r # acts) h = held acts (r # h)"
| "held (Release r # acts) h = (if take 1 h = [r] then held acts (drop 1 h) else None)"
| "held (_ # acts) h = held acts h"

lemma held_append: "held (xs @ ys) h = (case held xs h of None \<Rightarrow> None | Some h \<Rightarrow> held ys h)"
  by (induction xs h rule: held.induct) auto

lemma held_prints [simp]: "held (map (\<lambda>x. Print (f x)) xs) h = Some h"
  by (induction xs) auto

lemma held_string [simp]: "held (dump_string nm str idx label # acts) h = held acts h"
  by (simp add: dump_string_def)

lemma held_alts [simp]: "held (concat (map (dump_alt nm d) as)) h = Some h"
proof -
  have "held (dump_alt nm d a) h = Some h" for a by (simp add: dump_alt_def held_append)
  then show ?thesis by (induction as) (simp_all add: held_append)
qed

lemma held_configs [simp]: "held (dump_configs nm i d k cs) h = Some h"
proof (induction cs arbitrary: k)
  case (Cons c cs)
  then show ?case by (cases c) (simp_all add: held_append dump_config_def)
qed simp

lemma held_device [simp]: "held (dump_device nm i d) h = Some h"
  by (cases "pr_active d")
    (simp_all add: dump_device_def dump_descriptor_def dump_open_def dump_close_def held_append Let_def)

lemma held_devices [simp]: "held (dump_devices nm i ds) h = Some h"
  by (induction ds arbitrary: i) (simp_all add: held_append)

lemma probe_gives_back: "held (snd (op_probe nm init devs)) [] = Some []"
  by (simp add: op_probe_def held_append Let_def split: sum.split)

lemma probe_code:
  "fst (op_probe nm init devs) =
    (if init \<noteq> 0 \<or> (\<exists>n. devs = Inl n) then 1 else if \<exists>ds d. devs = Inr ds \<and> d \<in> set ds \<and> is_openport d then 0 else 2)"
  by (cases devs) (auto simp: op_probe_def list_ex_iff Let_def)

section \<open>The driver on the same bus\<close>

text \<open>A device as src/op_usb.c reads it.\<close>

definition driver_endpoint :: "probe_endpoint \<Rightarrow> usb_endpoint" where
  "driver_endpoint ed = \<lparr>bEndpointAddress = pe_address ed, bmAttributes = pe_attributes ed, wMaxPacketSize = pe_packet ed\<rparr>"

definition driver_alt :: "probe_alt \<Rightarrow> usb_altsetting" where
  "driver_alt a = \<lparr>bInterfaceNumber = pa_number a, bInterfaceClass = pa_class a, endpoints = map driver_endpoint (pa_endpoints a)\<rparr>"

definition driver_config :: "probe_config \<Rightarrow> usb_config" where
  "driver_config cd = map (map driver_alt) (pc_interfaces cd)"

definition same_device :: "probe_device \<Rightarrow> usb_device \<Rightarrow> bool" where
  "same_device d u \<longleftrightarrow>
    descriptor u = map_option (\<lambda>dd. \<lparr>idVendor = pd_vendor dd, idProduct = pd_product dd, bDeviceClass = pd_class dd\<rparr>) (pr_descriptor d) \<and>
    configs u = map (case_sum (\<lambda>r. None) (\<lambda>cd. Some (driver_config cd))) (pr_configs d)"

lemma print_of_config:
  assumes "cs ! j = Inr cd" and "j < length cs" and "alts \<in> set (pc_interfaces cd)" and "a \<in> set alts"
  shows "set (dump_alt nm d a) \<subseteq> set (dump_configs nm i d k cs)"
  using assms
proof (induction cs arbitrary: j k)
  case (Cons c cs)
  show ?case
  proof (cases j)
    case 0
    with Cons.prems show ?thesis by (fastforce simp: dump_config_def)
  next
    case (Suc n)
    with Cons.prems Cons.IH [of n "Suc k"] show ?thesis by auto
  qed
qed simp

lemma print_of_device:
  assumes "d \<in> set ds" and "is_openport d" and "Inr cd \<in> set (pr_configs d)" and "alts \<in> set (pc_interfaces cd)" and "a \<in> set alts"
  shows "set (dump_alt nm d a) \<subseteq> set (dump_devices nm i ds)"
  using assms(1)
proof (induction ds arbitrary: i)
  case (Cons d' ds)
  show ?case
  proof (cases "d' = d")
    case True
    obtain j where "pr_configs d ! j = Inr cd" "j < length (pr_configs d)" using assms(3) by (auto simp: in_set_conv_nth)
    from print_of_config [OF this assms(4,5), of nm d i 0] True assms(2) show ?thesis
      by (auto simp: dump_device_def Let_def)
  next
    case False
    with Cons show ?thesis by auto
  qed
qed simp

lemma printed_endpoint: "ed \<in> set (pa_endpoints a) \<Longrightarrow> Print (endpoint_line ed) \<in> set (dump_alt nm d a)"
  by (simp add: dump_alt_def)

text \<open>A bulk line: the address in it, and the type.\<close>

definition bulk_line :: "u8 \<Rightarrow> u8 list \<Rightarrow> bool" where
  "bulk_line addr l \<longleftrightarrow>
    (\<exists>rest. l = ascii ''      EP 0x'' @ hex2 addr @ ascii ''  '' @ ascii ''bulk       '' @ [32] @
      (if addr AND 0x80 \<noteq> 0 then ascii ''IN '' else ascii ''OUT'') @ rest)"

lemma endpoint_bulk_line: "pe_attributes ed AND 3 = 2 \<Longrightarrow> bulk_line (pe_address ed) (endpoint_line ed)"
  by (auto simp: bulk_line_def endpoint_line_def xfer_name_def padded_def text_simps numeral_eq_Suc)

lemma driver_finds_probed:
  assumes "opened_on ops p u" and "same_device d (p_device p)"
  shows "is_openport d"
    and "\<exists>cd alts a in_ep out_ep. Inr cd \<in> set (pr_configs d) \<and> alts \<in> set (pc_interfaces cd) \<and> a \<in> set alts \<and>
      interface_num u = unat (pa_number a) \<and> in_ep \<in> set (pa_endpoints a) \<and> out_ep \<in> set (pa_endpoints a) \<and>
      pe_address in_ep = ep_in u \<and> pe_attributes in_ep AND 3 = 2 \<and> pe_address out_ep = ep_out u \<and> pe_attributes out_ep AND 3 = 2"
proof -
  show "is_openport d" using assms by (auto simp: opened_on_def same_device_def is_openport_def)
  from assms(1) obtain ucd ualts ua intf mps where u: "Some ucd \<in> set (configs (p_device p))" "ualts \<in> set ucd" "ua \<in> set ualts"
    "bulk_pair_of ua (intf, ep_in u, ep_out u, mps)" "interface_num u = unat intf"
    unfolding opened_on_def by blast
  from u(1) assms(2) obtain cd where cd: "Inr cd \<in> set (pr_configs d)" "ucd = driver_config cd"
    by (auto simp: same_device_def split: sum.splits)
  from u(2,3) cd(2) obtain alts a where a: "alts \<in> set (pc_interfaces cd)" "a \<in> set alts" "ua = driver_alt a"
    by (auto simp: driver_config_def)
  with u(4,5) cd(1) show "\<exists>cd alts a in_ep out_ep. Inr cd \<in> set (pr_configs d) \<and> alts \<in> set (pc_interfaces cd) \<and> a \<in> set alts \<and>
      interface_num u = unat (pa_number a) \<and> in_ep \<in> set (pa_endpoints a) \<and> out_ep \<in> set (pa_endpoints a) \<and>
      pe_address in_ep = ep_in u \<and> pe_attributes in_ep AND 3 = 2 \<and> pe_address out_ep = ep_out u \<and> pe_attributes out_ep AND 3 = 2"
    by (fastforce simp: bulk_pair_of_def driver_alt_def driver_endpoint_def)
qed

section \<open>Property\<close>

text \<open>C13. A cable that the driver opens is there for the probe too: run on the same devices it says so with
  its exit code, and its dump has a line for each of the two bulk endpoints that the driver uses, with
  the endpoint's address and direction. Whatever libusb answered, the probe has given back all it took.\<close>

theorem probe_shows_cable:
  assumes "op_usb_open ops nm init (Inr ps) = (OP_OK, detail, Some u, ks)"
    and "list_all2 (\<lambda>p d. same_device d (p_device p)) ps ds"
  shows "case op_probe name 0 (Inr ds) of (code, acts) \<Rightarrow>
    code = 0 \<and> held acts [] = Some [] \<and>
    list_ex (\<lambda>act. \<exists>l. act = Print l \<and> bulk_line (ep_in u) l) acts \<and>
    list_ex (\<lambda>act. \<exists>l. act = Print l \<and> bulk_line (ep_out u) l) acts"
proof -
  from op_usb_open_result [OF assms(1)] obtain p where p: "p \<in> set ps" "opened_on ops p u" by auto
  from p(1) obtain i where i: "i < length ps" "ps ! i = p" by (auto simp: in_set_conv_nth)
  define d where "d = ds ! i"
  have d: "d \<in> set ds" "same_device d (p_device p)"
    using list_all2_lengthD [OF assms(2)] list_all2_nthD [OF assms(2) i(1)] i by (simp_all add: d_def)
  note op = driver_finds_probed(1) [OF p(2) d(2)]
  from driver_finds_probed(2) [OF p(2) d(2)] obtain cd alts a ei eo
    where a: "Inr cd \<in> set (pr_configs d)" "alts \<in> set (pc_interfaces cd)" "a \<in> set alts"
      and ei: "ei \<in> set (pa_endpoints a)" "pe_address ei = ep_in u" "pe_attributes ei AND 3 = 2"
      and eo: "eo \<in> set (pa_endpoints a)" "pe_address eo = ep_out u" "pe_attributes eo AND 3 = 2"
    by blast
  let ?acts = "snd (op_probe name 0 (Inr ds))"
  have "set (dump_devices name 0 ds) \<subseteq> set ?acts" by (auto simp: op_probe_def Let_def)
  with print_of_device [OF d(1) op a, of name 0] have "set (dump_alt name d a) \<subseteq> set ?acts" by blast
  with ei eo have "Print (endpoint_line ei) \<in> set ?acts" "Print (endpoint_line eo) \<in> set ?acts"
    by (auto dest: printed_endpoint)
  moreover have "bulk_line (ep_in u) (endpoint_line ei)" "bulk_line (ep_out u) (endpoint_line eo)"
    using ei eo endpoint_bulk_line by metis+
  moreover have "fst (op_probe name 0 (Inr ds)) = 0" using d(1) op by (auto simp: probe_code)
  ultimately show ?thesis using probe_gives_back [of name 0 "Inr ds"] by (auto simp: split_beta list_ex_iff)
qed

definition probed_cable :: probe_device where
  "probed_cable =
    \<lparr>pr_descriptor = Some \<lparr>pd_vendor = 0x0403, pd_product = 0xCC4D, pd_bcd_usb = 0x0200, pd_bcd_device = 0x0100,
       pd_class = 2, pd_subclass = 0, pd_protocol = 0, pd_packet0 = 64, pd_manufacturer = 1, pd_product_name = 2, pd_serial = 3\<rparr>,
     pr_bus = 1, pr_address = 7, pr_open = 0, pr_string = (\<lambda>i. (7, ascii ''Tactrix'')),
     pr_configs = [Inr \<lparr>pc_value = 1, pc_attributes = 0xC0, pc_power = 100, pc_interfaces =
       [[\<lparr>pa_number = 0, pa_setting = 0, pa_class = 2, pa_subclass = 2, pa_protocol = 1,
          pa_endpoints = [\<lparr>pe_address = 0x81, pe_attributes = 3, pe_packet = 16, pe_interval = 16\<rparr>]\<rparr>],
        [\<lparr>pa_number = 1, pa_setting = 0, pa_class = 10, pa_subclass = 0, pa_protocol = 0,
          pa_endpoints = [\<lparr>pe_address = 2, pe_attributes = 2, pe_packet = 64, pe_interval = 0\<rparr>,
                          \<lparr>pe_address = 0x82, pe_attributes = 2, pe_packet = 64, pe_interval = 0\<rparr>]\<rparr>]]\<rparr>],
     pr_kernel = (\<lambda>i. 1), pr_active = Some 1\<rparr>"

theorem probe_shows_cable_witness:
  "fst (op_probe (\<lambda>_. []) 0 (Inr [probed_cable])) = 0 \<and>
   list_ex (\<lambda>act. \<exists>l. act = Print l \<and> bulk_line (ep_in usb_live) l) (snd (op_probe (\<lambda>_. []) 0 (Inr [probed_cable])))"
proof -
  have "same_device probed_cable (p_device cable_port)"
    by (simp add: same_device_def probed_cable_def cable_port_def cable_def Let_def driver_config_def driver_alt_def driver_endpoint_def)
  then have "list_all2 (\<lambda>p d. same_device d (p_device p)) [cable_port] [probed_cable]" by simp
  from probe_shows_cable [OF cable_opens this, of "\<lambda>_. []"] show ?thesis by (simp add: split_beta)
qed

end
