(* ===== verification/Wineshim.thy ===== *)
theory Wineshim
  imports Prelude
begin

text \<open>
  tools/ab-official/wineshim.c, which under Wine puts two functions of its own into the export table of
  kernel32 before the vendor's library is loaded. A module of a 32-bit process: its address, the export
  directory's place and size, the names with their ordinals, the table of relative addresses. Windows'
  answers are arguments.
\<close>

type_synonym address = u32

record export_table =
  et_directory :: address
  et_size :: u32
  et_names :: "(string \<times> nat) list"
  et_functions :: "u32 list"

section \<open>The export table\<close>

text \<open>What \<open>GetProcAddress\<close> finds, where the entry is no forwarder.\<close>

definition resolve :: "address \<Rightarrow> export_table \<Rightarrow> string \<Rightarrow> address option" where
  "resolve base et name = map_option (\<lambda>i. base + et_functions et ! i) (map_of (et_names et) name)"

text \<open>An address inside the directory stands for a text, the name of a function of another module.\<close>

definition is_forwarder :: "export_table \<Rightarrow> address \<Rightarrow> bool" where
  "is_forwarder et a \<longleftrightarrow> et_directory et \<le> a \<and> a < et_directory et + et_size et"

text \<open>
  The original, \<open>None\<close> for NULL, and the table after. \<open>real\<close> is what \<open>GetProcAddress\<close> says of a
  forwarder, \<open>unlocked\<close> whether \<open>VirtualProtect\<close> lets the entry be written.
\<close>

definition eat_patch ::
  "(string \<Rightarrow> address option) \<Rightarrow> bool \<Rightarrow> address \<Rightarrow> string \<Rightarrow> address \<Rightarrow> export_table \<Rightarrow> address option \<times> export_table" where
  "eat_patch real unlocked base name newfn et =
    (case map_of (et_names et) name of
       None \<Rightarrow> (None, et)
     | Some i \<Rightarrow>
         let orig = base + et_functions et ! i;
             orig = (if is_forwarder et orig then real name else Some orig) in
         if \<not> unlocked then (None, et)
         else (orig, et\<lparr>et_functions := (et_functions et)[i := newfn - base]\<rparr>))"

text \<open>Both functions, one after the other, as \<open>wineshim_install\<close> does.\<close>

definition wineshim_install ::
  "(string \<Rightarrow> address option) \<Rightarrow> bool \<Rightarrow> address \<Rightarrow> address \<Rightarrow> address \<Rightarrow> export_table \<Rightarrow>
   address option \<times> address option \<times> export_table" where
  "wineshim_install real unlocked base hook_w hook_a et =
    (let (w, et) = eat_patch real unlocked base ''CreateFileW'' hook_w et;
         (a, et) = eat_patch real unlocked base ''CreateFileA'' hook_a et
     in (w, a, et))"

definition ordinals_fit :: "export_table \<Rightarrow> bool" where
  "ordinals_fit et \<longleftrightarrow> list_all (\<lambda>(name, i). i < length (et_functions et)) (et_names et)"

lemma eat_patch_redirects:
  assumes "map_of (et_names et) name = Some i" and "ordinals_fit et"
  shows "resolve base (snd (eat_patch real True base name newfn et)) name = Some newfn"
    and "map_of (et_names et) other \<noteq> Some i \<Longrightarrow>
      resolve base (snd (eat_patch real True base name newfn et)) other = resolve base et other"
    and "\<not> is_forwarder et (base + et_functions et ! i) \<Longrightarrow>
      fst (eat_patch real True base name newfn et) = resolve base et name"
proof -
  have "i < length (et_functions et)"
    using map_of_SomeD [OF assms(1)] assms(2) by (auto simp: ordinals_fit_def list_all_iff)
  then show "resolve base (snd (eat_patch real True base name newfn et)) name = Some newfn"
    using assms(1) by (simp add: resolve_def eat_patch_def Let_def)
  show "map_of (et_names et) other \<noteq> Some i \<Longrightarrow>
      resolve base (snd (eat_patch real True base name newfn et)) other = resolve base et other"
    using assms(1) by (cases "map_of (et_names et) other") (auto simp: resolve_def eat_patch_def Let_def)
  show "\<not> is_forwarder et (base + et_functions et ! i) \<Longrightarrow>
      fst (eat_patch real True base name newfn et) = resolve base et name"
    using assms(1) by (simp add: resolve_def eat_patch_def Let_def)
qed

lemma eat_patch_names [simp]: "et_names (snd (eat_patch real unlocked base name newfn et)) = et_names et"
  by (simp add: eat_patch_def Let_def split: option.split)

lemma eat_patch_fits: "ordinals_fit et \<Longrightarrow> ordinals_fit (snd (eat_patch real unlocked base name newfn et))"
  by (simp add: eat_patch_def Let_def ordinals_fit_def split: option.split)

text \<open>After the installation both names lead to the hooks, and a name with an ordinal of its own where it led.\<close>

lemma install_hooks:
  assumes "map_of (et_names et) ''CreateFileW'' = Some i" and "map_of (et_names et) ''CreateFileA'' = Some j"
    and "i \<noteq> j" and "ordinals_fit et"
    and "snd (snd (wineshim_install real True base hook_w hook_a et)) = et'"
  shows "resolve base et' ''CreateFileW'' = Some hook_w" and "resolve base et' ''CreateFileA'' = Some hook_a"
    and "map_of (et_names et) other \<notin> {Some i, Some j} \<Longrightarrow> resolve base et' other = resolve base et other"
proof -
  let ?w = "snd (eat_patch real True base ''CreateFileW'' hook_w et)"
  have et': "et' = snd (eat_patch real True base ''CreateFileA'' hook_a ?w)"
    using assms(5) by (simp add: wineshim_install_def split_beta)
  have j: "map_of (et_names ?w) ''CreateFileA'' = Some j" using assms(2) by simp
  note w = eat_patch_redirects [OF assms(1,4)] and a = eat_patch_redirects [OF j eat_patch_fits [OF assms(4)]]
  show "resolve base et' ''CreateFileW'' = Some hook_w" "resolve base et' ''CreateFileA'' = Some hook_a"
    "map_of (et_names et) other \<notin> {Some i, Some j} \<Longrightarrow> resolve base et' other = resolve base et other"
    unfolding et' using w a assms(1-3) by auto
qed

section \<open>The hooks\<close>

record comm_timeouts =
  ReadIntervalTimeout :: u32
  ReadTotalTimeoutMultiplier :: u32
  ReadTotalTimeoutConstant :: u32
  WriteTotalTimeoutMultiplier :: u32
  WriteTotalTimeoutConstant :: u32

definition contains :: "string \<Rightarrow> string \<Rightarrow> bool" where
  "contains s sub \<longleftrightarrow> list_ex (\<lambda>i. take (length sub) (drop i s) = sub) [0..<Suc (length s)]"

text \<open>The timeouts that a handle is given, if any: they are set where the log line is written.\<close>

definition fix_handle :: "bool \<Rightarrow> bool \<Rightarrow> string option \<Rightarrow> comm_timeouts option" where
  "fix_handle logging valid name =
    (case name of
       None \<Rightarrow> None
     | Some s \<Rightarrow>
         if \<not> valid \<or> \<not> contains s ''vid_0403'' then None
         else if logging then
           Some \<lparr>ReadIntervalTimeout = 0xFFFFFFFF, ReadTotalTimeoutMultiplier = 0, ReadTotalTimeoutConstant = 0,
             WriteTotalTimeoutMultiplier = 0, WriteTotalTimeoutConstant = 0\<rparr>
         else None)"

text \<open>The handle of the real function, and the timeouts. \<open>wide\<close> is the name where it can be converted.\<close>

definition hook_CreateFileW :: "bool \<Rightarrow> ('a \<Rightarrow> bool) \<Rightarrow> 'a \<Rightarrow> string option \<Rightarrow> 'a \<times> comm_timeouts option" where
  "hook_CreateFileW logging valid h name = (h, fix_handle logging (valid h) name)"

definition hook_CreateFileA ::
  "bool \<Rightarrow> ('a \<Rightarrow> bool) \<Rightarrow> (string \<Rightarrow> string option) \<Rightarrow> 'a \<Rightarrow> string option \<Rightarrow> 'a \<times> comm_timeouts option" where
  "hook_CreateFileA logging valid wide h name =
    (h, case name of None \<Rightarrow> None
        | Some s \<Rightarrow> (case wide s of None \<Rightarrow> None | Some s \<Rightarrow> fix_handle logging (valid h) (Some s)))"

text \<open>The caller gets the real handle; a port of the cable completes a read with what there is.\<close>

lemma hooks_transparent:
  "fst (hook_CreateFileW logging valid h name) = h" "fst (hook_CreateFileA logging valid wide h name) = h"
  by (simp_all add: hook_CreateFileW_def hook_CreateFileA_def)

lemma cable_gets_timeouts:
  assumes "valid h" and "contains name ''vid_0403''"
  shows "map_option ReadIntervalTimeout (snd (hook_CreateFileW True valid h (Some name))) = Some 0xFFFFFFFF"
    and "snd (hook_CreateFileW False valid h (Some name)) = None"
  using assms by (simp_all add: hook_CreateFileW_def fix_handle_def)

end
