(* ===== verification/Pin_Safety.thy ===== *)
theory Pin_Safety
  imports Api_Contract
begin

text \<open>
  The pins as the cable has them. The session's records are bits that the entry points keep; here they
  are tied to what the cable acknowledged: \<open>outputs w volts\<close> says that a sequence of calls led to \<open>w\<close>
  and that the cable, since the reset of the last open, was told \<open>volts\<close> and acknowledged it.
\<close>

section \<open>What the calls keep\<close>

text \<open>No call but an open opens the device, and only a voltage call writes the records.\<close>

definition keeps_pins :: "world \<Rightarrow> world \<Rightarrow> bool" where
  "keeps_pins v w \<longleftrightarrow> (d_open (dev w) \<longrightarrow> d_open (dev v)) \<and>
     pins_grounded (dev w) = pins_grounded (dev v) \<and> pins_powered (dev w) = pins_powered (dev v)"

lemma keeps_pins_refl [simp]: "keeps_pins w w"
  by (simp add: keeps_pins_def)

lemma keeps_pins_trans: "keeps_pins u v \<Longrightarrow> keeps_pins v w \<Longrightarrow> keeps_pins u w"
  by (simp add: keeps_pins_def)

lemma keeps_pins_conf: "same_conf (dev v) (dev w) \<Longrightarrow> (d_open (dev w) \<Longrightarrow> d_open (dev v)) \<Longrightarrow> keeps_pins v w"
  by (auto simp: keeps_pins_def same_conf_def)

lemma keeps_pins_exchange: "keeps_pins w (snd (snd (cmd_exchange l p t wt w)))"
proof -
  obtain st r w' where x: "cmd_exchange l p t wt w = (st, r, w')" by (metis prod_cases3)
  have "d_open (dev w') \<longrightarrow> d_open (dev w)"
    using closed_device_silent [OF _ x] by blast
  then show ?thesis
    using same_conf_exchange [of w l p t wt] x by (auto intro: keeps_pins_conf)
qed

lemma keeps_pins_pop: "keeps_pins w (snd (snd (op_device_pop k t w)))"
proof -
  obtain st r w' where x: "op_device_pop k t w = (st, r, w')" by (metis prod_cases3)
  have "d_open (dev w') \<longrightarrow> d_open (dev w)"
  proof (cases "d_open (dev w)")
    case False
    then have "dev w' = dev w"
      using x wait_message_closed [OF False] by (auto simp: op_device_pop_def Let_def split_beta split: if_splits)
    with False show ?thesis by simp
  qed simp
  then show ?thesis
    using same_conf_pop [of w k t] x by (auto intro: keeps_pins_conf)
qed

lemma keeps_pins_steps:
  "keeps_pins w (w\<lparr>dev := snd (op_device_take_dropped k (dev w))\<rparr>)" "keeps_pins w (on_dev (op_device_flush_channel k) w)"
  "keeps_pins w (set_err s w)" "keeps_pins w (clear_err w)"
  by (simp_all add: keeps_pins_def op_device_take_dropped_def op_device_flush_channel_def Let_def set_err_def clear_err_def)

interpretation pins: steady "keeps_pins v" for v
  by unfold_locales (blast intro: keeps_pins_trans keeps_pins_exchange keeps_pins_pop keeps_pins_steps)+

lemma keeps_pins_chan: "keeps_pins v (on_chan k f w) = keeps_pins v w"
  by (simp add: keeps_pins_def on_chan_def)

lemma keeps_pins_close_device: "keeps_pins v w \<Longrightarrow> keeps_pins v (op_device_close w)"
proof -
  have "same_conf (dev w) (dev (op_device_close w))"
    using same_conf_events [of "(dev w)\<lparr>d_open := False\<rparr>"]
    by (auto simp: op_device_close_def Let_def split_beta same_conf_def same_chan_def)
  then have "keeps_pins w (op_device_close w)" by (rule keeps_pins_conf) simp
  then show "keeps_pins v w \<Longrightarrow> keeps_pins v (op_device_close w)" by (blast intro: keeps_pins_trans)
qed

lemma keeps_pins_close: "keeps_pins w (snd (PassThruClose i w))"
proof -
  have c: "keeps_pins w (clear_err w)" by (rule keeps_pins_steps)
  then show ?thesis
    by (simp add: PassThruClose_def Let_def split_beta pins.fail pins.failed pins.simple_cmd keeps_pins_close_device)
qed

lemma keeps_pins_disconnect: "keeps_pins w (snd (PassThruDisconnect c w))"
proof -
  have c: "keeps_pins w (clear_err w)" by (rule keeps_pins_steps)
  moreover have "keeps_pins w (on_dev (op_device_close_channel k) v)" if "keeps_pins w v" for k v
    using that by (simp add: keeps_pins_def op_device_close_channel_def Let_def)
  ultimately show ?thesis
    by (simp add: PassThruDisconnect_def Let_def split_beta pins.fail pins.failed pins.simple_cmd)
qed

lemma keeps_pins_connect: "keeps_pins w (snd (snd (PassThruConnect fresh i p fl baud b w)))"
proof -
  have c: "keeps_pins w (clear_err w)" by (rule keeps_pins_steps)
  moreover have "keeps_pins w (v\<lparr>dev := snd (op_device_open_channel fresh k pr (dev v))\<rparr>)" if "keeps_pins w v" for k pr v
    using that by (simp add: keeps_pins_def op_device_open_channel_def Let_def)
  ultimately have "keeps_pins w (snd (connect_channel fresh fw p fl baud (clear_err w)))" for fw
    by (simp add: connect_channel_def Let_def split_beta pins.fail pins.set_text pins.simple_cmd)
  with \<open>keeps_pins w (clear_err w)\<close> show ?thesis
    by (simp add: PassThruConnect_def Let_def split_beta pins.fail pins.set_text split: option.split)
qed

lemma keeps_pins_start_periodic: "keeps_pins w (snd (snd (PassThruStartPeriodicMsg c m b t w)))"
proof -
  have c: "keeps_pins w (clear_err w)" by (rule keeps_pins_steps)
  moreover have "keeps_pins w (snd (snd (start_periodic c x t v)))" if "keeps_pins w v" for x v
    using that by (simp add: start_periodic_def Let_def split_beta pins.fail pins.simple_cmd keeps_pins_chan split: option.split)
  ultimately show ?thesis
    by (simp add: PassThruStartPeriodicMsg_def Let_def split_beta pins.fail pins.msg_ok split: option.split)
qed

lemma keeps_pins_stop_periodic: "keeps_pins w (snd (PassThruStopPeriodicMsg c i w))"
proof -
  have c: "keeps_pins w (clear_err w)" by (rule keeps_pins_steps)
  moreover have "keeps_pins w (snd (periodic_stop c s v))" if "keeps_pins w v" for s v
    using that by (simp add: periodic_stop_def Let_def split_beta pins.simple_cmd keeps_pins_chan)
  ultimately show ?thesis
    by (simp add: PassThruStopPeriodicMsg_def Let_def split_beta pins.fail pins.failed)
qed

lemma keeps_pins_ioctl: "keeps_pins w (snd (snd (PassThruIoctl c io w)))"
proof (cases "io = Io_Clear_Periodic_Msgs")
  case True
  have "keeps_pins w (clear_err w)" by (rule pins.clear_text) simp
  then show ?thesis
    by (simp add: True PassThruIoctl_def run_ioctl_def needs_channel_def Let_def split_beta pins.fail pins.failed
        pins.simple_cmd keeps_pins_chan)
qed (simp add: pins.ioctl)

section \<open>The open\<close>

lemma keeps_pins_failed_close: "\<not> d_open (dev (snd (fail c s (op_device_close w))))"
  by (simp add: fail_def Let_def set_err_def)

lemma open_failed_state:
  "fst (open_failed st detail w) \<noteq> STATUS_NOERROR" "dev (snd (open_failed st detail w)) = dev w"
  by (simp_all add: open_failed_def Let_def set_err_def split: option.split)

lemma open_identify_pins:
  shows "fst (open_identify w) = STATUS_NOERROR \<Longrightarrow> pins_grounded (dev (snd (open_identify w))) = pins_grounded (dev w) \<and>
      pins_powered (dev (snd (open_identify w))) = pins_powered (dev w)"
    and "fst (open_identify w) \<noteq> STATUS_NOERROR \<Longrightarrow> \<not> d_open (dev (snd (open_identify w)))"
proof -
  obtain rc r v where x: "simple_cmd (op_cmd_version OP_CMD_MAX) [] OP_DEFAULT_CMD_MS w = (rc, r, v)"
    by (metis prod_cases3)
  have "keeps_pins w v" using pins.simple_cmd [OF keeps_pins_refl, of w] x by (metis snd_conv)
  then show "fst (open_identify w) = STATUS_NOERROR \<Longrightarrow> pins_grounded (dev (snd (open_identify w))) = pins_grounded (dev w) \<and>
      pins_powered (dev (snd (open_identify w))) = pins_powered (dev w)"
    using x by (auto simp: open_identify_def Let_def keeps_pins_def split_beta fail_def split: if_splits option.splits)
  show "fst (open_identify w) \<noteq> STATUS_NOERROR \<Longrightarrow> \<not> d_open (dev (snd (open_identify w)))"
    using keeps_pins_failed_close by (auto simp: open_identify_def Let_def split_beta set_err_def split: if_splits)
qed

text \<open>The open is refused, or it opens the closed device and identifies it, or fails to open it.\<close>

lemma open_cases:
  assumes "PassThruOpen oe detail p w = (rc, out, w')"
  obtains (refused) "rc \<noteq> STATUS_NOERROR" "keeps_pins w w'"
  | (failed) "rc \<noteq> STATUS_NOERROR" "\<not> d_open (dev w')"
  | (opened) v where "pins_grounded (dev v) = 0" "pins_powered (dev v) = 0" "rc = fst (open_identify v)" "w' = snd (open_identify v)"
proof -
  let ?c = "clear_err w"
  have c: "keeps_pins w ?c" by (rule keeps_pins_steps)
  have dev_c: "dev ?c = dev w" by (simp add: clear_err_def)
  define v where "v = (if d_open (dev w) then op_device_close ?c else ?c)"
  have closed: "\<not> d_open (dev v)" by (simp add: v_def dev_c)
  obtain st v1 where x: "op_device_open oe v = (st, v1)" by force
  have "PassThruOpen oe detail p w =
      (if \<not> p then (ERR_NULL_PARAMETER, None, snd (fail ERR_NULL_PARAMETER ''PassThruOpen(pDeviceID)'' ?c))
       else if d_open (dev w) \<and> \<not> d_lost (dev w) then (ERR_DEVICE_IN_USE, None, snd (fail ERR_DEVICE_IN_USE ''PassThruOpen'' ?c))
       else if st \<noteq> OP_OK then (fst (open_failed st detail v1), None, snd (open_failed st detail v1))
       else (fst (open_identify v1), if fst (open_identify v1) = STATUS_NOERROR then Some OP_DEVICE_ID else None,
             snd (open_identify v1)))"
    unfolding PassThruOpen_def Let_def dev_c v_def [symmetric] x prod.case by (simp only: split_beta fail_code)
  with assms consider "rc \<noteq> STATUS_NOERROR" "keeps_pins w w'"
    | "st \<noteq> OP_OK" "rc = fst (open_failed st detail v1)" "w' = snd (open_failed st detail v1)"
    | "st = OP_OK" "rc = fst (open_identify v1)" "w' = snd (open_identify v1)"
    using pins.fail [OF c] by (auto split: if_splits)
  then show thesis
  proof cases
    case 1
    then show thesis by (rule refused)
  next
    case 2
    with open_failure_closed [OF closed x] open_failed_state [of st detail v1] show thesis by (intro failed) simp_all
  next
    case 3
    with open_sequence [OF closed] x have "pins_grounded (dev v1) = 0" "pins_powered (dev v1) = 0" by blast+
    with 3(2,3) show thesis by (intro opened)
  qed
qed

text \<open>An open that worked found the records clear; one that did not leaves them, or the device closed.\<close>

lemma open_pins:
  assumes "PassThruOpen oe detail p w = (rc, out, w')"
  shows "rc = STATUS_NOERROR \<Longrightarrow> pins_grounded (dev w') = 0 \<and> pins_powered (dev w') = 0"
    and "rc \<noteq> STATUS_NOERROR \<Longrightarrow> keeps_pins w w' \<or> \<not> d_open (dev w')"
proof -
  have "if rc = STATUS_NOERROR then pins_grounded (dev w') = 0 \<and> pins_powered (dev w') = 0
      else keeps_pins w w' \<or> \<not> d_open (dev w')"
    using assms
  proof (cases rule: open_cases)
    case (opened v)
    with open_identify_pins [of v] show ?thesis by (cases "rc = STATUS_NOERROR") simp_all
  qed simp_all
  then show "rc = STATUS_NOERROR \<Longrightarrow> pins_grounded (dev w') = 0 \<and> pins_powered (dev w') = 0"
    and "rc \<noteq> STATUS_NOERROR \<Longrightarrow> keeps_pins w w' \<or> \<not> d_open (dev w')" by simp_all
qed

section \<open>The voltage\<close>

lemma voltage_pins:
  assumes "PassThruSetProgrammingVoltage i pin v w = (rc, w')"
  shows "(\<exists>w1. rc = STATUS_NOERROR \<and> pin < 32 \<and> keeps_pins w w1 \<and> w' = on_dev (record_pin (unat pin) v) w1) \<or>
    keeps_pins w w' \<and> (rc = STATUS_NOERROR \<longrightarrow> 32 \<le> pin)"
proof -
  have c: "keeps_pins w (clear_err w)" by (rule keeps_pins_steps)
  obtain rc1 r w1 where x: "simple_cmd (voltage_line pin v) [] OP_DEFAULT_CMD_MS (clear_err w) = (rc1, r, w1)"
    by (metis prod_cases3)
  have w1: "keeps_pins w w1" using pins.simple_cmd [OF c] x by (metis snd_conv)
  have set: "(\<exists>w1. rc = STATUS_NOERROR \<and> pin < 32 \<and> keeps_pins w w1 \<and> w' = on_dev (record_pin (unat pin) v) w1) \<or>
      keeps_pins w w' \<and> (rc = STATUS_NOERROR \<longrightarrow> 32 \<le> pin)"
    if "set_voltage pin v (clear_err w) = (rc, w')"
  proof (cases "OP_CMD_MAX \<le> length (voltage_line pin v) \<or> rc1 \<noteq> STATUS_NOERROR")
    case True
    then have "keeps_pins w w' \<and> rc \<noteq> STATUS_NOERROR"
      using that pins.fail [OF c] pins.fail [OF w1]
      unfolding set_voltage_def Let_def x prod.case by (auto simp: prod_eq_iff simp del: OP_CMD_MAX_def split: if_splits)
    then show ?thesis by simp
  next
    case False
    then have "rc = STATUS_NOERROR" "w' = (if pin < 32 then on_dev (record_pin (unat pin) v) w1 else w1)"
      using that unfolding set_voltage_def Let_def x prod.case by (simp_all split: if_splits)
    with w1 show ?thesis by (auto simp: not_less)
  qed
  show ?thesis
    using assms set pins.fail [OF c] pins.set_text [OF c]
    by (auto simp: PassThruSetProgrammingVoltage_def Let_def prod_eq_iff split: if_splits option.splits)
qed

section \<open>What the cable acknowledged\<close>

text \<open>The voltage calls and the open aside: the other entry points, \<open>PassThruGetLastError\<close> and events.\<close>

inductive other_step :: "world \<Rightarrow> world \<Rightarrow> bool" where
  Close: "PassThruClose i w = (rc, w') \<Longrightarrow> other_step w w'"
| Connect: "PassThruConnect fresh i p fl baud b w = (rc, out, w') \<Longrightarrow> other_step w w'"
| Disconnect: "PassThruDisconnect c w = (rc, w') \<Longrightarrow> other_step w w'"
| Read_Msgs: "PassThruReadMsgs clk c pm n t w = Some (rc, cnt, ms, w') \<Longrightarrow> other_step w w'"
| Write_Msgs: "PassThruWriteMsgs clk c pm n t w = (rc, cnt, w') \<Longrightarrow> other_step w w'"
| Start_Periodic: "PassThruStartPeriodicMsg c m b t w = (rc, out, w') \<Longrightarrow> other_step w w'"
| Stop_Periodic: "PassThruStopPeriodicMsg c i w = (rc, w') \<Longrightarrow> other_step w w'"
| Start_Filter: "PassThruStartMsgFilter c ft m1 m2 m3 b w = (rc, out, w') \<Longrightarrow> other_step w w'"
| Stop_Filter: "PassThruStopMsgFilter c i w = (rc, w') \<Longrightarrow> other_step w w'"
| Version: "PassThruReadVersion ver i b1 b2 b3 w = (rc, vs, w') \<Longrightarrow> other_step w w'"
| Ioctl: "PassThruIoctl c io w = (rc, res, w') \<Longrightarrow> other_step w w'"
| Last_Error: "PassThruGetLastError b w = (rc, txt, w') \<Longrightarrow> other_step w w'"
| Events: "other_step w (on_dev (apply_events es) w)"

inductive_cases other_stepE: "other_step w w'"

text \<open>
  \<open>volts\<close> is the 32-bit value that the cable last acknowledged for each pin: off everywhere after an open
  that worked, whose resets were acknowledged (\<open>atz\<close> and \<open>ata\<close> switch every output off, docs/PROTOCOL.md
  section 8.3; \<open>open_sequence\<close> shows that they were sent), and changed by a voltage call exactly when
  that returned STATUS_NOERROR. The voltages asked for are the standard's 32-bit
  values; on the 64 bits of \<open>unsigned long\<close> see \<open>ground_guard_bypassed\<close>.
\<close>

inductive outputs :: "world \<Rightarrow> (nat \<Rightarrow> u32) \<Rightarrow> bool" where
  Start: "outputs \<lparr>dev = g_device, sent = [], sched = s, err_text = []\<rparr> (\<lambda>pin. ucast VOLTAGE_OFF)"
| Opened: "outputs w volts \<Longrightarrow> PassThruOpen oe detail p w = (rc, out, w') \<Longrightarrow> detail \<noteq> Some [] \<Longrightarrow>
    outputs w' (if rc = STATUS_NOERROR then \<lambda>pin. ucast VOLTAGE_OFF else volts)"
| Set: "outputs w volts \<Longrightarrow> PassThruSetProgrammingVoltage i pin v w = (rc, w') \<Longrightarrow> v < 2 ^ 32 \<Longrightarrow>
    outputs w' (if rc = STATUS_NOERROR then volts(unat pin := ucast v) else volts)"
| Other: "outputs w volts \<Longrightarrow> other_step w w' \<Longrightarrow> outputs w' volts"

definition grounded :: "u32 \<Rightarrow> bool" where
  "grounded v \<longleftrightarrow> v = ucast SHORT_TO_GROUND"

definition powered :: "u32 \<Rightarrow> bool" where
  "powered v \<longleftrightarrow> v \<noteq> ucast SHORT_TO_GROUND \<and> v \<noteq> ucast VOLTAGE_OFF"

lemma other_api: "other_step w w' \<Longrightarrow> api_step w w'"
  by (erule other_stepE)
    (blast intro: api_step.intros api_result.Close api_result.Connect api_result.Disconnect api_result.Read_Msgs
      api_result.Write_Msgs api_result.Start_Periodic api_result.Stop_Periodic api_result.Start_Filter
      api_result.Stop_Filter api_result.Version api_result.Ioctl)+

lemma outputs_reachable: "outputs w volts \<Longrightarrow> reachable w"
  by (induction rule: outputs.induct)
    (blast intro: reachable.intros api_step.Call api_result.Open api_result.Voltage other_api)+

lemma other_keeps: "other_step w w' \<Longrightarrow> keeps_pins w w'"
proof (erule other_stepE, goal_cases)
  case (4 clk c pm n t rc cnt ms)
  then show ?case by (intro pins.read_msgs [OF keeps_pins_refl])
next
  case (13 es)
  have "same_conf (dev w) (dev w')" unfolding 13 using same_conf_events by simp
  then show ?case
    by (rule keeps_pins_conf) (use events_closed [of "dev w" es] 13 in auto)
qed (metis snd_conv keeps_pins_refl keeps_pins_close keeps_pins_connect keeps_pins_disconnect
    keeps_pins_start_periodic keeps_pins_stop_periodic keeps_pins_ioctl pins.write_msgs pins.start_msg_filter
    pins.stop_msg_filter pins.read_version pins.last_error)+

text \<open>While the device is open the records say what the cable was told.\<close>

definition records_match :: "op_device \<Rightarrow> (nat \<Rightarrow> u32) \<Rightarrow> bool" where
  "records_match d volts \<longleftrightarrow>
     (\<forall>pin<32. bit (pins_grounded d) pin = grounded (volts pin) \<and> bit (pins_powered d) pin = powered (volts pin))"

lemma match_keeps:
  "keeps_pins w w' \<Longrightarrow> (d_open (dev w) \<Longrightarrow> records_match (dev w) volts) \<Longrightarrow> d_open (dev w') \<Longrightarrow> records_match (dev w') volts"
  by (simp add: keeps_pins_def records_match_def)

lemma match_off: "pins_grounded d = 0 \<Longrightarrow> pins_powered d = 0 \<Longrightarrow> records_match d (\<lambda>pin. ucast VOLTAGE_OFF)"
  by (simp add: records_match_def grounded_def powered_def)

lemma low_word_eq:
  fixes v c :: u64
  assumes "v < 2 ^ 32" and "c < 2 ^ 32"
  shows "(ucast v :: u32) = ucast c \<longleftrightarrow> v = c"
proof -
  have "unat (ucast x :: u32) = unat x" if "x < 2 ^ 32" for x :: u64
    using that by (simp add: unsigned_ucast_eq take_bit_nat_eq_self word_less_nat_alt)
  with assms show ?thesis by (metis unsigned_word_eqI)
qed

lemma match_set:
  assumes "records_match d volts" and "n < 32" and "v < 2 ^ 32"
  shows "records_match (record_pin n v d) (volts(n := ucast v))"
proof -
  have "grounded (ucast v) = (v = SHORT_TO_GROUND)" "powered (ucast v) = (v \<noteq> SHORT_TO_GROUND \<and> v \<noteq> VOLTAGE_OFF)"
    using low_word_eq [OF assms(3), of SHORT_TO_GROUND] low_word_eq [OF assms(3), of VOLTAGE_OFF]
    by (simp_all add: grounded_def powered_def)
  with assms(1,2) show ?thesis
    unfolding records_match_def by (auto simp: record_pin_bits [OF assms(2)])
qed

lemma outputs_match: "outputs w volts \<Longrightarrow> d_open (dev w) \<Longrightarrow> records_match (dev w) volts"
proof (induction rule: outputs.induct)
  case (Start s)
  then show ?case by (simp add: g_device_def)
next
  case (Opened w volts oe detail p rc out w')
  show ?case
  proof (cases "rc = STATUS_NOERROR")
    case True
    with open_pins(1) [OF Opened.hyps(2)] match_off [of "dev w'"] show ?thesis by simp
  next
    case False
    with open_pins(2) [OF Opened.hyps(2)] Opened.IH Opened.prems match_keeps show ?thesis by auto
  qed
next
  case (Set w volts i pin v rc w')
  from voltage_pins [OF Set.hyps(2)] show ?case
  proof (elim disjE exE conjE)
    fix w1
    assume w1: "rc = STATUS_NOERROR" "pin < 32" "keeps_pins w w1" "w' = on_dev (record_pin (unat pin) v) w1"
    then have n: "unat pin < 32" by (simp add: word_less_nat_alt)
    have "d_open (dev w1)" using Set.prems w1(4) by (simp add: record_pin_bits [OF n])
    then have "records_match (dev w1) volts" using match_keeps [OF w1(3) Set.IH] by blast
    from match_set [OF this n Set.hyps(3)] w1 show ?thesis by (simp add: fun_upd_def)
  next
    assume same: "keeps_pins w w'" "rc = STATUS_NOERROR \<longrightarrow> 32 \<le> pin"
    have "records_match (dev w') volts" by (rule match_keeps [OF same(1) Set.IH Set.prems])
    then show ?thesis using same(2) by (auto simp: records_match_def word_le_nat_alt)
  qed
next
  case (Other w volts w')
  then show ?case by (blast intro: match_keeps other_keeps)
qed

section \<open>A session with a powered pin\<close>

text \<open>The device tells its version, and acknowledges a voltage.\<close>

lemma info_step:
  assumes "ready w" and "sched w = acknowledged 0 [render (D_Info t)] # es" and "dev_fits (D_Info t)"
    and "line = s @ crlf" and "length line < OP_CMD_MAX" and "\<not> op_cmd_is_numbered line" and "length t < OP_REPLY_TEXT_MAX"
  shows "\<exists>r w'. cmd_exchange line [] tm True w = (OP_OK, Some r, w') \<and> r_kind r = OP_REPLY_INFO \<and> r_text r = Some t \<and>
    ready w' \<and> seq_next (dev w') = seq_next (dev w) \<and> sched w' = es"
proof -
  let ?r = "meaning (D_Info t)"
  define d1 where "d1 = claim_slot True 0 (line ! 2) (dev w)"
  define d2 where "d2 = (handle ?r d1)\<lparr>accum := []\<rparr>"
  have rec: "dev_record (render (D_Info t)) ?r" using assms(3) by (auto simp: dev_record_def)
  have len: "length (render (D_Info t)) \<le> 1024" using dev_record_length [OF rec] by simp
  have d1: "reading d1" "accum d1 = []" "cmd_waiting d1" "seq_pending d1 = 0" "d_open d1" "\<not> d_lost d1"
      "\<not> reply_valid d1"
    using assms(1) by (simp_all add: d1_def claim_slot_def reading_def ready_def)
  have "apply_events (map (Rd OP_OK) [render (D_Info t)]) d1 = (fold handle [?r] d1)\<lparr>accum := []\<rparr>"
    unfolding apply_events_reads
    using rec len d1(1,2) by (intro turns_stream [of "[render (D_Info t)]"]) (auto simp: part_record_def line_bytes_def text_simps)
  then have events: "apply_events (map (Rd OP_OK) [render (D_Info t)]) d1 = d2" by (simp add: d2_def)
  have d2: "reply_valid d2" "r_kind (reply d2) = OP_REPLY_INFO" "r_text (reply d2) = Some t"
    using d1 assms(7) by (simp_all add: d2_def handle_def stash_reply_def stash_accepted_def stash_slot_def Let_def reply0_def)
  have wait: "wait_reply [map (Rd OP_OK) [render (D_Info t)]] d1 = d2"
    using d1 events d2(1) by (simp add: wait_reply_valid)
  have env: "next_env w = (acknowledged 0 [render (D_Info t)], w\<lparr>sched := es\<rparr>)"
    using assms(2) by (simp add: next_env_def)
  have num: "number_line line (dev w) = (line, 0, dev w)"
    using assms(6) by (simp add: number_line_def)
  have locked: "exchange_locked True (acknowledged 0 [render (D_Info t)]) line 0 (dev w) =
      (OP_OK, Some (reply d2), d2\<lparr>reply_valid := False, cmd_waiting := False\<rparr>)"
    using wait d2(1) by (simp add: exchange_locked_def claimed_def await_reply_def acknowledged_def env0_def d1_def)
  have "line \<noteq> []" using assms(4) by (simp add: crlf_def)
  then have "cmd_exchange line [] tm True w = (OP_OK, Some (reply d2),
      w\<lparr>sched := es, sent := sent w @ [(line, if tm = 0 then 1000 else tm)],
        dev := d2\<lparr>reply_valid := False, cmd_waiting := False\<rparr>\<rparr>)"
    using assms(1,5) by (simp add: cmd_exchange_def env num locked ready_def del: render.simps)
  moreover have "d_open d2" "\<not> d_lost d2" "reading d2" "accum d2 = []" "seq_next d2 = seq_next (dev w)"
    using d1 by (simp_all add: d2_def reading_def) (simp add: d1_def)
  ultimately show ?thesis using d2 by (auto simp: ready_def reading_def)
qed

text \<open>A start after which the cable answers the open, tells its version and takes 5 V on pin 12.\<close>

definition powered_start :: world where
  "powered_start = \<lparr>dev = g_device, sent = [],
     sched = sched opening_world @
       [acknowledged 0 [render (D_Info (ascii ''main code version : 1.17.4877''))],
        acknowledged 258 [render (D_Ok [258])]],
     err_text = []\<rparr>"

lemma powered_open:
  "\<exists>w'. PassThruOpen opening_env None True powered_start = (STATUS_NOERROR, Some OP_DEVICE_ID, w') \<and>
     ready w' \<and> seq_next (dev w') = 258 \<and> sched w' = [acknowledged 258 [render (D_Ok [258])]]"
proof -
  let ?t = "ascii ''main code version : 1.17.4877''" and ?line = "op_cmd_version OP_CMD_MAX"
  have clear: "clear_err powered_start = powered_start" by (simp add: powered_start_def clear_err_def op_err_clear_def)
  obtain w1 where 1: "op_device_open opening_env powered_start = (OP_OK, w1)" "ready w1"
    "seq_next (dev w1) = 258"
    "sched w1 = [acknowledged 0 [render (D_Info ?t)], acknowledged 258 [render (D_Ok [258])]]"
    using opening_runs [of powered_start] by (force simp: powered_start_def)
  have line: "?line = ascii ''ati'' @ crlf" by (simp add: op_cmd_version_def emit_def crlf_def)
  have fits: "dev_fits (D_Info ?t)" by (simp add: dev_fits_def line_bytes_def text_simps crlf_def)
  have short: "length ?line < OP_CMD_MAX" "\<not> op_cmd_is_numbered ?line" "length ?t < OP_REPLY_TEXT_MAX"
    unfolding line by (simp_all add: op_cmd_is_numbered_def text_simps crlf_def)
  from info_step [OF 1(2,4) fits line short, of 1000]
  obtain r w2 where 2: "cmd_exchange ?line [] 1000 True w1 = (OP_OK, Some r, w2)"
    "r_kind r = OP_REPLY_INFO" "r_text r = Some ?t" "ready w2" "seq_next (dev w2) = seq_next (dev w1)"
    "sched w2 = [acknowledged 258 [render (D_Ok [258])]]"
    by blast
  have "op_parse_version (Some (ascii ''main code version '' @ ascii '': '' @ ascii ''1.17.4877'')) OP_VERSION_MAX =
      (True, ascii ''1.17.4877'')"
    by (rule op_parse_version_roundtrip) (simp_all add: text_simps)
  then have ver: "op_parse_version (Some ?t) OP_VERSION_MAX = (True, ascii ''1.17.4877'')" by (simp add: text_simps)
  have "\<not> d_open (dev powered_start)" by (simp add: powered_start_def g_device_def)
  moreover have "open_identify w1 = (STATUS_NOERROR, on_dev (\<lambda>d. d\<lparr>fw_version := ascii ''1.17.4877''\<rparr>) w2)"
    using 2(1-3) ver by (simp add: open_identify_def simple_cmd_def op_device_cmd_def reply_to_status_def)
  ultimately have "PassThruOpen opening_env None True powered_start =
      (STATUS_NOERROR, Some OP_DEVICE_ID, on_dev (\<lambda>d. d\<lparr>fw_version := ascii ''1.17.4877''\<rparr>) w2)"
    using 1(1) clear by (simp add: PassThruOpen_def)
  with 2(4-6) 1(3) show ?thesis by (simp add: ready_def reading_def)
qed

lemma powered_session: "\<exists>w volts. outputs w volts \<and> d_open (dev w) \<and> volts 12 = 5000"
proof -
  obtain w1 where 1: "PassThruOpen opening_env None True powered_start = (STATUS_NOERROR, Some OP_DEVICE_ID, w1)"
    "ready w1" "seq_next (dev w1) = 258" "sched w1 = [acknowledged 258 [render (D_Ok [258])]]"
    using powered_open by blast
  let ?line = "voltage_line 12 5000" and ?c = "clear_err w1"
  have c: "ready ?c" "seq_next (dev ?c) = 258" "sched ?c = [acknowledged 258 [render (D_Ok [258])]]"
    using 1 by (simp_all add: clear_err_def ready_def)
  have line: "?line = ascii ''atv 12 5000'' @ crlf"
    by (simp add: voltage_line_def text_simps dec_int_def dec.simps)
  have "\<exists>r w'. cmd_exchange ?line [] 1000 True ?c = (OP_OK, Some r, w') \<and> r_kind r = OP_REPLY_OK \<and>
    ready w' \<and> seq_next (dev w') = seq_next (snd (take_seq (dev ?c))) \<and> sched w' = []"
    by (rule acknowledged_step [where cs = "[render (D_Ok [258])]" and s = "ascii ''atv 12 5000''"], unfold c(2,3) line)
      (use c(1) in \<open>simp_all add: line_bytes_def op_cmd_is_numbered_def text_simps crlf_def num_def dec.simps\<close>)
  then obtain r w2 where 2: "cmd_exchange ?line [] 1000 True ?c = (OP_OK, Some r, w2)" "r_kind r = OP_REPLY_OK" "ready w2"
    by blast
  have s: "outputs w1 (\<lambda>pin. ucast VOLTAGE_OFF)"
    using outputs.Opened [OF outputs.Start [of "sched powered_start"], of opening_env None True STATUS_NOERROR
        "Some OP_DEVICE_ID" w1] 1(1) by (simp add: powered_start_def)
  have "d_open (dev w1)" "pins_powered (dev w1) = 0"
    using 1(2) open_pins(1) [OF 1(1)] by (simp_all add: ready_def)
  then have "PassThruSetProgrammingVoltage OP_DEVICE_ID 12 5000 w1 = (STATUS_NOERROR, on_dev (record_pin 12 5000) w2)"
    using 2(1,2) by (simp add: PassThruSetProgrammingVoltage_def set_voltage_def line simple_cmd_def op_device_cmd_def
        reply_to_status_def clear_err_def crlf_def Let_def)
  from outputs.Set [OF s this] have "outputs (on_dev (record_pin 12 5000) w2) ((\<lambda>pin. ucast VOLTAGE_OFF)(12 := 5000))"
    by (simp add: fun_upd_def)
  moreover have "d_open (dev (on_dev (record_pin 12 5000) w2))"
    using 2(3) by (simp add: ready_def record_pin_bits)
  ultimately show ?thesis by (intro exI conjI) (assumption, simp_all)
qed

section \<open>Property\<close>

text \<open>C1. Electrical safety, after any sequence of calls made one after the other, with any replies, timeouts
  and turns of the reader and of other threads' closes between and during them, the voltages asked for
  being 32-bit values: no two channels that share a line are open in the session together; and while the
  device is open, no channel is open in it on a pin that the cable, by what it last acknowledged, shorts
  to ground, and at most one of the pins below 32 carries a voltage. Two calls that race each other inside,
  and a 64-bit voltage (\<open>ground_guard_bypassed\<close>), are outside.\<close>

theorem acknowledged_pins_safe:
  assumes "outputs w volts"
  shows "\<not> (ch_open (ch (dev w) 3) \<and> ch_open (ch (dev w) 4)) \<and>
    \<not> (ch_open (ch (dev w) 7) \<and> ch_open (ch (dev w) 8)) \<and>
    (d_open (dev w) \<longrightarrow>
      (\<forall>k pin. ch_open (ch (dev w) k) \<and> pin < 32 \<and> grounded (volts pin) \<longrightarrow>
         \<not> protocol_uses_pin (ucast (ch_protocol (ch (dev w) k))) (of_nat pin)) \<and>
      (\<forall>i j. i < 32 \<and> j < 32 \<and> powered (volts i) \<and> powered (volts j) \<longrightarrow> i = j))"
proof -
  note safe = recorded_lines_and_pins [OF outputs_reachable [OF assms]]
  from safe(1,2) show ?thesis
  proof (intro conjI impI allI)
    assume "d_open (dev w)"
    note match = outputs_match [OF assms this, unfolded records_match_def, rule_format]
    show "\<not> protocol_uses_pin (ucast (ch_protocol (ch (dev w) k))) (of_nat pin)"
      if "ch_open (ch (dev w) k) \<and> pin < 32 \<and> grounded (volts pin)" for k pin
      using that safe(3) match by blast
    show "i = j" if "i < 32 \<and> j < 32 \<and> powered (volts i) \<and> powered (volts j)" for i j
      using that safe(4) match by blast
  qed blast+
qed

theorem acknowledged_pins_safe_witness:
  "\<exists>w volts. outputs w volts \<and> d_open (dev w) \<and> volts 12 = 5000 \<and> \<not> powered (volts 13)"
proof -
  obtain w volts where w: "outputs w volts" "d_open (dev w)" "volts 12 = 5000" using powered_session by blast
  have "powered (volts 12)" by (simp add: w(3) powered_def)
  then have "12 = (13 :: nat)" if "powered (volts 13)"
    using acknowledged_pins_safe [OF w(1)] w(2) that by (elim conjE impE allE [of _ 12] allE [of _ 13]) auto
  then have "\<not> powered (volts 13)" by auto
  with w show ?thesis by blast
qed

end
