(* ===== verification/Spec2Isabelle.thy ===== *)
theory Spec2Isabelle
  imports J2534 Proto_Cmd Session Exchange Api_Safety Api_Contract Api_Traffic Api_Setup Transport Deadline Scenario_Props
    Trace Usbtap Log Rerun Probe Wineshim Pin_Safety
begin

text \<open>
  A verification library for openport-j2534, the C driver of the Tactrix OpenPort 2.0 cable with the
  SAE J2534 interface. An application calls the fourteen entry points of src/op_j2534.c; each turns
  its arguments into command lines of the cable's text protocol (src/op_proto.c) and exchanges them
  through the session of src/op_device.c, whose reader thread cuts the byte stream from the
  transport into replies and frames, hands the replies to the waiting command and folds the frames
  into per-channel receive queues that \<open>PassThruReadMsgs\<close> empties.

  Parts, theories and code:
  \<^item> \<open>Prelude\<close>: bytes, memory blocks, the characters of \<open>printf\<close>; shared automation.
  \<^item> \<open>J2534\<close>: include/j2534/j2534.h (constants, \<open>PASSTHRU_MSG\<close>), \<open>op_status\<close> and its J2534 codes,
    the last-error text of src/op_error.c.
  \<^item> \<open>Proto_Parse\<close>, \<open>Proto_Reply\<close>, \<open>Proto_Cmd\<close>: src/op_proto.c. The reply parser, frames, the
    resynchronisation and the version text; what the device may send, as a datatype with its bytes
    and its meaning; the command encoders and the numbering.
  \<^item> \<open>Framing\<close>: the interface \<open>framing\<close> of a parser that cuts a stream into records, with the lemma
    that the records do not depend on the cuts; \<open>Proto_Reply\<close> interprets it by \<open>op_parse\<close>.
  \<^item> \<open>Byte_Ring\<close>, \<open>Rx_Queue\<close>: the byte ring of a channel and the queue of messages in it
    (\<open>ring_put\<close>, \<open>ring_get\<close>, \<open>queue_push\<close>, the pop of \<open>op_device_pop\<close>, \<open>flush_locked\<close>), interpreted
    in the interfaces \<open>byte_fifo\<close> and \<open>msg_fifo\<close>.
  \<^item> \<open>Reassembly\<close>: protocols and channels, \<open>queue_frame\<close>, \<open>indicate\<close>, \<open>absorb_frame\<close>.
  \<^item> \<open>Session\<close>: the state \<open>op_device\<close>, \<open>stash_reply\<close>, \<open>consume_accum\<close>, a turn of \<open>reader_main\<close>, the
    operations on a channel.
  \<^item> \<open>Exchange\<close>: \<open>cmd_exchange\<close> and its two wrappers, \<open>sync_device\<close>, open, close, \<open>op_device_pop\<close>.
  \<^item> \<open>Api_Core\<close>, \<open>Api_Msgs\<close>, \<open>Api_Ioctl\<close>: src/op_j2534.c, one definition per entry point and helper.
  \<^item> \<open>Api_Safety\<close>: the interface \<open>steady\<close> of a fact that survives the calls which leave the
    configuration alone, two interpretations, and the invariant of every reachable process.
    \<open>Pin_Safety\<close>: a third interpretation, and the pins as the cable acknowledged them.
  \<^item> \<open>Api_Contract\<close>, \<open>Api_Traffic\<close>, \<open>Api_Setup\<close>: the contracts of single entry points.
  \<^item> \<open>Usb_Rx\<close>, \<open>Usb_Bus\<close>: src/op_usb.c. The receive side (posted reads, callback, event thread, ring,
    \<open>usb_read\<close>, start, stop) with the step relation of its locked regions and the ring interpreted in
    \<open>byte_fifo\<close>; the write loop, the search in the descriptors, the open with its diagnosis, the close.
  \<^item> \<open>Serial\<close>: src/op_serial.c. \<open>Deadline\<close>: src/op_time.h.
  \<^item> \<open>Transport\<close>: src/op_transport.h and \<open>op_transport_open\<close>; the interface \<open>byte_pipe\<close> of a transport,
    interpreted on \<open>op_write\<close> and \<open>op_read\<close> over both implementations, and the session on top of USB.
  \<^item> \<open>Recording\<close>, \<open>Replay\<close>: the call recording of src/op_j2534.c and a line of the replay of
    tools/ab-official/j2534_trace.c. \<open>Replay_Session\<close>: the replay of a file, a program like the scenarios,
    and the recording of a session, with the renaming of ids that the replayer's tables refine.
    \<open>Rerun\<close>: the recording of a run and its replay on the same library, with the interface
    \<open>quiet_library\<close> of one whose error text can be read without effect, interpreted on the driver.
  \<^item> \<open>Wire\<close>: the interface \<open>sender\<close> of a predicate on what was sent, with the lines each entry point
    sends; interpreted for the form of the lines, for their growth and for silence on a vehicle's lines.
  \<^item> \<open>Client\<close>: programs that call a J2534 library, watches over their calls, and the interface
    \<open>device_library\<close>; \<open>Driver\<close> interprets it on the entry points. \<open>J2534_Params\<close>: the other constants.
  \<^item> \<open>Examples\<close>, \<open>Scenarios\<close>: op_smoke.c, op_iso15765.c and op_kline.c of examples/ and the fourteen
    scenarios of j2534_trace.c as such programs. \<open>Scenario_Props\<close>: what the scenarios do whatever
    they are answered, with the interface \<open>sweeping\<close> of a state that every marked call keeps.
    \<open>Trace\<close>: the JSON trace of j2534_trace.c, the marks of its lines, and its command line.
  \<^item> \<open>Usbtap\<close>: tools/usbtap/usbtap.c. \<open>Probe\<close>: tools/probe/op_probe.c. \<open>Wineshim\<close>:
    tools/ab-official/wineshim.c, the export table it patches. \<open>Log\<close>: src/op_log.c.

  State and concurrency. The session is the record \<open>op_device\<close>; the process (\<open>world\<close>) adds what was
  handed to the transport, the calling thread's error text and a schedule. What other threads do
  between two locked regions of an operation is a list of events: turns of the reader with the
  status and the bytes the transport gave it, or the first locked region of a close. Each operation
  that can wait takes one record of the schedule, which also says how the write ended and in which
  batches events arrived while it waited; the end of the list is the deadline. Every theorem holds
  for every schedule, so for every interleaving at this granularity and for every device. The
  mutexes serialise the regions and have no state here; commands are serialised by \<open>cmd_lock\<close>,
  so a call is one step of the process. Below the session, the USB transport shares its state with
  libusb's event thread: there the locked regions are the steps of the relation \<open>usb_step\<close>, labelled
  with the packet that came in or with what a read returned; properties hold on all paths, and
  \<open>usb_read\<close> is shown to be one.

  Errors are values: \<open>op_status\<close>, the J2534 return codes as integers, \<open>None\<close> where nothing is stored
  through a pointer. Machine integers have their width (\<open>unsigned long\<close> is 64 bits, as on the 64-bit
  Unix platforms the driver is built for; \<open>size_t\<close> values are natural numbers that stay below 2^64).
  Bytes in a buffer with their length are lists.

  Loops. The parsing loops recurse on what is left of the buffer. \<open>PassThruReadMsgs\<close> runs on the
  readings of its clock, one for each turn, and is \<open>None\<close> where they run out; \<open>read_returns\<close> shows that
  it ends once as many readings as messages asked for lie past the timeout. \<open>PassThruWriteMsgs\<close> recurses
  on its messages.

  What is shown: the parser is total, consumes what it decides and is inverse to the grammar of the
  device; the command lines carry their arguments; the receive queue refines a bounded list; frames
  are demultiplexed and reassembled exactly; the session does not depend on how reads are cut; an
  answer echoes the number of its command, is found among other traffic, and cannot be taken by a
  later command; an open follows its protocol; every reachable process is memory-safe in its buffers
  and electrically consistent, in its records and in what the cable acknowledged of the pins; every failure
  leaves a reason, and never an old one; each entry point sends
  the lines it should and keeps its books.

  The transports: writes send a prefix of their bytes; the packets reach the reads in order and every
  loss is counted; the reads stay posted; a stop frees what libusb has given back; an open finds the
  right device or says why not; a close releases what was claimed and gives the kernel its drivers back,
  on a system that refuses to attach one while an interface is claimed; and the probe sees the cable that
  an open finds.

  Recordings: the replay of a recorded session makes its calls in their order with the ids renamed, as
  long as the replayer's tables (4 devices, 16 channels, 64 filters, 16 periodic messages) and its line
  buffer suffice and no filter without a message comes after a call that left one in its place; on the
  driver itself the replay of a run repeats it, answers and final state included, where the recording
  holds all of every request, which covers every scenario that the trace tool runs by default.

  The clients: whatever is called, the cable is never out of step; the scenarios and the examples
  leave the device closed, the messages they write ask only for services that read, and every line that a
  sweep prints carries a mark of its own, read back from its text; the smoke test puts nothing on a vehicle's lines. A
  program does not notice the USB tap, whose trace is complete for up to 1024 transfer addresses. The log goes where the
  first call decides, and its dumps and the JSON strings read back.

  The session and the entry points see a transport as the statuses and bytes of their schedule, which
  \<open>byte_pipe\<close> says are those of either implementation; \<open>o_factory\<close> is the status of
  \<open>op_transport_open\<close>.

  Not modelled: libusb, the system calls and the registry of macOS, whose answers are arguments;
  that an answer takes the time it was given (deadlines are the ends of schedules); which lines the
  driver logs; the unlocked reads of \<open>open\<close>, \<open>lost\<close> and the
  channel table by an entry point are taken at one moment; two entry points of two threads
  interleave only at whole calls, but for the close; a message array shorter than the caller says.
  Of the clients: the sleeps, what the examples print, the replayer's own trace lines and warnings.
\<close>

end
